(* ===== verification/Prelude.thy ===== *)
theory Prelude
  imports Main "HOL-Library.Word" "HOL-Library.List_Lexorder" "HOL-Library.Char_ord"
    "HOL-Library.Product_Lexorder" "HOL-Library.Multiset" "HOL-Library.Code_Target_Nat"
begin

text \<open>
  What the components share: the pieces of Go and of its standard library the program uses
  (\<open>sort.Slice\<close>, \<open>strconv\<close>, \<open>strings\<close>, maps built by iterating a slice), each as a HOL function,
  with the lemmas the component theories rest on. Go strings are byte strings compared
  bytewise, which is the lexicographic order on \<^typ>\<open>string\<close>.
\<close>

named_theorems const_defs \<open>definitions of the program's named constants\<close>

section \<open>Sorting by a comparison function\<close>

text \<open>
  \<open>sort.Slice(xs, lt)\<close> sorts with a strict comparison. Go's sort is not stable, so where two
  different elements compare equal their order is unspecified; \<open>sortBy\<close> is the stable choice,
  and lemma \<open>any_sort_agrees\<close> of the locale below shows that no choice is left when the
  comparison separates the elements.
\<close>

fun insBy :: "('a \<Rightarrow> 'a \<Rightarrow> bool) \<Rightarrow> 'a \<Rightarrow> 'a list \<Rightarrow> 'a list" where
  "insBy lt x [] = [x]"
| "insBy lt x (y # ys) = (if lt y x then y # insBy lt x ys else x # y # ys)"

definition sortBy :: "('a \<Rightarrow> 'a \<Rightarrow> bool) \<Rightarrow> 'a list \<Rightarrow> 'a list" where
  "sortBy lt xs = foldr (insBy lt) xs []"

section \<open>Maps built by ranging over a slice\<close>

text \<open>\<open>for _, x := range xs { m[key(x)] = x }\<close>: the last element with a key wins.\<close>

definition index_by :: "('a \<Rightarrow> 'k) \<Rightarrow> 'a list \<Rightarrow> ('k \<rightharpoonup> 'a)" where
  "index_by key xs = foldl (\<lambda>m x. m(key x \<mapsto> x)) Map.empty xs"

text \<open>A Go map that is ranged over is an association list with distinct keys.\<close>

type_synonym ('k, 'v) gomap = "('k \<times> 'v) list"

fun mput :: "'k \<Rightarrow> 'v \<Rightarrow> ('k, 'v) gomap \<Rightarrow> ('k, 'v) gomap" where
  "mput k v [] = [(k, v)]"
| "mput k v ((k', v') # m) = (if k = k' then (k, v) # m else (k', v') # mput k v m)"

section \<open>Text\<close>

definition digit :: "nat \<Rightarrow> char" where
  "digit n = ''0123456789'' ! n"

fun itoa_nat :: "nat \<Rightarrow> string" where
  "itoa_nat n = (if n < 10 then [digit n] else itoa_nat (n div 10) @ [digit (n mod 10)])"

declare itoa_nat.simps [simp del]

definition itoa :: "int \<Rightarrow> string" where
  "itoa i = (if i < 0 then CHR ''-'' # itoa_nat (nat (- i)) else itoa_nat (nat i))"

text \<open>\<open>fmt\<close>'s \<open>%0<w>d\<close> of a number that is not negative.\<close>

definition padDec :: "nat \<Rightarrow> nat \<Rightarrow> string" where
  "padDec w n = replicate (w - length (itoa_nat n)) CHR ''0'' @ itoa_nat n"

definition digitVal :: "char \<Rightarrow> nat option" where
  "digitVal c = (let n = of_char c in if 48 \<le> n \<and> n \<le> 57 then Some (n - 48) else None)"

fun digitsVal :: "nat \<Rightarrow> string \<Rightarrow> nat option" where
  "digitsVal acc [] = Some acc"
| "digitsVal acc (c # cs) =
     (case digitVal c of None \<Rightarrow> None | Some d \<Rightarrow> digitsVal (10 * acc + d) cs)"

text \<open>
  \<open>strconv.Atoi\<close>: an optional sign, at least one digit, nothing else, and a value in the range of a
  64-bit int. \<^term>\<open>None\<close> is the error.
\<close>

definition atoi :: "string \<Rightarrow> int option" where
  "atoi s =
     (let (neg, ds) =
        (case s of [] \<Rightarrow> (False, [])
         | c # cs \<Rightarrow> if c = CHR ''-'' then (True, cs)
                    else if c = CHR ''+'' then (False, cs) else (False, s))
      in if ds = [] then None
         else (case digitsVal 0 ds of None \<Rightarrow> None
               | Some n \<Rightarrow> if neg then (if n \<le> 2 ^ 63 then Some (- int n) else None)
                          else (if n < 2 ^ 63 then Some (int n) else None)))"

definition boolText :: "bool \<Rightarrow> string" where
  "boolText b = (if b then ''true'' else ''false'')"

text \<open>\<open>strings.Join\<close>, \<open>strings.CutPrefix\<close> and \<open>strings.ToLower\<close> (on ASCII).\<close>

fun joinText :: "string \<Rightarrow> string list \<Rightarrow> string" where
  "joinText sep [] = []"
| "joinText sep [x] = x"
| "joinText sep (x # y # xs) = x @ sep @ joinText sep (y # xs)"

fun cutPrefix :: "string \<Rightarrow> string \<Rightarrow> string option" where
  "cutPrefix [] s = Some s"
| "cutPrefix (p # ps) [] = None"
| "cutPrefix (p # ps) (c # cs) = (if p = c then cutPrefix ps cs else None)"

definition toLowerChar :: "char \<Rightarrow> char" where
  "toLowerChar c = (let n = of_char c :: nat in if 65 \<le> n \<and> n \<le> 90 then char_of (n + 32) else c)"

definition toLower :: "string \<Rightarrow> string" where
  "toLower s = map toLowerChar s"

text \<open>
  \<open>fmt\<close>'s \<open>%q\<close>: double quotes around the text, with quotes and backslashes escaped and control
  characters written as Go writes them. Bytes from 128 up are kept as they are.
\<close>

definition hexDigit :: "nat \<Rightarrow> char" where
  "hexDigit n = ''0123456789abcdef'' ! n"

definition quoteChar :: "char \<Rightarrow> string" where
  "quoteChar c =
     (let n = of_char c :: nat
      in if n = 34 \<or> n = 92 then [CHR 0x5C, c]
         else if n = 7 then [CHR 0x5C, CHR ''a'']
         else if n = 8 then [CHR 0x5C, CHR ''b'']
         else if n = 9 then [CHR 0x5C, CHR ''t'']
         else if n = 10 then [CHR 0x5C, CHR ''n'']
         else if n = 11 then [CHR 0x5C, CHR ''v'']
         else if n = 12 then [CHR 0x5C, CHR ''f'']
         else if n = 13 then [CHR 0x5C, CHR ''r'']
         else if n < 32 \<or> n = 127
           then [CHR 0x5C, CHR ''x'', hexDigit (n div 16), hexDigit (n mod 16)]
         else [c])"

definition quote :: "string \<Rightarrow> string" where
  "quote s = CHR 0x22 # concat (map quoteChar s) @ [CHR 0x22]"

section \<open>Lemmas: sorting\<close>

lemma mset_insBy [simp]: "mset (insBy lt x xs) = add_mset x (mset xs)"
  by (induction xs) auto

lemma sortBy_Nil [simp]: "sortBy lt [] = []"
  by (simp add: sortBy_def)

lemma sortBy_Cons: "sortBy lt (x # xs) = insBy lt x (sortBy lt xs)"
  by (simp add: sortBy_def)

lemma mset_sortBy [simp]: "mset (sortBy lt xs) = mset xs"
  by (induction xs) (simp_all add: sortBy_Cons)

lemma set_sortBy [simp]: "set (sortBy lt xs) = set xs"
  by (metis mset_sortBy set_mset_mset)

lemma length_sortBy [simp]: "length (sortBy lt xs) = length xs"
  by (metis mset_sortBy size_mset)

lemma distinct_sortBy [simp]: "distinct (sortBy lt xs) = distinct xs"
  by (metis mset_sortBy mset_eq_imp_distinct_iff)

lemma sortBy_eq_Nil [simp]: "sortBy lt xs = [] \<longleftrightarrow> xs = []"
  by (metis length_0_conv length_sortBy)

lemma insBy_insort_key:
  assumes "\<And>a b. lt a b \<longleftrightarrow> k a < k b"
  shows "insBy lt x xs = insort_key k x xs"
  by (induction xs) (auto simp: assms)

lemma sortBy_sort_key:
  assumes "\<And>a b. lt a b \<longleftrightarrow> k a < k b"
  shows "sortBy lt xs = sort_key k xs"
  using insBy_insort_key [of lt k, OF assms] unfolding sortBy_def sort_key_def
  by presburger

text \<open>
  The contract every comparison of the program meets: it compares by a key in a linear order.
  What the sorted slice then is follows once, here.
\<close>

locale keyed_less =
  fixes lt :: "'a \<Rightarrow> 'a \<Rightarrow> bool" and key :: "'a \<Rightarrow> 'k::linorder"
  assumes less_key: "lt a b \<longleftrightarrow> key a < key b"
begin

lemma sort_is_sort_key: "sortBy lt xs = sort_key key xs"
  by (rule sortBy_sort_key) (rule less_key)

lemma sort_sorted: "sorted (map key (sortBy lt xs))"
  by (simp add: sort_is_sort_key)

lemma sort_sorted_wrt: "sorted_wrt (\<lambda>a b. \<not> lt b a) (sortBy lt xs)"
  using sort_sorted [of xs] by (simp add: sorted_wrt_map less_key not_less)

lemma sort_strict:
  assumes "inj_on key (set xs)" and "distinct xs"
  shows "sorted_wrt lt (sortBy lt xs)"
proof -
  have "distinct (map key (sortBy lt xs))"
    using assms by (simp add: distinct_map)
  with sort_sorted [of xs] have "sorted_wrt (<) (map key (sortBy lt xs))"
    by (simp add: strict_sorted_iff)
  moreover have "lt = (\<lambda>a b. key a < key b)" by (intro ext) (rule less_key)
  ultimately show ?thesis by (simp add: sorted_wrt_map)
qed

lemma any_sort_agrees:
  assumes "mset ys = mset xs" and "sorted_wrt (\<lambda>a b. \<not> lt b a) ys" and "inj_on key (set xs)"
  shows "ys = sortBy lt xs"
proof -
  have "sorted (map key ys)"
    using assms(2) by (simp add: sorted_wrt_map less_key not_less)
  moreover have "mset ys = mset (sortBy lt xs)" using assms(1) by simp
  ultimately show ?thesis
    using sort_sorted [of xs] assms
    by (metis properties_for_sort_key set_mset_mset sort_key_inj_key_eq sort_is_sort_key mset_sortBy)
qed

lemma sort_perm:
  assumes "mset xs = mset ys" and "inj_on key (set xs)"
  shows "sortBy lt xs = sortBy lt ys"
  using any_sort_agrees [of "sortBy lt xs" ys] assms
  by (metis mset_eq_setD mset_sortBy sort_sorted_wrt)

lemma sort_hd_least:
  assumes "x \<in> set xs"
  shows "\<not> lt x (hd (sortBy lt xs))"
proof -
  obtain y ys where s: "sortBy lt xs = y # ys"
    using assms by (metis set_sortBy list.set_cases)
  have "x \<in> set (y # ys)" using assms by (simp flip: s)
  moreover have "sorted_wrt (\<lambda>a b. \<not> lt b a) (y # ys)"
    using sort_sorted_wrt [of xs] by (simp add: s)
  ultimately show ?thesis by (auto simp: s less_key)
qed

end

interpretation text_less: keyed_less "(<) :: string \<Rightarrow> string \<Rightarrow> bool" "\<lambda>s. s"
  by unfold_locales simp

lemma text_sort_perm: "mset xs = mset ys \<Longrightarrow> sort xs = sort ys" for xs :: "'a::linorder list"
  by (metis sorted_list_of_multiset_mset)

section \<open>Lemmas: maps\<close>

lemma index_by_snoc: "index_by key (xs @ [x]) = (index_by key xs)(key x \<mapsto> x)"
  by (simp add: index_by_def)

lemma dom_index_by [simp]: "dom (index_by key xs) = key ` set xs"
proof (induction xs rule: rev_induct)
  case Nil
  show ?case by (simp add: index_by_def)
next
  case (snoc x xs)
  then show ?case by (simp only: index_by_snoc dom_fun_upd) auto
qed

lemma index_by_SomeD: "index_by key xs k = Some x \<Longrightarrow> x \<in> set xs \<and> key x = k"
proof (induction xs rule: rev_induct)
  case Nil
  then show ?case by (simp add: index_by_def)
next
  case (snoc x xs)
  then show ?case by (auto simp: index_by_snoc split: if_splits)
qed

lemma index_by_eq_None [simp]: "index_by key xs k = None \<longleftrightarrow> k \<notin> key ` set xs"
  by (metis dom_index_by domIff)

lemma index_by_inj:
  assumes "inj_on key (set xs)"
  shows "index_by key xs k = Some x \<longleftrightarrow> x \<in> set xs \<and> key x = k"
proof
  assume "index_by key xs k = Some x"
  then show "x \<in> set xs \<and> key x = k" by (rule index_by_SomeD)
next
  assume x: "x \<in> set xs \<and> key x = k"
  then obtain y where y: "index_by key xs k = Some y"
    by (metis image_eqI index_by_eq_None option.exhaust)
  then have "y \<in> set xs \<and> key y = k" by (rule index_by_SomeD)
  with assms x y show "index_by key xs k = Some x" by (metis inj_onD)
qed

lemma index_by_perm:
  assumes "inj_on key (set xs)" and "set xs = set ys"
  shows "index_by key xs = index_by key ys"
proof
  fix k
  have "index_by key xs k = Some x \<longleftrightarrow> index_by key ys k = Some x" for x
    using index_by_inj [of key xs] index_by_inj [of key ys] assms by simp
  then show "index_by key xs k = index_by key ys k" by (metis option.exhaust)
qed

lemma map_of_mput [simp]: "map_of (mput k v m) = (map_of m)(k \<mapsto> v)"
  by (induction m) auto

lemma keys_mput: "fst ` set (mput k v m) = insert k (fst ` set m)"
proof (induction m)
  case (Cons p m)
  then show ?case by (cases p) (simp add: insert_commute)
qed simp

lemma distinct_mput [simp]: "distinct (map fst m) \<Longrightarrow> distinct (map fst (mput k v m))"
  by (induction m) (auto simp: keys_mput)

text \<open>
  The contract of the loops that fill a map with the rows one agent owns: each element that is
  \<open>mine\<close> puts its row under its key. The status writers and the index of the metrics are such loops.
\<close>

locale row_writer =
  fixes rows :: "'a list \<Rightarrow> ('k, 'v) gomap" and mine :: "'a \<Rightarrow> bool" and key :: "'a \<Rightarrow> 'k" and row :: "'a \<Rightarrow> 'v"
  assumes rows_Nil: "rows [] = []"
    and rows_snoc: "rows (xs @ [x]) = (if mine x then mput (key x) (row x) (rows xs) else rows xs)"
begin

lemma rows_keys: "fst ` set (rows xs) = key ` {x \<in> set xs. mine x}"
proof (induction xs rule: rev_induct)
  case (snoc x xs)
  have "{y \<in> set (xs @ [x]). mine y} = (if mine x then insert x {y \<in> set xs. mine y} else {y \<in> set xs. mine y})"
    by auto
  with snoc show ?case by (simp add: rows_snoc keys_mput)
qed (simp add: rows_Nil)

lemma rows_distinct: "distinct (map fst (rows xs))"
  by (induction xs rule: rev_induct) (simp_all add: rows_Nil rows_snoc)

lemma rows_SomeD: "map_of (rows xs) k = Some v \<Longrightarrow> \<exists>x \<in> set xs. mine x \<and> key x = k \<and> row x = v"
  by (induction xs rule: rev_induct) (auto simp: rows_Nil rows_snoc split: if_splits)

lemma rows_dom: "map_of (rows xs) k \<noteq> None \<longleftrightarrow> (\<exists>x \<in> set xs. mine x \<and> key x = k)"
  using rows_keys [of xs] by (auto simp: map_of_eq_None_iff)

lemma rows_lookup:
  assumes "distinct (map key xs)" and "x \<in> set xs"
  shows "map_of (rows xs) (key x) = (if mine x then Some (row x) else None)"
proof (cases "map_of (rows xs) (key x)")
  case None
  then show ?thesis using rows_dom [of xs "key x"] assms(2) by auto
next
  case (Some v)
  then obtain y where "y \<in> set xs" "mine y" "key y = key x" "row y = v" using rows_SomeD by blast
  moreover from this have "y = x" using assms by (simp add: distinct_map inj_on_def)
  ultimately show ?thesis using Some by simp
qed

end

section \<open>Lemmas: text\<close>

lemma digitVal_digit [simp]: "n < 10 \<Longrightarrow> digitVal (digit n) = Some n"
proof -
  assume "n < 10"
  then have "n \<in> {0, 1, 2, 3, 4, 5, 6, 7, 8, 9}" by auto
  then show ?thesis by (auto simp: digitVal_def digit_def numeral_eq_Suc Let_def)
qed

lemma digitsVal_append:
  "digitsVal acc (xs @ ys) = (case digitsVal acc xs of None \<Rightarrow> None | Some a \<Rightarrow> digitsVal a ys)"
  by (induction xs arbitrary: acc) (auto split: option.splits)

lemma digitsVal_itoa_nat [simp]: "digitsVal 0 (itoa_nat n) = Some n"
proof (induction n rule: itoa_nat.induct)
  case (1 n)
  show ?case
  proof (cases "n < 10")
    case True
    then show ?thesis by (simp add: itoa_nat.simps [of n])
  next
    case False
    with 1 show ?thesis by (simp add: itoa_nat.simps [of n] digitsVal_append)
  qed
qed

lemma digitsVal_zeros [simp]: "digitsVal 0 (replicate k CHR ''0'' @ s) = digitsVal 0 s"
  by (induction k) (simp_all add: digitVal_def)

lemma itoa_nat_inj [simp]: "itoa_nat m = itoa_nat n \<longleftrightarrow> m = n"
  by (metis digitsVal_itoa_nat option.inject)

lemma padDec_val [simp]: "digitsVal 0 (padDec w n) = Some n"
  by (simp add: padDec_def)

lemma padDec_inj [simp]: "padDec w m = padDec w n \<longleftrightarrow> m = n"
  by (metis option.inject padDec_val)

lemma itoa_nat_not_Nil [simp]: "itoa_nat n \<noteq> []"
  by (subst itoa_nat.simps) simp

lemma set_itoa_nat: "c \<in> set (itoa_nat n) \<Longrightarrow> \<exists>d<10. c = digit d"
proof (induction n rule: itoa_nat.induct)
  case (1 n)
  show ?case
  proof (cases "n < 10")
    case True
    with 1 show ?thesis by (auto simp: itoa_nat.simps [of n])
  next
    case False
    with 1 show ?thesis
      by (auto simp: itoa_nat.simps [of n] intro: exI [of _ "n mod 10"])
  qed
qed

lemma digit_not_sign: "d < 10 \<Longrightarrow> digit d \<noteq> CHR ''-'' \<and> digit d \<noteq> CHR ''+''"
proof -
  assume "d < 10"
  then have "d \<in> {0, 1, 2, 3, 4, 5, 6, 7, 8, 9}" by auto
  then show ?thesis by (auto simp: digit_def numeral_eq_Suc)
qed

lemma atoi_itoa_nat: "n < 2 ^ 63 \<Longrightarrow> atoi (itoa_nat n) = Some (int n)"
proof -
  assume n: "n < 2 ^ 63"
  obtain c cs where s: "itoa_nat n = c # cs"
    by (meson itoa_nat_not_Nil list.exhaust)
  have "c \<noteq> CHR ''-''" "c \<noteq> CHR ''+''"
    using set_itoa_nat [of c n] digit_not_sign by (auto simp: s)
  moreover have "digitsVal 0 (c # cs) = Some n" by (metis digitsVal_itoa_nat s)
  ultimately show ?thesis using n by (simp add: atoi_def s del: digitsVal.simps)
qed

lemma cutPrefix_append [simp]: "cutPrefix p (p @ s) = Some s"
  by (induction p) auto

lemma cutPrefix_Some: "cutPrefix p s = Some r \<longleftrightarrow> s = p @ r"
  by (induction p s rule: cutPrefix.induct) auto

end
