(* ===== verification/Netip.thy ===== *)
theory Netip
  imports Prelude
begin

text \<open>
  The part of Go's \<open>net/netip\<close> the program uses: addresses, prefixes, their text forms and the
  parsers of those forms. \<^verbatim>\<open>netip.Addr\<close> is a zero value, a 32-bit IPv4 address, or a 128-bit IPv6
  address with a zone; the zero value is not an address. \<^verbatim>\<open>netip.Prefix\<close> stores its length plus
  one, so that its zero value, and a prefix made with a length out of range, is not valid.
\<close>

unbundle bit_operations_syntax

datatype addr = AddrZero | V4 "32 word" | V6 "128 word" string

record prefix =
  pfxAddr :: addr
  pfxBits1 :: nat

definition prefixZero :: prefix where
  "prefixZero = \<lparr>pfxAddr = AddrZero, pfxBits1 = 0\<rparr>"

section \<open>Addresses\<close>

fun addrIsValid :: "addr \<Rightarrow> bool" where
  "addrIsValid AddrZero = False"
| "addrIsValid _ = True"

fun is4 :: "addr \<Rightarrow> bool" where
  "is4 (V4 _) = True"
| "is4 _ = False"

fun is6 :: "addr \<Rightarrow> bool" where
  "is6 (V6 _ _) = True"
| "is6 _ = False"

text \<open>An IPv4-mapped IPv6 address, ::ffff:0:0/96.\<close>

fun is4In6 :: "addr \<Rightarrow> bool" where
  "is4In6 (V6 w _) = (drop_bit 32 w = 0xffff)"
| "is4In6 _ = False"

fun unmapAddr :: "addr \<Rightarrow> addr" where
  "unmapAddr (V6 w z) = (if drop_bit 32 w = 0xffff then V4 (ucast w) else V6 w z)"
| "unmapAddr a = a"

fun withoutZone :: "addr \<Rightarrow> addr" where
  "withoutZone (V6 w _) = V6 w []"
| "withoutZone a = a"

fun bitLen :: "addr \<Rightarrow> nat" where
  "bitLen AddrZero = 0"
| "bitLen (V4 _) = 32"
| "bitLen (V6 _ _) = 128"

fun addrVal :: "addr \<Rightarrow> int" where
  "addrVal AddrZero = 0"
| "addrVal (V4 w) = uint w"
| "addrVal (V6 w _) = uint w"

fun addrZone :: "addr \<Rightarrow> string" where
  "addrZone (V6 _ z) = z"
| "addrZone _ = []"

text \<open>\<open>Addr.Less\<close>: by bit length, then by value, then by zone.\<close>

definition addrKey :: "addr \<Rightarrow> nat \<times> int \<times> string" where
  "addrKey a = (bitLen a, addrVal a, addrZone a)"

definition addrLess :: "addr \<Rightarrow> addr \<Rightarrow> bool" where
  "addrLess a b =
     (if bitLen a \<noteq> bitLen b then bitLen a < bitLen b
      else if addrVal a \<noteq> addrVal b then addrVal a < addrVal b
      else addrZone a < addrZone b)"

text \<open>\<open>As4\<close> and \<open>As16\<close>; \<^term>\<open>None\<close> is the panic of \<open>As4\<close> on an address with no IPv4 form.\<close>

fun as4 :: "addr \<Rightarrow> 32 word option" where
  "as4 (V4 w) = Some w"
| "as4 (V6 w z) = (if is4In6 (V6 w z) then Some (ucast w) else None)"
| "as4 AddrZero = None"

fun as16 :: "addr \<Rightarrow> 128 word" where
  "as16 (V4 w) = 0xffff00000000 OR ucast w"
| "as16 (V6 w _) = w"
| "as16 AddrZero = 0"

section \<open>Prefixes\<close>

definition prefixFrom :: "addr \<Rightarrow> int \<Rightarrow> prefix" where
  "prefixFrom a bits =
     \<lparr>pfxAddr = withoutZone a,
      pfxBits1 = (if addrIsValid a \<and> 0 \<le> bits \<and> bits \<le> int (bitLen a) then nat bits + 1 else 0)\<rparr>"

definition prefixIsValid :: "prefix \<Rightarrow> bool" where
  "prefixIsValid p \<longleftrightarrow> 0 < pfxBits1 p"

definition prefixBits :: "prefix \<Rightarrow> int" where
  "prefixBits p = int (pfxBits1 p) - 1"

fun maskAddr :: "addr \<Rightarrow> nat \<Rightarrow> addr" where
  "maskAddr (V4 w) n = V4 (w AND NOT (mask (32 - n)))"
| "maskAddr (V6 w z) n = V6 (w AND NOT (mask (128 - n))) []"
| "maskAddr AddrZero n = AddrZero"

definition masked :: "prefix \<Rightarrow> prefix" where
  "masked p =
     (if prefixIsValid p
      then \<lparr>pfxAddr = maskAddr (pfxAddr p) (pfxBits1 p - 1), pfxBits1 = pfxBits1 p\<rparr>
      else prefixZero)"

section \<open>Text forms\<close>

definition octets :: "32 word \<Rightarrow> nat list" where
  "octets w = map (\<lambda>k. unat (take_bit 8 (drop_bit (8 * k) w))) [3, 2, 1, 0]"

definition ipv4Text :: "32 word \<Rightarrow> string" where
  "ipv4Text w = joinText ''.'' (map itoa_nat (octets w))"

definition groups :: "128 word \<Rightarrow> nat list" where
  "groups w = map (\<lambda>k. unat (take_bit 16 (drop_bit (16 * k) w))) [7, 6, 5, 4, 3, 2, 1, 0]"

fun hexText :: "nat \<Rightarrow> string" where
  "hexText n = (if n < 16 then [hexDigit n] else hexText (n div 16) @ [hexDigit (n mod 16)])"

declare hexText.simps [simp del]

text \<open>The first of the longest runs of at least two zero groups, as (start, end).\<close>

definition zeroRun :: "nat list \<Rightarrow> (nat \<times> nat) option" where
  "zeroRun gs =
     foldl (\<lambda>best i.
       let l = length (takeWhile (\<lambda>g. g = 0) (drop i gs))
       in if 2 \<le> l \<and> (case best of None \<Rightarrow> 0 | Some (s, e) \<Rightarrow> e - s) < l
          then Some (i, i + l) else best) None [0, 1, 2, 3, 4, 5, 6, 7]"

definition ipv6Text :: "128 word \<Rightarrow> string" where
  "ipv6Text w =
     (let gs = groups w
      in case zeroRun gs of
           None \<Rightarrow> joinText '':'' (map hexText gs)
         | Some (s, e) \<Rightarrow> joinText '':'' (map hexText (take s gs)) @ ''::''
                        @ joinText '':'' (map hexText (drop e gs)))"

definition zoneText :: "string \<Rightarrow> string" where
  "zoneText z = (if z = [] then [] else CHR ''%'' # z)"

fun addrText :: "addr \<Rightarrow> string" where
  "addrText AddrZero = ''invalid IP''"
| "addrText (V4 w) = ipv4Text w"
| "addrText (V6 w z) =
     (if is4In6 (V6 w z) then ''::ffff:'' @ ipv4Text (ucast w) @ zoneText z
      else ipv6Text w @ zoneText z)"

definition prefixText :: "prefix \<Rightarrow> string" where
  "prefixText p =
     (if prefixIsValid p then addrText (pfxAddr p) @ ''/'' @ itoa (prefixBits p)
      else ''invalid Prefix'')"

section \<open>Parsers\<close>

text \<open>
  \<open>parse4\<close> is \<open>parseIPv4Fields\<close>: the value and the digits of the field being read, and the fields
  read so far. A dot needs a digit before it and a character after it.
\<close>

fun parse4 :: "nat \<Rightarrow> nat \<Rightarrow> nat list \<Rightarrow> string \<Rightarrow> nat list option" where
  "parse4 val dl fs [] = (if length fs < 3 then None else Some (fs @ [val]))"
| "parse4 val dl fs (c # cs) =
     (case digitVal c of
        Some d \<Rightarrow>
          if dl = 1 \<and> val = 0 then None
          else if 255 < 10 * val + d then None
          else parse4 (10 * val + d) (dl + 1) fs cs
      | None \<Rightarrow>
          if c \<noteq> CHR ''.'' then None
          else if dl = 0 \<or> cs = [] then None
          else if length fs = 3 then None
          else parse4 0 0 (fs @ [val]) cs)"

definition word_of_digits :: "int \<Rightarrow> nat list \<Rightarrow> int" where
  "word_of_digits base ds = foldl (\<lambda>a d. a * base + int d) 0 ds"

definition hexVal :: "char \<Rightarrow> nat option" where
  "hexVal c =
     (let n = of_char c
      in if 48 \<le> n \<and> n \<le> 57 then Some (n - 48)
         else if 97 \<le> n \<and> n \<le> 102 then Some (n - 87)
         else if 65 \<le> n \<and> n \<le> 70 then Some (n - 55) else None)"

definition isHex :: "char \<Rightarrow> bool" where
  "isHex c \<longleftrightarrow> hexVal c \<noteq> None"

text \<open>
  \<open>parse6\<close> is the loop of \<open>parseIPv6\<close>: the first argument counts the groups still missing, then
  the group the :: stands before, the groups read and the text left.
\<close>

fun parse6 :: "nat \<Rightarrow> nat option \<Rightarrow> nat list \<Rightarrow> string \<Rightarrow> (nat option \<times> nat list \<times> string) option" where
  "parse6 0 ell gs s = Some (ell, gs, s)"
| "parse6 (Suc n) ell gs s =
     (let ds = takeWhile isHex s; rest = dropWhile isHex s;
          gs' = gs @ [nat (word_of_digits 16 (map (the \<circ> hexVal) ds))]
      in if ds = [] \<or> 4 < length ds then None
         else (case rest of
           [] \<Rightarrow> Some (ell, gs', [])
         | c # cs \<Rightarrow>
             if c = CHR ''.'' then
               (if ell = None \<and> length gs \<noteq> 6 then None
                else if 8 < length gs + 2 then None
                else (case parse4 0 0 [] s of
                        Some [a, b, c', d] \<Rightarrow> Some (ell, gs @ [a * 256 + b, c' * 256 + d], [])
                      | _ \<Rightarrow> None))
             else if c \<noteq> CHR '':'' then None
             else (case cs of
               [] \<Rightarrow> None
             | d # ds' \<Rightarrow>
                 if d = CHR '':'' then
                   (if ell \<noteq> None then None
                    else if ds' = [] then Some (Some (length gs'), gs', [])
                    else parse6 n (Some (length gs')) gs' ds')
                 else parse6 n ell gs' cs)))"

definition expand6 :: "nat option \<Rightarrow> nat list \<Rightarrow> nat list option" where
  "expand6 ell gs =
     (if length gs < 8
      then (case ell of None \<Rightarrow> None
            | Some e \<Rightarrow> Some (take e gs @ replicate (8 - length gs) 0 @ drop e gs))
      else if ell \<noteq> None then None else Some gs)"

definition parseIPv6 :: "string \<Rightarrow> addr option" where
  "parseIPv6 txt =
     (let s = takeWhile (\<lambda>c. c \<noteq> CHR ''%'') txt;
          z = dropWhile (\<lambda>c. c \<noteq> CHR ''%'') txt;
          start = (case cutPrefix ''::'' s of None \<Rightarrow> (None, s) | Some r \<Rightarrow> (Some 0, r))
      in if length z = 1 then None
         else if start = (Some 0, []) then Some (V6 0 (drop 1 z))
         else (case parse6 8 (fst start) [] (snd start) of
                 Some (ell, gs, []) \<Rightarrow>
                   (case expand6 ell gs of
                      Some full \<Rightarrow> Some (V6 (word_of_int (word_of_digits 65536 full)) (drop 1 z))
                    | None \<Rightarrow> None)
               | _ \<Rightarrow> None))"

definition parseIPv4 :: "string \<Rightarrow> addr option" where
  "parseIPv4 s =
     (case parse4 0 0 [] s of
        Some fs \<Rightarrow> Some (V4 (word_of_int (word_of_digits 256 fs)))
      | None \<Rightarrow> None)"

text \<open>\<open>ParseAddr\<close>: the first dot, colon or percent sign decides the form. \<^term>\<open>None\<close> is the error.\<close>

definition parseAddr :: "string \<Rightarrow> addr option" where
  "parseAddr s =
     (case dropWhile (\<lambda>c. c \<notin> set ''.:%'') s of
        [] \<Rightarrow> None
      | c # _ \<Rightarrow> if c = CHR ''.'' then parseIPv4 s
                else if c = CHR '':'' then parseIPv6 s else None)"

text \<open>\<open>ParsePrefix\<close>: the text after the last slash is the length, with no leading zero or sign.\<close>

definition parsePrefix :: "string \<Rightarrow> prefix option" where
  "parsePrefix s =
     (if CHR ''/'' \<notin> set s then None
      else let bs = rev (takeWhile (\<lambda>c. c \<noteq> CHR ''/'') (rev s));
               as = take (length s - length bs - 1) s
           in case parseAddr as of
                None \<Rightarrow> None
              | Some a \<Rightarrow>
                  if addrZone a \<noteq> [] then None
                  else if 1 < length bs \<and> (hd bs < CHR ''1'' \<or> CHR ''9'' < hd bs) then None
                  else (case atoi bs of
                          None \<Rightarrow> None
                        | Some n \<Rightarrow> if n < 0 \<or> int (bitLen a) < n then None
                                   else Some (prefixFrom a n)))"

section \<open>Evaluation\<close>

text \<open>Code equations with the powers of two of the widths in use written out, for the simplifier.\<close>

lemma take_bit_int_widths [code]:
  fixes k :: int
  shows "take_bit n k =
    (if n = 128 then k mod 0x100000000000000000000000000000000
     else if n = 64 then k mod 0x10000000000000000
     else if n = 32 then k mod 0x100000000
     else if n = 16 then k mod 0x10000 else k mod 2 ^ n)"
  by (simp add: take_bit_eq_mod)

lemma drop_bit_int_widths [code]:
  fixes k :: int
  shows "drop_bit n k = (if n = 64 then k div 0x10000000000000000 else k div 2 ^ n)"
  by (simp add: drop_bit_eq_div)

section \<open>Lemmas\<close>

lemma addrKey_inj [simp]: "addrKey a = addrKey b \<longleftrightarrow> a = b"
  by (cases a; cases b) (auto simp: addrKey_def word_uint_eq_iff)

lemma addrLess_key: "addrLess a b \<longleftrightarrow> addrKey a < addrKey b"
  by (auto simp: addrLess_def addrKey_def less_prod_def)

interpretation addr_less: keyed_less addrLess addrKey
  by unfold_locales (rule addrLess_key)

lemma unmapAddr_idem [simp]: "unmapAddr (unmapAddr a) = unmapAddr a"
  by (cases a) auto

lemma unmapAddr_valid [simp]: "addrIsValid (unmapAddr a) = addrIsValid a"
  by (cases a) auto

lemma is6_not_4in6_unmap: "is6 a \<Longrightarrow> \<not> is4In6 a \<Longrightarrow> unmapAddr a = a"
  by (cases a) auto

lemma prefixFrom_valid:
  "prefixIsValid (prefixFrom a bits) \<longleftrightarrow> addrIsValid a \<and> 0 \<le> bits \<and> bits \<le> int (bitLen a)"
  by (simp add: prefixFrom_def prefixIsValid_def)

lemma prefixFrom_addr [simp]: "pfxAddr (prefixFrom a bits) = withoutZone a"
  by (simp add: prefixFrom_def)

end
