(* ===== verification/Api.thy ===== *)
theory Api
  imports Netip
begin

text \<open>
  The objects the agents watch and write: the project's own kinds (package \<open>v1alpha1\<close>) and, of the
  Kubernetes kinds, the fields the program reads. Times are instants as integers (nanoseconds),
  \<^verbatim>\<open>int32\<close> and \<^verbatim>\<open>int64\<close> fields are integers (the program compares them and truncates them, and does no
  arithmetic on them that could wrap), a pointer is an option, and a map is an association list.
\<close>

section \<open>Kubernetes metadata and selectors\<close>

record ObjectMeta =
  omName :: string
  omNamespace :: string
  omGeneration :: int
  omCreationTimestamp :: int
  omResourceVersion :: string
  omLabels :: "(string, string) gomap"

record LabelSelector =
  lsMatchLabels :: "(string, string) gomap"
  lsMatchExpressions :: "(string \<times> string \<times> string list) list"

text \<open>
  \<^verbatim>\<open>labels.Selector\<close> is an interface of the Kubernetes library; a value is the two methods the program
  calls. \<^verbatim>\<open>metav1.LabelSelectorAsSelector\<close>, which makes one from a \<^typ>\<open>LabelSelector\<close> or fails, is a
  parameter of every definition that uses it, written \<open>asSel\<close>.
\<close>

record Selector =
  selEmpty :: bool
  selMatches :: "(string, string) gomap \<Rightarrow> bool"

type_synonym selector_fn = "LabelSelector \<Rightarrow> Selector option"

datatype CondStatus = CondTrue | CondFalse | CondUnknown

section \<open>Condition types and reasons (conditions.go)\<close>

datatype CondType = ConditionAccepted | ConditionProgrammed | ConditionReady | ConditionDeprecated

fun condTypeText :: "CondType \<Rightarrow> string" where
  "condTypeText ConditionAccepted = ''Accepted''"
| "condTypeText ConditionProgrammed = ''Programmed''"
| "condTypeText ConditionReady = ''Ready''"
| "condTypeText ConditionDeprecated = ''Deprecated''"

datatype Reason =
    ReasonDeprecatedField | ReasonNoDeprecated
  | ReasonValid
  | ReasonClassNotFound | ReasonNamespaceNotSelected | ReasonPortOutOfRange | ReasonPortReserved
  | ReasonPortConflict | ReasonInvalidPortRange | ReasonInterfaceNotInClass
  | ReasonRangeTranslation | ReasonTargetPortInUse
  | ReasonAllNodesReady | ReasonNoReadyEndpoint | ReasonReturnPathUnavailable
  | ReasonNodeNotReady | ReasonNoInterfaceOnNode
  | ReasonTunnelModeRequired | ReasonVxlanPortConflict | ReasonSubnetExhausted
  | ReasonAllPodsRouted | ReasonEgressConflict | ReasonPodCIDRsUnknown | ReasonEgressNodeNotFound

record Condition =
  cdType :: CondType
  cdStatus :: CondStatus
  cdReason :: Reason
  cdMessage :: string
  cdLastTransitionTime :: int
  cdObservedGeneration :: int

section \<open>PortMap (portmap\_types.go)\<close>

definition ProtocolTCP :: string where [const_defs]: "ProtocolTCP = ''TCP''"
definition ProtocolUDP :: string where [const_defs]: "ProtocolUDP = ''UDP''"

record ServiceRef =
  srName :: string
  srPort :: string

record PortMapSpec =
  spClassName :: string
  spProtocol :: string
  spPort :: int
  spEndPort :: "int option"
  spInterfaces :: "string list"
  spServiceRef :: ServiceRef

record StatusEndpoint =
  seNode :: string
  seAddress :: string
  seAddress6 :: string

record PublishedAddress =
  paNode :: string
  paInterface :: string
  paAddress :: string
  paAddress6 :: string

record PortMapStatus =
  psEndpoint :: "StatusEndpoint option"
  psPublished :: "PublishedAddress list"
  psObservedGeneration :: int
  psConditions :: "Condition list"

record PortMap =
  pmMeta :: ObjectMeta
  pmSpec :: PortMapSpec
  pmStatus :: PortMapStatus

section \<open>PortMapClass (portmapclass\_types.go)\<close>

definition ServingSingle :: string where [const_defs]: "ServingSingle = ''Single''"
definition ServingMulti :: string where [const_defs]: "ServingMulti = ''Multi''"

definition ReturnPathVxlan :: string where [const_defs]: "ReturnPathVxlan = ''Vxlan''"
definition ReturnPathNone :: string where [const_defs]: "ReturnPathNone = ''None''"

record NodeInterfaces =
  niInterfaces :: "string list"

record PortRange =
  prMin :: int
  prMax :: int
  prReserved :: "int list"

record VxlanConfig =
  vcVNI :: int
  vcPort :: int
  vcSubnet :: string
  vcSubnet6 :: string

record ReturnPath =
  rpMode :: string
  rpVxlan :: "VxlanConfig option"

record PortMapClassSpec =
  csNodes :: "(string, NodeInterfaces) gomap"
  csServingMode :: string
  csPorts :: "PortRange option"
  csNamespaceSelector :: "LabelSelector option"
  csReturnPath :: ReturnPath

record LinkAllocation =
  laKey :: string
  laPeers :: "string list"
  laSubnet :: string
  laSlot :: int
  laUnusedSince :: "int option"

record NodeStatus =
  nsName :: string
  nsReady :: bool
  nsMessage :: string
  nsUnderlayMTU :: int
  nsLinkMTU :: int
  nsAddresses :: "(string, string) gomap"
  nsAddresses6 :: "(string, string) gomap"
  nsIPv6Unavailable :: string

record PortMapClassStatus =
  ctLinks :: "LinkAllocation list"
  ctNodes :: "NodeStatus list"
  ctObservedGeneration :: int
  ctConditions :: "Condition list"

record PortMapClass =
  pcMeta :: ObjectMeta
  pcSpec :: PortMapClassSpec
  pcStatus :: PortMapClassStatus

section \<open>Link (link\_types.go)\<close>

definition ClassKindPortMapClass :: string where [const_defs]: "ClassKindPortMapClass = ''PortMapClass''"
definition ClassKindEgressClass :: string where [const_defs]: "ClassKindEgressClass = ''EgressClass''"

record LinkSpec =
  lkClassKind :: string
  lkClassName :: string
  lkPeers :: "string list"

record LinkStatus =
  lkUnusedSince :: "int option"

record LinkObj =
  lkMeta :: ObjectMeta
  lkSpec :: LinkSpec
  lkStatus :: LinkStatus

section \<open>EgressClass and Egress (egress\_types.go)\<close>

record EgressClassSpec =
  ecNode :: string
  ecNamespaceSelector :: "LabelSelector option"

record EgressClassStatus =
  ecNodes :: "NodeStatus list"
  ecObservedGeneration :: int
  ecConditions :: "Condition list"

record EgressClass =
  ecMeta :: ObjectMeta
  ecSpec :: EgressClassSpec
  ecStatus :: EgressClassStatus

record EgressSpec =
  egClassName :: string
  egPodSelector :: LabelSelector
  egFailClosed :: bool

text \<open>The empty string, the zero value of the type, is \<open>EgressPathUnset\<close>.\<close>

datatype EgressPath =
  EgressPathUnset | EgressPathLink | EgressPathLocal | EgressPathBlocked | EgressPathDirect

record EgressPod =
  epName :: string
  epNode :: string
  epAddress :: string
  epPath :: EgressPath
  epAddress6 :: string
  epPath6 :: EgressPath

record EgressStatus =
  esNode :: string
  esPods :: "EgressPod list"
  esObservedGeneration :: int
  esConditions :: "Condition list"

record Egress =
  egMeta :: ObjectMeta
  egSpec :: EgressSpec
  egStatus :: EgressStatus

section \<open>The Kubernetes kinds the program reads\<close>

definition NodeInternalIP :: string where [const_defs]: "NodeInternalIP = ''InternalIP''"
definition NodeReady :: string where [const_defs]: "NodeReady = ''Ready''"
definition PodSucceeded :: string where [const_defs]: "PodSucceeded = ''Succeeded''"
definition PodFailed :: string where [const_defs]: "PodFailed = ''Failed''"
definition AddressTypeIPv4 :: string where [const_defs]: "AddressTypeIPv4 = ''IPv4''"
definition AddressTypeIPv6 :: string where [const_defs]: "AddressTypeIPv6 = ''IPv6''"

record Node =
  ndMeta :: ObjectMeta
  ndPodCIDRs :: "string list"
  ndAddresses :: "(string \<times> string) list"
  ndConditions :: "(string \<times> CondStatus) list"

record Namespace =
  nmMeta :: ObjectMeta

record ObjectReference =
  orKind :: string
  orNamespace :: string
  orName :: string

record Endpoint =
  enAddresses :: "string list"
  enReady :: "bool option"
  enTargetRef :: "ObjectReference option"
  enNodeName :: "string option"

record EndpointSlice =
  slMeta :: ObjectMeta
  slAddressType :: string
  slEndpoints :: "Endpoint list"
  slPorts :: "(string option \<times> int option) list"

record Pod =
  pdMeta :: ObjectMeta
  pdNodeName :: string
  pdPhase :: string
  pdPodIPs :: "string list"

section \<open>Names\<close>

abbreviation pmName :: "PortMap \<Rightarrow> string" where "pmName pm \<equiv> omName (pmMeta pm)"
abbreviation pmNamespace :: "PortMap \<Rightarrow> string" where "pmNamespace pm \<equiv> omNamespace (pmMeta pm)"
abbreviation className :: "PortMapClass \<Rightarrow> string" where "className c \<equiv> omName (pcMeta c)"
abbreviation nodeName :: "Node \<Rightarrow> string" where "nodeName n \<equiv> omName (ndMeta n)"
abbreviation linkObjName :: "LinkObj \<Rightarrow> string" where "linkObjName l \<equiv> omName (lkMeta l)"
abbreviation egressClassName :: "EgressClass \<Rightarrow> string" where "egressClassName c \<equiv> omName (ecMeta c)"

section \<open>Lemmas\<close>

lemma condTypeText_inj [simp]: "condTypeText a = condTypeText b \<longleftrightarrow> a = b"
  by (cases a; cases b) simp_all

end
