(* ===== verification/DatapathState.thy ===== *)
theory DatapathState
  imports Api
begin

text \<open>
  The desired host state of one node (\<open>datapath/state.go\<close>) and the link MTU arithmetic
  (\<open>datapath/netlink.go\<close>). Ports, marks, tables and VNIs keep their width. The reconcile builds a
  state by appending to its slices; \<open>st_app\<close> is that append, field by field.
\<close>

record PortSel =
  selProto :: string
  selFirst :: "16 word"
  selLast :: "16 word"

record DNATRule =
  dnIface :: string
  dnPort :: PortSel
  dnToAddr :: addr
  dnToPort :: "16 word"
  dnDstAddr :: "addr option"

record ExemptRule =
  exOifName :: string
  exNegate :: bool
  exDstAddr :: "addr option"
  exSrcAddr :: "addr option"
  exPort :: PortSel
  exPortIsSrc :: bool

record MarkRule =
  mkSrcAddr :: addr
  mkPort :: PortSel
  mkMark :: "32 word"

record CtSaveRule =
  csvIface :: string
  csvMark :: "32 word"

record CtLoadRule =
  cldSrcAddr :: addr
  cldPort :: PortSel

record EgressRule =
  erSrcAddr :: addr
  erMark :: "32 word"

record EgressGatewayRule =
  egwIface :: string
  egwMark :: "32 word"

record Link =
  lnName :: string
  lnVNI :: "32 word"
  lnPort :: "16 word"
  lnLocalAddr :: addr
  lnRemoteAddr :: addr
  lnLinkAddr :: prefix
  lnLinkAddr6 :: prefix
  lnMTU :: "32 word"

datatype Family = FamilyIPv4 | FamilyIPv6

record IPRule =
  irPref :: "32 word"
  irMark :: "32 word"
  irTo :: "prefix option"
  irTable :: "32 word"
  irFamily :: Family
  irSuppressDefault :: bool

record Route =
  rtTable :: "32 word"
  rtVia :: addr
  rtDev :: string
  rtBlackhole :: bool
  rtBlackholeFamily :: Family

record State =
  stDNAT :: "DNATRule list"
  stExempt :: "ExemptRule list"
  stMark :: "MarkRule list"
  stCtSave :: "CtSaveRule list"
  stCtLoad :: "CtLoadRule list"
  stLinks :: "Link list"
  stRules :: "IPRule list"
  stRoutes :: "Route list"
  stEgress :: "EgressRule list"
  stEgressGateway :: "EgressGatewayRule list"
  stClusterCIDRs :: "prefix list"
  stLocalAddrs :: "addr list"

definition EgressBlockedTable :: "32 word" where "EgressBlockedTable = 11024"
definition EgressBlockedMark :: "32 word" where "EgressBlockedMark = 0x6b70f000"

definition emptyState :: State where
  "emptyState = \<lparr>stDNAT = [], stExempt = [], stMark = [], stCtSave = [], stCtLoad = [], stLinks = [],
     stRules = [], stRoutes = [], stEgress = [], stEgressGateway = [], stClusterCIDRs = [],
     stLocalAddrs = []\<rparr>"

definition st_app :: "State \<Rightarrow> State \<Rightarrow> State" where
  "st_app a b = \<lparr>stDNAT = stDNAT a @ stDNAT b, stExempt = stExempt a @ stExempt b,
     stMark = stMark a @ stMark b, stCtSave = stCtSave a @ stCtSave b,
     stCtLoad = stCtLoad a @ stCtLoad b, stLinks = stLinks a @ stLinks b,
     stRules = stRules a @ stRules b, stRoutes = stRoutes a @ stRoutes b,
     stEgress = stEgress a @ stEgress b, stEgressGateway = stEgressGateway a @ stEgressGateway b,
     stClusterCIDRs = stClusterCIDRs a @ stClusterCIDRs b,
     stLocalAddrs = stLocalAddrs a @ stLocalAddrs b\<rparr>"

definition st_concat :: "State list \<Rightarrow> State" where
  "st_concat xs = foldl st_app emptyState xs"

section \<open>Families and link MTUs\<close>

definition familyOf :: "addr \<Rightarrow> Family" where
  "familyOf a = (if is4 (unmapAddr a) then FamilyIPv4 else FamilyIPv6)"

definition routeFamily :: "Route \<Rightarrow> Family" where
  "routeFamily r = (if rtBlackhole r then rtBlackholeFamily r else familyOf (rtVia r))"

fun familyNum :: "Family \<Rightarrow> nat" where
  "familyNum FamilyIPv4 = 0"
| "familyNum FamilyIPv6 = 1"

definition VxlanOverhead :: "bool \<Rightarrow> int" where
  "VxlanOverhead outerIsV4 = (if outerIsV4 then 50 else 70)"

definition LinkMTU :: "int \<Rightarrow> int" where
  "LinkMTU underlay = underlay - VxlanOverhead True"

definition LinkMTUBetween :: "int \<Rightarrow> int \<Rightarrow> bool \<Rightarrow> int" where
  "LinkMTUBetween thisUnderlay peerUnderlay outerIsV4 =
     (let u = (if 0 < peerUnderlay \<and> peerUnderlay < thisUnderlay then peerUnderlay else thisUnderlay)
      in if u \<le> 0 then 0 else u - VxlanOverhead outerIsV4)"

section \<open>Lemmas\<close>

named_theorems st_simps \<open>projections of appended states\<close>

lemma st_app_sel [simp, st_simps]:
  "stDNAT (st_app a b) = stDNAT a @ stDNAT b"
  "stExempt (st_app a b) = stExempt a @ stExempt b"
  "stMark (st_app a b) = stMark a @ stMark b"
  "stCtSave (st_app a b) = stCtSave a @ stCtSave b"
  "stCtLoad (st_app a b) = stCtLoad a @ stCtLoad b"
  "stLinks (st_app a b) = stLinks a @ stLinks b"
  "stRules (st_app a b) = stRules a @ stRules b"
  "stRoutes (st_app a b) = stRoutes a @ stRoutes b"
  "stEgress (st_app a b) = stEgress a @ stEgress b"
  "stEgressGateway (st_app a b) = stEgressGateway a @ stEgressGateway b"
  "stClusterCIDRs (st_app a b) = stClusterCIDRs a @ stClusterCIDRs b"
  "stLocalAddrs (st_app a b) = stLocalAddrs a @ stLocalAddrs b"
  by (simp_all add: st_app_def)

lemma emptyState_sel [simp, st_simps]:
  "stDNAT emptyState = []" "stExempt emptyState = []" "stMark emptyState = []"
  "stCtSave emptyState = []" "stCtLoad emptyState = []" "stLinks emptyState = []"
  "stRules emptyState = []" "stRoutes emptyState = []" "stEgress emptyState = []"
  "stEgressGateway emptyState = []" "stClusterCIDRs emptyState = []" "stLocalAddrs emptyState = []"
  by (simp_all add: emptyState_def)

lemma st_app_empty [simp]: "st_app emptyState a = a" "st_app a emptyState = a"
  by (simp_all add: st_app_def emptyState_def)

lemma st_app_assoc: "st_app (st_app a b) c = st_app a (st_app b c)"
  by (simp add: st_app_def)

lemma foldl_st_app: "foldl st_app a xs = st_app a (st_concat xs)"
proof (induction xs arbitrary: a)
  case (Cons x xs)
  have "foldl st_app (st_app emptyState x) xs = st_app x (st_concat xs)"
    using Cons [of x] by simp
  with Cons [of "st_app a x"] show ?case
    by (simp add: st_concat_def st_app_assoc)
qed (simp add: st_concat_def)

lemma st_concat_simps [simp]:
  "st_concat [] = emptyState"
  "st_concat (x # xs) = st_app x (st_concat xs)"
  using foldl_st_app [of x xs] by (simp_all add: st_concat_def)

text \<open>Each slice of a concatenation is the concatenation of the slices.\<close>

lemma st_concat_sel [simp, st_simps]:
  "stDNAT (st_concat xs) = concat (map stDNAT xs)"
  "stExempt (st_concat xs) = concat (map stExempt xs)"
  "stMark (st_concat xs) = concat (map stMark xs)"
  "stCtSave (st_concat xs) = concat (map stCtSave xs)"
  "stCtLoad (st_concat xs) = concat (map stCtLoad xs)"
  "stLinks (st_concat xs) = concat (map stLinks xs)"
  "stRules (st_concat xs) = concat (map stRules xs)"
  "stRoutes (st_concat xs) = concat (map stRoutes xs)"
  "stEgress (st_concat xs) = concat (map stEgress xs)"
  "stEgressGateway (st_concat xs) = concat (map stEgressGateway xs)"
  "stClusterCIDRs (st_concat xs) = concat (map stClusterCIDRs xs)"
  "stLocalAddrs (st_concat xs) = concat (map stLocalAddrs xs)"
  by (induction xs) simp_all

lemma LinkMTUBetween_sym:
  "0 < a \<Longrightarrow> 0 < b \<Longrightarrow> LinkMTUBetween a b v = LinkMTUBetween b a v"
  by (auto simp: LinkMTUBetween_def Let_def)

lemma LinkMTUBetween_min:
  "0 < a \<Longrightarrow> 0 < b \<Longrightarrow> LinkMTUBetween a b v = min a b - VxlanOverhead v"
  by (auto simp: LinkMTUBetween_def Let_def)

end
