(* ===== verification/ReconcileTypes.thy ===== *)
theory ReconcileTypes
  imports DatapathState
begin

text \<open>
  The types of the reconcile (\<open>reconcile/reconcile.go\<close>): its inputs, the index it builds over them
  once per pass, the decision it reaches for one PortMap, and the small functions of a PortMap or
  a class that every part of it calls.
\<close>

section \<open>Inputs and index\<close>

record Inputs =
  inNodeName :: string
  inNodes :: "Node list"
  inNamespaces :: "Namespace list"
  inClasses :: "PortMapClass list"
  inPortMaps :: "PortMap list"
  inSlices :: "EndpointSlice list"
  inNow :: int
  inLinks :: "LinkObj list"
  inEgressClasses :: "EgressClass list"
  inEgresses :: "Egress list"
  inPods :: "Pod list"
  inLinkPort :: "16 word"
  inInterfaceAddrs :: "(string, string) gomap"
  inInterfaceAddrs6 :: "(string, string) gomap"
  inLocalAddrs :: "addr list"
  inIPv6Forwarding :: bool

record index =
  nodesByName :: "string \<rightharpoonup> Node"
  nsByName :: "string \<rightharpoonup> Namespace"
  classByName :: "string \<rightharpoonup> PortMapClass"
  nodeAddr :: "string \<rightharpoonup> string"

definition internalIP :: "Node \<Rightarrow> string" where
  "internalIP n =
     (case find (\<lambda>(t, a). t = NodeInternalIP) (ndAddresses n) of
        Some (_, a) \<Rightarrow> a | None \<Rightarrow> [])"

definition newIndex :: "Inputs \<Rightarrow> index" where
  "newIndex inp =
     \<lparr>nodesByName = index_by nodeName (inNodes inp),
      nsByName = index_by (omName \<circ> nmMeta) (inNamespaces inp),
      classByName = index_by className (inClasses inp),
      nodeAddr = foldl (\<lambda>m n. m(nodeName n \<mapsto> internalIP n)) Map.empty (inNodes inp)\<rparr>"

text \<open>A name missing from the Go map reads as the empty string.\<close>

definition nodeAddrOf :: "index \<Rightarrow> string \<Rightarrow> string" where
  "nodeAddrOf idx name = (case nodeAddr idx name of Some a \<Rightarrow> a | None \<Rightarrow> [])"

definition acceptingNodesFor :: "index \<Rightarrow> PortMapClass \<Rightarrow> string list" where
  "acceptingNodesFor idx c =
     sort (filter (\<lambda>name. nodesByName idx name \<noteq> None) (map fst (csNodes (pcSpec c))))"

section \<open>The decision for one PortMap\<close>

record chosenEndpoint =
  ceNode :: string
  ceAddr :: string
  ceTargetR :: string
  ceRef :: "ObjectReference option"
  cePort :: int
  ceAddr6 :: string

text \<open>
  The Go struct's two conditions start as zero values and are set by \<open>setAccepted\<close> and
  \<open>setProgrammed\<close>; \<^term>\<open>None\<close> is the zero value, so \<open>hasProgrammed\<close> is that the second is not
  \<^term>\<open>None\<close>.
\<close>

record mapping =
  mpPm :: PortMap
  mpClass :: "PortMapClass option"
  mpAccepted :: bool
  mpAcceptedCond :: "Condition option"
  mpAcceptingNodes :: "string list"
  mpEndpoint :: "chosenEndpoint option"
  mpServing :: string
  mpEffAccepting :: string
  mpProgrammers :: "string list"
  mpRemote :: bool
  mpGated :: bool
  mpProgrammedCond :: "Condition option"

definition newMapping :: "index \<Rightarrow> PortMap \<Rightarrow> mapping" where
  "newMapping idx pm =
     (let c = classByName idx (spClassName (pmSpec pm))
      in \<lparr>mpPm = pm, mpClass = c, mpAccepted = False, mpAcceptedCond = None,
          mpAcceptingNodes = (case c of Some c' \<Rightarrow> acceptingNodesFor idx c' | None \<Rightarrow> []),
          mpEndpoint = None, mpServing = [], mpEffAccepting = [], mpProgrammers = [],
          mpRemote = False, mpGated = False, mpProgrammedCond = None\<rparr>)"

definition mkCondition :: "CondType \<Rightarrow> CondStatus \<Rightarrow> Reason \<Rightarrow> string \<Rightarrow> int \<Rightarrow> int \<Rightarrow> Condition" where
  "mkCondition t st r msg now gen =
     \<lparr>cdType = t, cdStatus = st, cdReason = r, cdMessage = msg, cdLastTransitionTime = now,
      cdObservedGeneration = gen\<rparr>"

definition setProgrammed :: "CondStatus \<Rightarrow> Reason \<Rightarrow> string \<Rightarrow> int \<Rightarrow> mapping \<Rightarrow> mapping" where
  "setProgrammed st r msg now m =
     m\<lparr>mpProgrammedCond :=
        Some (mkCondition ConditionProgrammed st r msg now (omGeneration (pmMeta (mpPm m))))\<rparr>"

definition setAccepted :: "bool \<Rightarrow> Reason \<Rightarrow> string \<Rightarrow> int \<Rightarrow> mapping \<Rightarrow> mapping" where
  "setAccepted ok r msg now m =
     m\<lparr>mpAccepted := ok,
       mpAcceptedCond :=
         Some (mkCondition ConditionAccepted (if ok then CondTrue else CondFalse) r msg now
                 (omGeneration (pmMeta (mpPm m))))\<rparr>"

section \<open>Functions of a PortMap\<close>

text \<open>The namespace and name joined by a slash, the bytewise tie-break key.\<close>

definition pmKey :: "PortMap \<Rightarrow> string" where
  "pmKey pm = pmNamespace pm @ ''/'' @ pmName pm"

definition earlier :: "PortMap \<Rightarrow> PortMap \<Rightarrow> bool" where
  "earlier a b =
     (let at = omCreationTimestamp (pmMeta a); bt = omCreationTimestamp (pmMeta b)
      in if at \<noteq> bt then at < bt else pmKey a < pmKey b)"

definition interval :: "PortMap \<Rightarrow> int \<times> int" where
  "interval pm =
     (spPort (pmSpec pm),
      case spEndPort (pmSpec pm) of Some e \<Rightarrow> e | None \<Rightarrow> spPort (pmSpec pm))"

definition portPhrase :: "PortMap \<Rightarrow> string" where
  "portPhrase pm =
     (let (first, last) = interval pm
      in if first = last then ''port '' @ itoa first
         else ''ports '' @ itoa first @ ''-'' @ itoa last)"

definition portSel :: "PortMap \<Rightarrow> PortSel" where
  "portSel pm =
     (let (first, last) = interval pm
      in \<lparr>selProto = toLower (spProtocol (pmSpec pm)), selFirst = word_of_int first,
          selLast = word_of_int last\<rparr>)"

text \<open>The port the pod listens on, and the port its DNAT translates to (0 keeps the matched one).\<close>

definition podPort :: "mapping \<Rightarrow> PortSel \<times> 16 word" where
  "podPort m =
     (let sel = portSel (mpPm m)
      in case mpEndpoint m of
           None \<Rightarrow> (sel, 0)
         | Some e \<Rightarrow>
             if selFirst sel \<noteq> selLast sel then (sel, 0)
             else if cePort e \<le> 0 \<or> cePort e > 65535 \<or> cePort e = spPort (pmSpec (mpPm m)) then (sel, 0)
             else (\<lparr>selProto = selProto sel, selFirst = word_of_int (cePort e),
                     selLast = word_of_int (cePort e)\<rparr>, word_of_int (cePort e)))"

section \<open>Functions of a class\<close>

definition servingModeOf :: "PortMapClass \<Rightarrow> string" where
  "servingModeOf c = (if csServingMode (pcSpec c) = ServingMulti then ServingMulti else ServingSingle)"

definition returnPathMode :: "PortMapClass \<Rightarrow> string" where
  "returnPathMode c = rpMode (csReturnPath (pcSpec c))"

definition classInterfacesOn :: "PortMapClass \<Rightarrow> string \<Rightarrow> string list" where
  "classInterfacesOn c node =
     (case map_of (csNodes (pcSpec c)) node of
        None \<Rightarrow> [] | Some ni \<Rightarrow> sort (niInterfaces ni))"

definition interfacesFor :: "PortMapClass \<Rightarrow> string \<Rightarrow> PortMap \<Rightarrow> string list" where
  "interfacesFor c node pm =
     (let have = classInterfacesOn c node; want = spInterfaces (pmSpec pm)
      in if want = [] then have else filter (\<lambda>i. i \<in> set want) have)"

definition classNodeRow :: "PortMapClass \<Rightarrow> string \<Rightarrow> NodeStatus option" where
  "classNodeRow c name = find (\<lambda>r. nsName r = name) (ctNodes (pcStatus c))"

text \<open>The mapping's programmers other than the given node, sorted.\<close>

definition remoteProgrammers :: "mapping \<Rightarrow> string \<Rightarrow> string list" where
  "remoteProgrammers m this = sort (filter (\<lambda>p. p \<noteq> this) (mpProgrammers m))"

section \<open>Lemmas\<close>

text \<open>The order of creation: timestamp, then key.\<close>

definition creationKey :: "PortMap \<Rightarrow> int \<times> string" where
  "creationKey pm = (omCreationTimestamp (pmMeta pm), pmKey pm)"

lemma earlier_key: "earlier a b \<longleftrightarrow> creationKey a < creationKey b"
  by (auto simp: earlier_def creationKey_def Let_def less_prod_def)

interpretation creation: keyed_less earlier creationKey
  by unfold_locales (rule earlier_key)

lemma earlier_irrefl [simp]: "\<not> earlier a a"
  by (simp add: earlier_key)

lemma earlier_asym: "earlier a b \<Longrightarrow> \<not> earlier b a"
  by (simp add: earlier_key)

lemma earlier_trans: "earlier a b \<Longrightarrow> earlier b c \<Longrightarrow> earlier a c"
  by (simp add: earlier_key)

lemma earlier_total: "pmKey a \<noteq> pmKey b \<Longrightarrow> earlier a b \<or> earlier b a"
  by (auto simp: earlier_key creationKey_def less_prod_def)

lemma creationKey_inj_on: "inj_on pmKey A \<Longrightarrow> inj_on creationKey A"
  by (auto simp: inj_on_def creationKey_def)

lemma set_acceptingNodesFor:
  "set (acceptingNodesFor idx c) =
     {n \<in> fst ` set (csNodes (pcSpec c)). nodesByName idx n \<noteq> None}"
  by (auto simp: acceptingNodesFor_def)

lemma sorted_acceptingNodesFor [simp]: "sorted (acceptingNodesFor idx c)"
  by (simp add: acceptingNodesFor_def)

lemma distinct_acceptingNodesFor:
  "distinct (map fst (csNodes (pcSpec c))) \<Longrightarrow> distinct (acceptingNodesFor idx c)"
  by (simp add: acceptingNodesFor_def)

lemma sorted_remoteProgrammers [simp]: "sorted (remoteProgrammers m this)"
  by (simp add: remoteProgrammers_def)

lemma set_remoteProgrammers [simp]:
  "set (remoteProgrammers m this) = set (mpProgrammers m) - {this}"
  by (auto simp: remoteProgrammers_def)

lemma setAccepted_sel [simp]:
  "mpPm (setAccepted ok r msg now m) = mpPm m"
  "mpClass (setAccepted ok r msg now m) = mpClass m"
  "mpAccepted (setAccepted ok r msg now m) = ok"
  "mpAcceptingNodes (setAccepted ok r msg now m) = mpAcceptingNodes m"
  "mpEndpoint (setAccepted ok r msg now m) = mpEndpoint m"
  "mpServing (setAccepted ok r msg now m) = mpServing m"
  "mpEffAccepting (setAccepted ok r msg now m) = mpEffAccepting m"
  "mpProgrammers (setAccepted ok r msg now m) = mpProgrammers m"
  "mpRemote (setAccepted ok r msg now m) = mpRemote m"
  "mpGated (setAccepted ok r msg now m) = mpGated m"
  "mpProgrammedCond (setAccepted ok r msg now m) = mpProgrammedCond m"
  by (simp_all add: setAccepted_def)

lemma setProgrammed_sel [simp]:
  "mpPm (setProgrammed s r msg now m) = mpPm m"
  "mpClass (setProgrammed s r msg now m) = mpClass m"
  "mpAccepted (setProgrammed s r msg now m) = mpAccepted m"
  "mpAcceptedCond (setProgrammed s r msg now m) = mpAcceptedCond m"
  "mpAcceptingNodes (setProgrammed s r msg now m) = mpAcceptingNodes m"
  "mpEndpoint (setProgrammed s r msg now m) = mpEndpoint m"
  "mpServing (setProgrammed s r msg now m) = mpServing m"
  "mpEffAccepting (setProgrammed s r msg now m) = mpEffAccepting m"
  "mpProgrammers (setProgrammed s r msg now m) = mpProgrammers m"
  "mpRemote (setProgrammed s r msg now m) = mpRemote m"
  "mpGated (setProgrammed s r msg now m) = mpGated m"
  by (simp_all add: setProgrammed_def)

lemma newMapping_sel [simp]:
  "mpPm (newMapping idx pm) = pm"
  "mpClass (newMapping idx pm) = classByName idx (spClassName (pmSpec pm))"
  "mpAccepted (newMapping idx pm) = False"
  "mpEndpoint (newMapping idx pm) = None"
  "mpServing (newMapping idx pm) = []"
  "mpEffAccepting (newMapping idx pm) = []"
  "mpProgrammers (newMapping idx pm) = []"
  "mpRemote (newMapping idx pm) = False"
  "mpGated (newMapping idx pm) = False"
  "mpProgrammedCond (newMapping idx pm) = None"
  by (simp_all add: newMapping_def Let_def)

end
