(* ===== verification/Endpoints.thy ===== *)
theory Endpoints
  imports ReconcileTypes
begin

text \<open>
  Choosing the pod a mapping delivers to and the node that serves it
  (\<open>reconcile/endpoints.go\<close>). The lemmas show that the choice is the least candidate in an order
  every agent computes alike, and what the role decision makes of it.
\<close>

section \<open>Candidates\<close>

definition serviceNameLabel :: string where [const_defs]:
  "serviceNameLabel = ''kubernetes.io/service-name''"

text \<open>\<open>sl.Labels[serviceNameLabel]\<close>, empty when the label is missing.\<close>

definition serviceLabel :: "EndpointSlice \<Rightarrow> string" where
  "serviceLabel sl =
     (case map_of (omLabels (slMeta sl)) serviceNameLabel of Some v \<Rightarrow> v | None \<Rightarrow> [])"

text \<open>The number listed under the named port: \<^term>\<open>None\<close> when the port is missing, 0 with no number.\<close>

definition namedPort :: "EndpointSlice \<Rightarrow> string \<Rightarrow> int option" where
  "namedPort sl name =
     (case find (\<lambda>(n, p). n = Some name) (slPorts sl) of
        None \<Rightarrow> None
      | Some (_, p) \<Rightarrow> Some (case p of None \<Rightarrow> 0 | Some n \<Rightarrow> n))"

definition endpointReady :: "Endpoint \<Rightarrow> bool" where
  "endpointReady ep \<longleftrightarrow> enReady ep = None \<or> enReady ep = Some True"

definition targetRefName :: "Endpoint \<Rightarrow> string" where
  "targetRefName ep = (case enTargetRef ep of None \<Rightarrow> [] | Some r \<Rightarrow> orName r)"

definition strFromPtr :: "string option \<Rightarrow> string" where
  "strFromPtr p = (case p of None \<Rightarrow> [] | Some s \<Rightarrow> s)"

definition sliceServes :: "PortMap \<Rightarrow> string \<Rightarrow> EndpointSlice \<Rightarrow> bool" where
  "sliceServes pm addressType sl \<longleftrightarrow>
     omNamespace (slMeta sl) = pmNamespace pm \<and> slAddressType sl = addressType \<and>
     serviceLabel sl = srName (spServiceRef (pmSpec pm))"

definition sliceCandidates :: "PortMap \<Rightarrow> EndpointSlice \<Rightarrow> chosenEndpoint list" where
  "sliceCandidates pm sl =
     (if \<not> sliceServes pm AddressTypeIPv4 sl then []
      else case namedPort sl (srPort (spServiceRef (pmSpec pm))) of
             None \<Rightarrow> []
           | Some port \<Rightarrow>
               map (\<lambda>ep. \<lparr>ceNode = strFromPtr (enNodeName ep), ceAddr = hd (enAddresses ep),
                          ceTargetR = targetRefName ep, ceRef = enTargetRef ep, cePort = port,
                          ceAddr6 = []\<rparr>)
                 (filter (\<lambda>ep. endpointReady ep \<and> enAddresses ep \<noteq> []) (slEndpoints sl)))"

definition gatherCandidates :: "Inputs \<Rightarrow> PortMap \<Rightarrow> chosenEndpoint list" where
  "gatherCandidates inp pm = concat (map (sliceCandidates pm) (inSlices inp))"

section \<open>The paired IPv6 address\<close>

definition sameTarget :: "ObjectReference \<Rightarrow> Endpoint \<Rightarrow> bool" where
  "sameTarget want ep =
     (case enTargetRef ep of
        None \<Rightarrow> False
      | Some r \<Rightarrow> orKind r = orKind want \<and> orNamespace r = orNamespace want \<and> orName r = orName want)"

definition paired6In :: "PortMap \<Rightarrow> ObjectReference \<Rightarrow> EndpointSlice \<Rightarrow> string list" where
  "paired6In pm want sl =
     (if \<not> sliceServes pm AddressTypeIPv6 sl
         \<or> namedPort sl (srPort (spServiceRef (pmSpec pm))) = None then []
      else map (\<lambda>ep. hd (enAddresses ep))
             (filter (\<lambda>ep. sameTarget want ep \<and> endpointReady ep \<and> enAddresses ep \<noteq> []) (slEndpoints sl)))"

definition pairedIPv6 :: "Inputs \<Rightarrow> PortMap \<Rightarrow> chosenEndpoint \<Rightarrow> string" where
  "pairedIPv6 inp pm chosen =
     (case ceRef chosen of
        None \<Rightarrow> []
      | Some want \<Rightarrow>
          (case sort (concat (map (paired6In pm want) (inSlices inp))) of
             [] \<Rightarrow> [] | a # _ \<Rightarrow> a))"

section \<open>The choice\<close>

text \<open>The position of a node among the accepting nodes; every other node ranks after them.\<close>

fun acceptingRank :: "string list \<Rightarrow> string \<Rightarrow> nat" where
  "acceptingRank [] node = 0"
| "acceptingRank (n # ns) node = (if n = node then 0 else Suc (acceptingRank ns node))"

definition candidateLess :: "string list \<Rightarrow> chosenEndpoint \<Rightarrow> chosenEndpoint \<Rightarrow> bool" where
  "candidateLess accepting a b =
     (let ra = acceptingRank accepting (ceNode a); rb = acceptingRank accepting (ceNode b)
      in if ra \<noteq> rb then ra < rb
         else if ceTargetR a \<noteq> ceTargetR b then ceTargetR a < ceTargetR b
         else if ceNode a \<noteq> ceNode b then ceNode a < ceNode b
         else ceAddr a < ceAddr b)"

definition chooseEndpoint :: "Inputs \<Rightarrow> mapping \<Rightarrow> chosenEndpoint option" where
  "chooseEndpoint inp m =
     (case sortBy (candidateLess (mpAcceptingNodes m)) (gatherCandidates inp (mpPm m)) of
        [] \<Rightarrow> None
      | chosen # _ \<Rightarrow> Some (chosen\<lparr>ceAddr6 := pairedIPv6 inp (mpPm m) chosen\<rparr>))"

section \<open>The role\<close>

definition servingOf :: "string list \<Rightarrow> chosenEndpoint option \<Rightarrow> string" where
  "servingOf accepting ep =
     (case accepting of
        [] \<Rightarrow> []
      | first # _ \<Rightarrow>
          (case ep of
             Some e \<Rightarrow> if ceNode e \<in> set accepting then ceNode e else first
           | None \<Rightarrow> first))"

text \<open>
  \<open>decideRole\<close>. A mapping reaches it only when accepted, so its class is there; the branch for a
  missing class stands for the nil dereference the code cannot reach.
\<close>

definition decideRole :: "Inputs \<Rightarrow> mapping \<Rightarrow> mapping" where
  "decideRole inp m0 =
     (let m = m0\<lparr>mpServing := servingOf (mpAcceptingNodes m0) (mpEndpoint m0)\<rparr>
      in case mpEndpoint m of
           None \<Rightarrow> setProgrammed CondFalse ReasonNoReadyEndpoint
                     ''no ready endpoint for the named service port'' (inNow inp) m
         | Some e \<Rightarrow>
             if mpAcceptingNodes m = [] then
               setProgrammed CondFalse ReasonNodeNotReady ''class selects no accepting node''
                 (inNow inp) m
             else (case mpClass m of
               None \<Rightarrow> m
             | Some c \<Rightarrow>
                 let progs = (if servingModeOf c = ServingMulti then mpAcceptingNodes m
                              else [mpServing m]);
                     m' = m\<lparr>mpProgrammers := progs,
                            mpRemote := list_ex (\<lambda>p. p \<noteq> ceNode e) progs\<rparr>
                 in if mpRemote m' \<and> returnPathMode c = ReturnPathNone then
                      (setProgrammed CondFalse ReasonReturnPathUnavailable
                         ''return path is None and the chosen pod is not on every programming node''
                         (inNow inp) m')\<lparr>mpProgrammers := []\<rparr>
                    else m'\<lparr>mpEffAccepting := mpServing m', mpGated := True\<rparr>))"

section \<open>Lemmas: the choice\<close>

definition candidateKey :: "string list \<Rightarrow> chosenEndpoint \<Rightarrow> nat \<times> string \<times> string \<times> string" where
  "candidateKey accepting c =
     (acceptingRank accepting (ceNode c), ceTargetR c, ceNode c, ceAddr c)"

lemma candidateLess_key:
  "candidateLess accepting a b \<longleftrightarrow> candidateKey accepting a < candidateKey accepting b"
  by (auto simp: candidateLess_def candidateKey_def Let_def less_prod_def)

interpretation candidate: keyed_less "candidateLess accepting" "candidateKey accepting"
  for accepting
  by unfold_locales (rule candidateLess_key)

lemma acceptingRank_less: "node \<in> set ns \<Longrightarrow> acceptingRank ns node < length ns"
  by (induction ns) auto

lemma acceptingRank_miss: "node \<notin> set ns \<Longrightarrow> acceptingRank ns node = length ns"
  by (induction ns) auto

lemma acceptingRank_nth: "node \<in> set ns \<Longrightarrow> ns ! acceptingRank ns node = node"
  by (induction ns) auto

lemma acceptingRank_sorted:
  assumes "sorted ns" and "a \<in> set ns" and "b \<in> set ns" and "acceptingRank ns a \<le> acceptingRank ns b"
  shows "a \<le> b"
  using sorted_nth_mono [OF assms(1) assms(4) acceptingRank_less [OF assms(3)]]
  by (simp add: acceptingRank_nth assms(2,3))

lemma chooseEndpoint_None: "chooseEndpoint inp m = None \<longleftrightarrow> gatherCandidates inp (mpPm m) = []"
  by (simp add: chooseEndpoint_def split: list.splits) (metis list.distinct(1) sortBy_eq_Nil)

lemma chooseEndpoint_Some:
  assumes "chooseEndpoint inp m = Some e"
  obtains c where "c \<in> set (gatherCandidates inp (mpPm m))"
    and "e = c\<lparr>ceAddr6 := pairedIPv6 inp (mpPm m) c\<rparr>"
    and "\<And>d. d \<in> set (gatherCandidates inp (mpPm m)) \<Longrightarrow>
           candidateKey (mpAcceptingNodes m) c \<le> candidateKey (mpAcceptingNodes m) d"
proof -
  let ?acc = "mpAcceptingNodes m" and ?cs = "gatherCandidates inp (mpPm m)"
  obtain c rest where s: "sortBy (candidateLess ?acc) ?cs = c # rest"
    and e: "e = c\<lparr>ceAddr6 := pairedIPv6 inp (mpPm m) c\<rparr>"
    using assms by (auto simp: chooseEndpoint_def split: list.splits)
  have "c \<in> set ?cs" by (metis s list.set_intros(1) set_sortBy)
  moreover have "candidateKey ?acc c \<le> candidateKey ?acc d" if "d \<in> set ?cs" for d
    using candidate.sort_hd_least [OF that, of ?acc] by (simp add: s candidateLess_key not_less)
  ultimately show ?thesis using that e by blast
qed

lemma candidateKey_addr6 [simp]: "candidateKey acc (c\<lparr>ceAddr6 := a\<rparr>) = candidateKey acc c"
  by (simp add: candidateKey_def)

text \<open>The same candidates in any order give the same choice, when the order separates them.\<close>

lemma chooseEndpoint_perm:
  assumes "mset (inSlices inp) = mset (inSlices inp')" and "mpPm m = mpPm m'"
    and "mpAcceptingNodes m = mpAcceptingNodes m'"
    and inj: "inj_on (candidateKey (mpAcceptingNodes m)) (set (gatherCandidates inp (mpPm m)))"
  shows "chooseEndpoint inp m = chooseEndpoint inp' m'"
proof -
  have cs: "mset (gatherCandidates inp (mpPm m)) = mset (gatherCandidates inp' (mpPm m'))"
    using assms(1,2) by (simp add: gatherCandidates_def mset_concat flip: sum_mset_sum_list)
  have p: "pairedIPv6 inp pm c = pairedIPv6 inp' pm c" for pm c
  proof (cases "ceRef c")
    case (Some want)
    have "mset (concat (map (paired6In pm want) (inSlices inp))) =
          mset (concat (map (paired6In pm want) (inSlices inp')))"
      using assms(1) by (simp add: mset_concat flip: sum_mset_sum_list)
    then have "sort (concat (map (paired6In pm want) (inSlices inp))) =
          sort (concat (map (paired6In pm want) (inSlices inp')))"
      by (rule text_sort_perm)
    then show ?thesis by (simp only: pairedIPv6_def Some option.case)
  qed (simp add: pairedIPv6_def)
  show ?thesis
    using candidate.sort_perm [OF cs inj] assms(2,3)
    by (simp add: chooseEndpoint_def p split: list.split)
qed

section \<open>Lemmas: the role\<close>

lemma servingOf_in: "acc \<noteq> [] \<Longrightarrow> servingOf acc ep \<in> set acc"
  by (auto simp: servingOf_def split: list.splits option.splits)

lemma servingOf_endpoint: "ceNode e \<in> set acc \<Longrightarrow> servingOf acc (Some e) = ceNode e"
  by (auto simp: servingOf_def split: list.splits)

lemma servingOf_first:
  "acc \<noteq> [] \<Longrightarrow> ceNode e \<notin> set acc \<Longrightarrow> servingOf acc (Some e) = hd acc"
  by (auto simp: servingOf_def split: list.splits)

lemma decideRole_sel [simp]:
  "mpPm (decideRole inp m) = mpPm m"
  "mpClass (decideRole inp m) = mpClass m"
  "mpAccepted (decideRole inp m) = mpAccepted m"
  "mpAcceptedCond (decideRole inp m) = mpAcceptedCond m"
  "mpAcceptingNodes (decideRole inp m) = mpAcceptingNodes m"
  "mpEndpoint (decideRole inp m) = mpEndpoint m"
  "mpServing (decideRole inp m) = servingOf (mpAcceptingNodes m) (mpEndpoint m)"
  by (simp_all add: decideRole_def Let_def split: option.split)

end
