(* ===== verification/Example.thy ===== *)
theory Example
  imports ReconcileTypes
begin

text \<open>
  A small cluster the witnesses evaluate the model on: three nodes, a Single and a Multi class on
  the first two of them, PortMaps that are accepted and refused, a Service whose pod runs on the
  third node, a pool with landed Links, and an egress class on the first node. The Kubernetes
  selector conversion is instantiated with its documented behaviour for matchLabels; an expression
  makes this instance fail, as an invalid one makes the library's fail.
\<close>

definition exSel :: selector_fn where
  "exSel ls =
     (if lsMatchExpressions ls \<noteq> [] then None
      else Some \<lparr>selEmpty = (lsMatchLabels ls = []),
                 selMatches = (\<lambda>labels. \<forall>kv \<in> set (lsMatchLabels ls). kv \<in> set labels)\<rparr>)"

definition exMeta :: "string \<Rightarrow> string \<Rightarrow> int \<Rightarrow> (string, string) gomap \<Rightarrow> ObjectMeta" where
  "exMeta ns name created labels =
     \<lparr>omName = name, omNamespace = ns, omGeneration = 1, omCreationTimestamp = created,
      omResourceVersion = ''1'', omLabels = labels\<rparr>"

definition exNode :: "string \<Rightarrow> string \<Rightarrow> string \<Rightarrow> Node" where
  "exNode name ip cidr =
     \<lparr>ndMeta = exMeta [] name 0 [], ndPodCIDRs = [cidr], ndAddresses = [(NodeInternalIP, ip)],
      ndConditions = [(NodeReady, CondTrue)]\<rparr>"

definition exRow :: "string \<Rightarrow> NodeStatus" where
  "exRow name =
     \<lparr>nsName = name, nsReady = True, nsMessage = [], nsUnderlayMTU = 1500, nsLinkMTU = 1450,
      nsAddresses = [], nsAddresses6 = [], nsIPv6Unavailable = []\<rparr>"

definition exClass :: "string \<Rightarrow> string \<Rightarrow> string \<Rightarrow> PortMapClass" where
  "exClass name mode path =
     \<lparr>pcMeta = exMeta [] name 0 [],
      pcSpec = \<lparr>csNodes = [(''b'', \<lparr>niInterfaces = [''e'']\<rparr>), (''a'', \<lparr>niInterfaces = [''e'']\<rparr>)],
                csServingMode = mode,
                csPorts = Some \<lparr>prMin = 2, prMax = 0, prReserved = [22]\<rparr>,
                csNamespaceSelector = None,
                csReturnPath = \<lparr>rpMode = path, rpVxlan = None\<rparr>\<rparr>,
      pcStatus = \<lparr>ctLinks = [], ctNodes = [exRow ''a'', exRow ''b'', exRow ''c''],
                  ctObservedGeneration = 1, ctConditions = []\<rparr>\<rparr>"

definition exStatus :: PortMapStatus where
  "exStatus = \<lparr>psEndpoint = None, psPublished = [], psObservedGeneration = 0, psConditions = []\<rparr>"

definition exPM :: "string \<Rightarrow> int \<Rightarrow> string \<Rightarrow> string \<Rightarrow> int \<Rightarrow> int option \<Rightarrow> string \<Rightarrow> PortMap" where
  "exPM name created cls proto port endPort svc =
     \<lparr>pmMeta = exMeta ''x'' name created [],
      pmSpec = \<lparr>spClassName = cls, spProtocol = proto, spPort = port, spEndPort = endPort,
                spInterfaces = [], spServiceRef = \<lparr>srName = svc, srPort = ''p''\<rparr>\<rparr>,
      pmStatus = exStatus\<rparr>"

definition exRef :: "string \<Rightarrow> ObjectReference" where
  "exRef name = \<lparr>orKind = ''Pod'', orNamespace = ''x'', orName = name\<rparr>"

definition exSlice :: "string \<Rightarrow> string \<Rightarrow> int \<Rightarrow> (string \<times> string \<times> string) list \<Rightarrow> EndpointSlice" where
  "exSlice svc fam port eps =
     \<lparr>slMeta = exMeta ''x'' svc 0 [(''kubernetes.io/service-name'', svc)],
      slAddressType = fam,
      slEndpoints = map (\<lambda>(pod, node, ip).
        \<lparr>enAddresses = [ip], enReady = Some True, enTargetRef = Some (exRef pod),
         enNodeName = Some node\<rparr>) eps,
      slPorts = [(Some ''p'', Some port)]\<rparr>"

definition exLink :: "string \<Rightarrow> string \<Rightarrow> string \<Rightarrow> string list \<Rightarrow> int option \<Rightarrow> LinkObj" where
  "exLink name kind cls peers since =
     \<lparr>lkMeta = exMeta [] name 0 [],
      lkSpec = \<lparr>lkClassKind = kind, lkClassName = cls, lkPeers = peers\<rparr>,
      lkStatus = \<lparr>lkUnusedSince = since\<rparr>\<rparr>"

definition exPod :: "string \<Rightarrow> string \<Rightarrow> string list \<Rightarrow> Pod" where
  "exPod name node ips =
     \<lparr>pdMeta = exMeta ''x'' name 0 [(''app'', ''v'')], pdNodeName = node, pdPhase = ''Running'',
      pdPodIPs = ips\<rparr>"

definition exEgress :: "string \<Rightarrow> int \<Rightarrow> bool \<Rightarrow> Egress" where
  "exEgress name created closed =
     \<lparr>egMeta = exMeta ''x'' name created [],
      egSpec = \<lparr>egClassName = ''k'',
                egPodSelector = \<lparr>lsMatchLabels = [(''app'', ''v'')], lsMatchExpressions = []\<rparr>,
                egFailClosed = closed\<rparr>,
      egStatus = \<lparr>esNode = [], esPods = [], esObservedGeneration = 0, esConditions = []\<rparr>\<rparr>"

text \<open>
  PortMaps \<open>g\<close> (UDP 70 to 72, class \<open>s\<close>) and \<open>h\<close> (UDP 71, class \<open>s\<close>, later, so refused), \<open>t\<close> (TCP 71,
  class \<open>s\<close>), and \<open>w\<close> (TCP 80 to pod port 81, class \<open>m\<close>).
\<close>

definition exInputs :: "string \<Rightarrow> Inputs" where
  "exInputs node =
     \<lparr>inNodeName = node,
      inNodes = [exNode ''c'' ''10.0.0.3'' ''10.1.3.0/24'', exNode ''a'' ''10.0.0.1'' ''10.1.1.0/24'',
                 exNode ''b'' ''10.0.0.2'' ''10.1.2.0/24''],
      inNamespaces = [\<lparr>nmMeta = exMeta [] ''x'' 0 []\<rparr>],
      inClasses = [exClass ''s'' ServingSingle ReturnPathVxlan, exClass ''m'' ServingMulti ReturnPathVxlan],
      inPortMaps = [exPM ''h'' 2 ''s'' ProtocolUDP 71 None ''u'', exPM ''g'' 1 ''s'' ProtocolUDP 70 (Some 72) ''v'',
                    exPM ''t'' 3 ''s'' ProtocolTCP 71 None ''v'', exPM ''w'' 4 ''m'' ProtocolTCP 80 None ''w''],
      inSlices = [exSlice ''v'' AddressTypeIPv4 0 [(''q'', ''c'', ''10.1.3.9'')],
                  exSlice ''w'' AddressTypeIPv4 81 [(''r'', ''c'', ''10.1.3.8''), (''y'', ''a'', ''10.1.1.8'')],
                  exSlice ''w'' AddressTypeIPv6 81 [(''y'', ''a'', ''fd00::8'')]],
      inNow = 1000,
      inLinks = [exLink ''slot-1'' ClassKindPortMapClass ''m'' [''b'', ''a''] None,
                 exLink ''slot-0'' ClassKindPortMapClass ''s'' [''a'', ''c''] None,
                 exLink ''slot-3'' ClassKindEgressClass ''k'' [''c'', ''a''] (Some 5)],
      inEgressClasses = [\<lparr>ecMeta = exMeta [] ''k'' 0 [],
                          ecSpec = \<lparr>ecNode = ''a'', ecNamespaceSelector = None\<rparr>,
                          ecStatus = \<lparr>ecNodes = [exRow ''a'', exRow ''c''], ecObservedGeneration = 0,
                                      ecConditions = []\<rparr>\<rparr>],
      inEgresses = [exEgress ''f'' 8 False, exEgress ''d'' 7 True],
      inPods = [exPod ''z'' ''c'' [''10.1.3.7'', ''fd00::7'']],
      inLinkPort = 0,
      inInterfaceAddrs = [(''e'', ''192.0.2.1'')],
      inInterfaceAddrs6 = [],
      inLocalAddrs = [V4 1],
      inIPv6Forwarding = True\<rparr>"

end
