(* ===== verification/Conflicts.thy ===== *)
theory Conflicts
  imports Endpoints Example
begin

text \<open>
  Validation and port conflicts (\<open>reconcile/conflicts.go\<close>). The mappings of a class are walked
  earliest first, and an accepted mapping holds its interval against the later ones. The code
  updates the mappings through pointers and visits the classes in map order; the model returns
  the updated mappings class by class, and the final sort by key makes the two the same list.
\<close>

section \<open>The checks of one mapping\<close>

definition portBounds :: "PortMapClass \<Rightarrow> int \<times> int \<times> int list" where
  "portBounds c =
     (case csPorts (pcSpec c) of
        None \<Rightarrow> (1, 65535, [])
      | Some p \<Rightarrow> (if prMin p \<noteq> 0 then prMin p else 1, if prMax p \<noteq> 0 then prMax p else 65535,
                  prReserved p))"

text \<open>The first interface a mapping asks for that no node of the class carries.\<close>

definition unknownInterface :: "PortMapClass \<Rightarrow> PortMap \<Rightarrow> string option" where
  "unknownInterface c pm =
     (let known = concat (map (niInterfaces \<circ> snd) (csNodes (pcSpec c)))
      in find (\<lambda>i. i \<notin> set known) (spInterfaces (pmSpec pm)))"

definition classSelectsNamespace :: "selector_fn \<Rightarrow> index \<Rightarrow> PortMapClass \<Rightarrow> string \<Rightarrow> bool" where
  "classSelectsNamespace asSel idx c namespace =
     (case csNamespaceSelector (pcSpec c) of
        None \<Rightarrow> True
      | Some ls \<Rightarrow>
          (case asSel ls of
             None \<Rightarrow> False
           | Some sel \<Rightarrow>
               if selEmpty sel then True
               else (case nsByName idx namespace of
                       None \<Rightarrow> False
                     | Some ns \<Rightarrow> selMatches sel (omLabels (nmMeta ns)))))"

definition differingPort :: "Inputs \<Rightarrow> PortMap \<Rightarrow> int option" where
  "differingPort inp pm =
     map_option cePort
       (find (\<lambda>c. cePort c \<noteq> 0 \<and> cePort c \<noteq> spPort (pmSpec pm)) (gatherCandidates inp pm))"

definition translates :: "Inputs \<Rightarrow> PortMap \<Rightarrow> bool" where
  "translates inp pm =
     (let (first, last) = interval pm
      in if first \<noteq> last then False else differingPort inp pm \<noteq> None)"

text \<open>
  The loop of \<open>sharedTarget\<close>. The code also skips the mapping itself by its pointer, which the
  \<open>earlier\<close> guard does too.
\<close>

definition sharesTarget :: "Inputs \<Rightarrow> PortMap \<Rightarrow> PortMap \<Rightarrow> bool" where
  "sharesTarget inp pm other \<longleftrightarrow>
     pmNamespace other = pmNamespace pm \<and>
     spProtocol (pmSpec other) = spProtocol (pmSpec pm) \<and>
     spServiceRef (pmSpec other) = spServiceRef (pmSpec pm) \<and> earlier other pm \<and>
     (translates inp other \<or> translates inp pm)"

definition sharedTarget :: "Inputs \<Rightarrow> PortMap \<Rightarrow> PortMap option" where
  "sharedTarget inp pm =
     foldl (\<lambda>found other.
        if sharesTarget inp pm other
           \<and> (case found of None \<Rightarrow> True | Some f \<Rightarrow> earlier other f)
        then Some other else found) None (inPortMaps inp)"

text \<open>The reason a mapping is refused on its own, with its message, or the valid reason.\<close>

definition validateStandalone ::
  "selector_fn \<Rightarrow> Inputs \<Rightarrow> index \<Rightarrow> mapping \<Rightarrow> Reason \<times> string" where
  "validateStandalone asSel inp idx m =
     (let pm = mpPm m; sp = pmSpec pm; (first, last) = interval pm in
      case mpClass m of
        None \<Rightarrow> (ReasonClassNotFound, ''class '' @ quote (spClassName sp) @ '' not found'')
      | Some c \<Rightarrow>
          if last < first then
            (ReasonInvalidPortRange,
             ''endPort '' @ itoa last @ '' is less than port '' @ itoa first)
          else if \<not> classSelectsNamespace asSel idx c (pmNamespace pm) then
            (ReasonNamespaceNotSelected,
             ''class '' @ quote (className c) @ '' does not select namespace '' @ quote (pmNamespace pm))
          else let (mn, mx, reserved) = portBounds c in
          if first < mn \<or> last > mx then
            (ReasonPortOutOfRange,
             ''port range '' @ itoa first @ ''-'' @ itoa last @ '' is outside '' @ itoa mn @ ''-'' @ itoa mx)
          else (case find (\<lambda>r. first \<le> r \<and> r \<le> last) reserved of
            Some r \<Rightarrow> (ReasonPortReserved, ''port '' @ itoa r @ '' is reserved'')
          | None \<Rightarrow>
          (case unknownInterface c pm of
            Some i \<Rightarrow>
              (ReasonInterfaceNotInClass,
               ''interface '' @ quote i @ '' is on no node of class '' @ quote (className c))
          | None \<Rightarrow>
          (case (if first \<noteq> last then differingPort inp pm else None) of
            Some p \<Rightarrow>
              (ReasonRangeTranslation,
               ''service port '' @ srName (spServiceRef sp) @ ''/'' @ srPort (spServiceRef sp)
               @ '' is '' @ itoa p
               @ ''; a range reaches the pod on the ports it names, starting at '' @ itoa first)
          | None \<Rightarrow>
          (case sharedTarget inp pm of
            Some other \<Rightarrow>
              (ReasonTargetPortInUse,
               ''service port '' @ srName (spServiceRef sp) @ ''/'' @ srPort (spServiceRef sp)
               @ '' is already mapped by '' @ pmKey other)
          | None \<Rightarrow> (ReasonValid, []))))))"

section \<open>Conflicts between mappings\<close>

definition overlaps :: "PortMap \<Rightarrow> PortMap \<Rightarrow> bool" where
  "overlaps a b =
     (let (af, al) = interval a; (bf, bl) = interval b in af \<le> bl \<and> bf \<le> al)"

definition firstOverlap :: "mapping \<Rightarrow> mapping list \<Rightarrow> mapping option" where
  "firstOverlap m held =
     find (\<lambda>h. spProtocol (pmSpec (mpPm h)) = spProtocol (pmSpec (mpPm m)) \<and> overlaps (mpPm m) (mpPm h))
       held"

text \<open>The decision for the next mapping of a class, against the mappings that hold an interval.\<close>

definition admit :: "selector_fn \<Rightarrow> Inputs \<Rightarrow> index \<Rightarrow> mapping list \<Rightarrow> mapping \<Rightarrow> mapping" where
  "admit asSel inp idx held m =
     (let (reason, msg) = validateStandalone asSel inp idx m
      in if reason \<noteq> ReasonValid then setAccepted False reason msg (inNow inp) m
         else (case firstOverlap m held of
                 Some winner \<Rightarrow>
                   setAccepted False ReasonPortConflict
                     (portPhrase (mpPm m) @ '' is held by '' @ pmKey (mpPm winner)) (inNow inp) m
               | None \<Rightarrow> setAccepted True ReasonValid [] (inNow inp) m))"

fun admitAll ::
  "selector_fn \<Rightarrow> Inputs \<Rightarrow> index \<Rightarrow> mapping list \<Rightarrow> mapping list \<Rightarrow> mapping list" where
  "admitAll asSel inp idx held [] = []"
| "admitAll asSel inp idx held (m # ms) =
     (let m' = admit asSel inp idx held m
      in m' # admitAll asSel inp idx (if mpAccepted m' then held @ [m'] else held) ms)"

definition earlierMapping :: "mapping \<Rightarrow> mapping \<Rightarrow> bool" where
  "earlierMapping a b = earlier (mpPm a) (mpPm b)"

definition mappingClass :: "mapping \<Rightarrow> string" where
  "mappingClass m = spClassName (pmSpec (mpPm m))"

definition resolveConflicts ::
  "selector_fn \<Rightarrow> Inputs \<Rightarrow> index \<Rightarrow> mapping list \<Rightarrow> mapping list" where
  "resolveConflicts asSel inp idx ms =
     concat (map (\<lambda>cls. admitAll asSel inp idx []
                           (sortBy earlierMapping (filter (\<lambda>m. mappingClass m = cls) ms)))
               (remdups (map mappingClass ms)))"

section \<open>Every mapping\<close>

definition settle :: "Inputs \<Rightarrow> mapping \<Rightarrow> mapping" where
  "settle inp m =
     (if mpAccepted m then decideRole inp (m\<lparr>mpEndpoint := chooseEndpoint inp m\<rparr>) else m)"

definition resolveMappings :: "selector_fn \<Rightarrow> Inputs \<Rightarrow> index \<Rightarrow> mapping list" where
  "resolveMappings asSel inp idx =
     sortBy (\<lambda>a b. pmKey (mpPm a) < pmKey (mpPm b))
       (map (settle inp) (resolveConflicts asSel inp idx (map (newMapping idx) (inPortMaps inp))))"

section \<open>Lemmas: admission in order\<close>

lemma admit_sel [simp]:
  "mpPm (admit asSel inp idx held m) = mpPm m"
  "mpClass (admit asSel inp idx held m) = mpClass m"
  "mpAcceptingNodes (admit asSel inp idx held m) = mpAcceptingNodes m"
  by (simp_all add: admit_def Let_def split: prod.split option.split)

lemma admit_accepted:
  "mpAccepted (admit asSel inp idx held m) \<longleftrightarrow>
     fst (validateStandalone asSel inp idx m) = ReasonValid \<and> firstOverlap m held = None"
  by (simp add: admit_def Let_def split: prod.split option.split)

lemma map_mpPm_admitAll [simp]: "map mpPm (admitAll asSel inp idx held ms) = map mpPm ms"
  by (induction ms arbitrary: held) (simp_all add: Let_def)

lemma length_admitAll [simp]: "length (admitAll asSel inp idx held ms) = length ms"
  by (metis length_map map_mpPm_admitAll)

text \<open>Each mapping is decided against exactly the accepted ones before it.\<close>

lemma admitAll_nth:
  "i < length ms \<Longrightarrow>
   admitAll asSel inp idx held ms ! i =
   admit asSel inp idx (held @ filter mpAccepted (take i (admitAll asSel inp idx held ms))) (ms ! i)"
proof (induction ms arbitrary: held i)
  case (Cons m ms)
  show ?case
  proof (cases i)
    case (Suc j)
    with Cons show ?thesis by (simp add: Let_def)
  qed (simp add: Let_def)
qed simp

lemma firstOverlap_None:
  "firstOverlap m held = None \<longleftrightarrow>
   (\<forall>h \<in> set held. spProtocol (pmSpec (mpPm h)) = spProtocol (pmSpec (mpPm m)) \<longrightarrow>
      \<not> overlaps (mpPm m) (mpPm h))"
  by (auto simp: firstOverlap_def find_None_iff)

lemma firstOverlap_Some:
  "firstOverlap m held = Some h \<Longrightarrow>
   h \<in> set held \<and> spProtocol (pmSpec (mpPm h)) = spProtocol (pmSpec (mpPm m)) \<and>
   overlaps (mpPm m) (mpPm h)"
  by (auto simp: firstOverlap_def find_Some_iff)

lemma overlaps_sym: "overlaps a b \<longleftrightarrow> overlaps b a"
  by (auto simp: overlaps_def split: prod.split)

text \<open>In a strictly sorted list the elements before a position are those that compare less.\<close>

lemma take_strict:
  assumes "sorted_wrt lt xs" and "\<And>a b. lt a b \<Longrightarrow> \<not> lt b a" and "i < length xs"
  shows "x \<in> set (take i xs) \<longleftrightarrow> x \<in> set xs \<and> lt x (xs ! i)"
proof
  assume "x \<in> set (take i xs)"
  then obtain j where j: "j < i" "x = xs ! j" using assms(3) by (auto simp: in_set_conv_nth)
  then have "lt x (xs ! i)" using assms(1,3) by (simp add: sorted_wrt_iff_nth_less)
  then show "x \<in> set xs \<and> lt x (xs ! i)" using \<open>x \<in> set (take i xs)\<close> by (auto dest: in_set_takeD)
next
  assume x: "x \<in> set xs \<and> lt x (xs ! i)"
  then obtain j where j: "j < length xs" "x = xs ! j" by (auto simp: in_set_conv_nth)
  have "\<not> i < j"
    using assms(1,2) x j by (metis sorted_wrt_iff_nth_less)
  moreover have "i \<noteq> j" using x j assms(2) by metis
  ultimately show "x \<in> set (take i xs)"
    using j assms(3) by (auto simp: in_set_conv_nth intro!: exI [of _ j])
qed

section \<open>Lemmas: the mappings of one class\<close>

abbreviation classGroup :: "selector_fn \<Rightarrow> Inputs \<Rightarrow> index \<Rightarrow> mapping list \<Rightarrow> string \<Rightarrow> mapping list" where
  "classGroup asSel inp idx ms cls \<equiv>
     admitAll asSel inp idx [] (sortBy earlierMapping (filter (\<lambda>m. mappingClass m = cls) ms))"

interpretation mapping_creation: keyed_less earlierMapping "creationKey \<circ> mpPm"
  by unfold_locales (simp add: earlierMapping_def earlier_key)

lemma mpPm_classGroup:
  "mpPm ` set (classGroup asSel inp idx ms cls) = mpPm ` {m \<in> set ms. mappingClass m = cls}"
proof -
  have "mpPm ` set (classGroup asSel inp idx ms cls) = set (map mpPm (classGroup asSel inp idx ms cls))"
    by (rule set_map [symmetric])
  then show ?thesis by (simp only: map_mpPm_admitAll) simp
qed

lemma classGroup_class: "m \<in> set (classGroup asSel inp idx ms cls) \<Longrightarrow> mappingClass m = cls"
proof -
  assume "m \<in> set (classGroup asSel inp idx ms cls)"
  then have "mpPm m \<in> mpPm ` {x \<in> set ms. mappingClass x = cls}"
    by (simp only: mpPm_classGroup [of asSel inp idx, symmetric] imageI)
  then show ?thesis by (auto simp: mappingClass_def)
qed

lemma in_resolveConflicts:
  "m \<in> set (resolveConflicts asSel inp idx ms) \<longleftrightarrow>
   m \<in> set (classGroup asSel inp idx ms (mappingClass m))"
proof
  assume "m \<in> set (resolveConflicts asSel inp idx ms)"
  then obtain cls where "m \<in> set (classGroup asSel inp idx ms cls)"
    by (auto simp: resolveConflicts_def)
  then show "m \<in> set (classGroup asSel inp idx ms (mappingClass m))"
    using classGroup_class by blast
next
  assume m: "m \<in> set (classGroup asSel inp idx ms (mappingClass m))"
  then have "mpPm m \<in> mpPm ` {x \<in> set ms. mappingClass x = mappingClass m}"
    by (simp only: mpPm_classGroup [of asSel inp idx, symmetric] imageI)
  then obtain x where "x \<in> set ms" "mappingClass x = mappingClass m" by auto
  then have "mappingClass m \<in> set (remdups (map mappingClass ms))" by (metis image_eqI set_map set_remdups)
  with m show "m \<in> set (resolveConflicts asSel inp idx ms)"
    by (simp only: resolveConflicts_def set_concat set_map) blast
qed

lemma set_mpPm_resolveConflicts: "mpPm ` set (resolveConflicts asSel inp idx ms) = mpPm ` set ms"
proof -
  have "mpPm ` set (resolveConflicts asSel inp idx ms) =
      (\<Union>cls \<in> mappingClass ` set ms. mpPm ` set (classGroup asSel inp idx ms cls))"
    by (simp add: resolveConflicts_def image_UN)
  also have "\<dots> = mpPm ` set ms" by (simp only: mpPm_classGroup) auto
  finally show ?thesis .
qed

lemma sorted_earlierMapping: "sorted_wrt earlierMapping xs \<longleftrightarrow> sorted_wrt earlier (map mpPm xs)"
  by (simp add: sorted_wrt_map earlierMapping_def [abs_def])

text \<open>
  The decision inside a class, when the creation order separates its mappings: a mapping is
  decided by \<open>admit\<close> against the accepted mappings of its class that are earlier.
\<close>

lemma classGroup_decision:
  assumes inj: "inj_on pmKey (mpPm ` set ms)" and d: "distinct (map mpPm ms)"
    and m: "m \<in> set (classGroup asSel inp idx ms cls)"
  obtains m0 held where "m0 \<in> set ms" and "mpPm m0 = mpPm m" and "m = admit asSel inp idx held m0"
    and "set held = {h \<in> set (classGroup asSel inp idx ms cls). mpAccepted h \<and> earlier (mpPm h) (mpPm m)}"
proof -
  let ?g = "sortBy earlierMapping (filter (\<lambda>m. mappingClass m = cls) ms)"
  let ?res = "admitAll asSel inp idx [] ?g"
  have dms: "distinct ms" using d by (simp add: distinct_map)
  have "inj_on (creationKey \<circ> mpPm) (set (filter (\<lambda>m. mappingClass m = cls) ms))"
  proof (rule comp_inj_on)
    show "inj_on mpPm (set (filter (\<lambda>m. mappingClass m = cls) ms))"
      using d by (auto simp: distinct_map inj_on_def)
    show "inj_on creationKey (mpPm ` set (filter (\<lambda>m. mappingClass m = cls) ms))"
      using creationKey_inj_on [OF inj] by (rule inj_on_subset) auto
  qed
  then have "sorted_wrt earlierMapping ?g"
    using dms by (intro mapping_creation.sort_strict) simp_all
  then have s: "sorted_wrt earlierMapping ?res" by (simp add: sorted_earlierMapping)
  obtain i where i: "i < length ?res" "m = ?res ! i" using m by (auto simp: in_set_conv_nth)
  then have ig: "i < length ?g" by simp
  have dec: "m = admit asSel inp idx (filter mpAccepted (take i ?res)) (?g ! i)"
    using admitAll_nth [OF ig, of asSel inp idx "[]"] i by simp
  have "set (filter mpAccepted (take i ?res)) =
      {h \<in> set ?res. mpAccepted h \<and> earlier (mpPm h) (mpPm m)}"
    using take_strict [OF s _ i(1)] earlier_asym by (auto simp: earlierMapping_def i(2))
  moreover have "?g ! i \<in> set ms" using nth_mem [OF ig] by auto
  moreover have "mpPm (?g ! i) = mpPm m" by (simp add: dec)
  ultimately show ?thesis using dec that by blast
qed

section \<open>Lemmas: all mappings\<close>

lemma settle_sel [simp]:
  "mpPm (settle inp m) = mpPm m"
  "mpClass (settle inp m) = mpClass m"
  "mpAccepted (settle inp m) = mpAccepted m"
  "mpAcceptedCond (settle inp m) = mpAcceptedCond m"
  "mpAcceptingNodes (settle inp m) = mpAcceptingNodes m"
  by (simp_all add: settle_def)

abbreviation decided :: "selector_fn \<Rightarrow> Inputs \<Rightarrow> index \<Rightarrow> mapping list" where
  "decided asSel inp idx \<equiv> resolveConflicts asSel inp idx (map (newMapping idx) (inPortMaps inp))"

lemma set_resolveMappings: "set (resolveMappings asSel inp idx) = settle inp ` set (decided asSel inp idx)"
  by (simp add: resolveMappings_def)

lemma resolveMappings_pms: "mpPm ` set (resolveMappings asSel inp idx) = set (inPortMaps inp)"
proof -
  have "mpPm ` set (resolveMappings asSel inp idx) = mpPm ` set (decided asSel inp idx)"
    by (simp add: set_resolveMappings image_image)
  also have "\<dots> = set (inPortMaps inp)" by (simp only: set_mpPm_resolveConflicts) force
  finally show ?thesis .
qed

text \<open>Kubernetes names are unique in a kind: no two PortMaps share a namespace and a name.\<close>

definition uniquePortMaps :: "Inputs \<Rightarrow> bool" where
  "uniquePortMaps inp \<longleftrightarrow> distinct (map pmKey (inPortMaps inp))"

lemma uniquePortMaps_inj: "uniquePortMaps inp \<Longrightarrow> inj_on pmKey (set (inPortMaps inp))"
  by (simp add: uniquePortMaps_def distinct_map)

lemma settle_image:
  assumes "\<And>x. P (settle inp x) = Q x"
  shows "mpPm ` {h \<in> settle inp ` D. P h} = mpPm ` {h \<in> D. Q h}"
proof -
  have "{h \<in> settle inp ` D. P h} = settle inp ` {h \<in> D. Q h}" using assms by blast
  then show ?thesis by (simp add: image_image)
qed

text \<open>The same decision for a settled mapping, over all mappings.\<close>

lemma resolveMappings_decision:
  assumes u: "uniquePortMaps inp" and m: "m \<in> set (resolveMappings asSel inp idx)"
  obtains held where
    "m = settle inp (admit asSel inp idx held (newMapping idx (mpPm m)))"
    and "mpPm ` set held =
      mpPm ` {h \<in> set (resolveMappings asSel inp idx).
        mpAccepted h \<and> mappingClass h = mappingClass m \<and> earlier (mpPm h) (mpPm m)}"
    and "\<forall>h \<in> set held. mpAccepted h"
proof -
  let ?ms = "map (newMapping idx) (inPortMaps inp)"
  obtain d where d: "d \<in> set (decided asSel inp idx)" "m = settle inp d"
    using m by (auto simp: set_resolveMappings)
  have inj: "inj_on pmKey (mpPm ` set ?ms)" and dist: "distinct (map mpPm ?ms)"
    using u by (auto simp: uniquePortMaps_def distinct_map image_image comp_def)
  have dm: "d \<in> set (classGroup asSel inp idx ?ms (mappingClass d))"
    using d(1) by (simp only: in_resolveConflicts)
  obtain m0 held where m0: "m0 \<in> set ?ms" "mpPm m0 = mpPm d" "d = admit asSel inp idx held m0"
    and held: "set held = {h \<in> set (classGroup asSel inp idx ?ms (mappingClass d)).
                 mpAccepted h \<and> earlier (mpPm h) (mpPm d)}"
    by (rule classGroup_decision [OF inj dist dm])
  have new: "m0 = newMapping idx (mpPm m)" using m0(1,2) d(2) by auto
  have "set held = {h \<in> set (decided asSel inp idx).
      mpAccepted h \<and> mappingClass h = mappingClass d \<and> earlier (mpPm h) (mpPm d)}"
    unfolding held using in_resolveConflicts classGroup_class by (intro Collect_cong) metis
  moreover have "mpPm ` {h \<in> settle inp ` D. mpAccepted h \<and> mappingClass h = mappingClass m
        \<and> earlier (mpPm h) (mpPm m)} =
      mpPm ` {h \<in> D. mpAccepted h \<and> mappingClass h = mappingClass d
        \<and> earlier (mpPm h) (mpPm d)}" for D
    by (rule settle_image) (simp_all add: d(2) mappingClass_def)
  ultimately have "mpPm ` set held = mpPm ` {h \<in> set (resolveMappings asSel inp idx).
        mpAccepted h \<and> mappingClass h = mappingClass m \<and> earlier (mpPm h) (mpPm m)}"
    by (simp only: set_resolveMappings)
  moreover have "\<forall>h \<in> set held. mpAccepted h" unfolding held by blast
  moreover have "m = settle inp (admit asSel inp idx held (newMapping idx (mpPm m)))"
    using m0(3) d(2) new by simp
  ultimately show ?thesis using that by blast
qed

text \<open>A mapping is accepted exactly when it is valid and no earlier accepted one overlaps it.\<close>

lemma accepted_characterisation:
  assumes "uniquePortMaps inp" and "m \<in> set (resolveMappings asSel inp idx)"
  shows "mpAccepted m \<longleftrightarrow>
     fst (validateStandalone asSel inp idx (newMapping idx (mpPm m))) = ReasonValid \<and>
     \<not> (\<exists>h \<in> set (resolveMappings asSel inp idx).
          mpAccepted h \<and> mappingClass h = mappingClass m \<and>
          spProtocol (pmSpec (mpPm h)) = spProtocol (pmSpec (mpPm m)) \<and>
          earlier (mpPm h) (mpPm m) \<and> overlaps (mpPm m) (mpPm h))"
proof -
  from assms obtain held where m: "m = settle inp (admit asSel inp idx held (newMapping idx (mpPm m)))"
    and held: "mpPm ` set held =
      mpPm ` {h \<in> set (resolveMappings asSel inp idx).
        mpAccepted h \<and> mappingClass h = mappingClass m \<and> earlier (mpPm h) (mpPm m)}"
    by (rule resolveMappings_decision)
  have "mpAccepted m \<longleftrightarrow> mpAccepted (admit asSel inp idx held (newMapping idx (mpPm m)))"
    by (subst m) simp
  moreover have "firstOverlap (newMapping idx (mpPm m)) held = None \<longleftrightarrow>
      (\<forall>pm \<in> mpPm ` set held. spProtocol (pmSpec pm) = spProtocol (pmSpec (mpPm m)) \<longrightarrow>
         \<not> overlaps (mpPm m) pm)"
    by (auto simp: firstOverlap_None)
  ultimately show ?thesis by (auto simp: admit_accepted held)
qed

lemma accepted_valid:
  assumes "uniquePortMaps inp" and "m \<in> set (resolveMappings asSel inp idx)" and "mpAccepted m"
  shows "fst (validateStandalone asSel inp idx (newMapping idx (mpPm m))) = ReasonValid"
  using accepted_characterisation [OF assms(1,2)] assms(3) by simp

lemma resolveMappings_eq_pm:
  assumes "uniquePortMaps inp" and "a \<in> set (resolveMappings asSel inp idx)"
    and "b \<in> set (resolveMappings asSel inp idx)" and "pmKey (mpPm a) = pmKey (mpPm b)"
  shows "mpPm a = mpPm b"
proof -
  have "mpPm a \<in> set (inPortMaps inp)" "mpPm b \<in> set (inPortMaps inp)"
    using assms(2,3) by (simp_all flip: resolveMappings_pms [of asSel inp idx])
  with uniquePortMaps_inj [OF assms(1)] assms(4) show ?thesis by (simp add: inj_on_def)
qed

lemma mpClass_resolveMappings:
  assumes "uniquePortMaps inp" and "m \<in> set (resolveMappings asSel inp idx)"
  shows "mpClass m = classByName idx (spClassName (pmSpec (mpPm m)))"
proof -
  from assms obtain held where m: "m = settle inp (admit asSel inp idx held (newMapping idx (mpPm m)))"
    by (rule resolveMappings_decision)
  then have "mpClass m = mpClass (settle inp (admit asSel inp idx held (newMapping idx (mpPm m))))"
    by (rule arg_cong)
  then show ?thesis by simp
qed

section \<open>Lemmas: the standalone checks\<close>

lemma sharedTarget_step:
  "foldl (\<lambda>found other. if P other \<and> (case found of None \<Rightarrow> True | Some f \<Rightarrow> earlier other f)
      then Some other else found) acc pms = None \<longleftrightarrow> acc = None \<and> (\<forall>pm \<in> set pms. \<not> P pm)"
  by (induction pms arbitrary: acc) (auto split: option.splits)

lemma sharedTarget_None: "sharedTarget inp pm = None \<longleftrightarrow> (\<forall>o' \<in> set (inPortMaps inp). \<not> sharesTarget inp pm o')"
  by (simp add: sharedTarget_def sharedTarget_step)

text \<open>The mapping named is the earliest of those that share the target.\<close>

lemma sharedTarget_least:
  "foldl (\<lambda>found other. if P other \<and> (case found of None \<Rightarrow> True | Some f \<Rightarrow> earlier other f)
      then Some other else found) acc pms = Some w \<Longrightarrow>
   (acc = Some w \<or> w \<in> set pms \<and> P w) \<and> (\<forall>pm \<in> set pms. P pm \<longrightarrow> \<not> earlier pm w) \<and>
   (\<forall>a. acc = Some a \<longrightarrow> \<not> earlier a w)"
proof (induction pms arbitrary: acc)
  case (Cons pm pms)
  define acc' where "acc' = (if P pm \<and> (case acc of None \<Rightarrow> True | Some f \<Rightarrow> earlier pm f)
    then Some pm else acc)"
  have IH: "(acc' = Some w \<or> w \<in> set pms \<and> P w) \<and> (\<forall>pm \<in> set pms. P pm \<longrightarrow> \<not> earlier pm w) \<and>
     (\<forall>a. acc' = Some a \<longrightarrow> \<not> earlier a w)"
    by (rule Cons.IH) (use Cons.prems in \<open>simp add: acc'_def\<close>)
  then show ?case
    using earlier_trans unfolding acc'_def by (auto split: if_splits option.splits simp: earlier_key)
qed simp

lemma sharedTarget_Some:
  "sharedTarget inp pm = Some w \<Longrightarrow>
   w \<in> set (inPortMaps inp) \<and> sharesTarget inp pm w \<and>
   (\<forall>o' \<in> set (inPortMaps inp). sharesTarget inp pm o' \<longrightarrow> \<not> earlier o' w)"
  unfolding sharedTarget_def by (drule sharedTarget_least) simp

text \<open>The valid reason is left exactly when every check of the code passes.\<close>

lemma validateStandalone_valid:
  "fst (validateStandalone asSel inp idx m) = ReasonValid \<longleftrightarrow>
   (\<exists>c. mpClass m = Some c \<and>
      fst (interval (mpPm m)) \<le> snd (interval (mpPm m)) \<and>
      classSelectsNamespace asSel idx c (pmNamespace (mpPm m)) \<and>
      fst (portBounds c) \<le> fst (interval (mpPm m)) \<and>
      snd (interval (mpPm m)) \<le> fst (snd (portBounds c)) \<and>
      (\<forall>r \<in> set (snd (snd (portBounds c))).
         \<not> (fst (interval (mpPm m)) \<le> r \<and> r \<le> snd (interval (mpPm m)))) \<and>
      unknownInterface c (mpPm m) = None \<and>
      (fst (interval (mpPm m)) \<noteq> snd (interval (mpPm m)) \<longrightarrow> differingPort inp (mpPm m) = None) \<and>
      (\<forall>o' \<in> set (inPortMaps inp). \<not> sharesTarget inp (mpPm m) o'))"
proof (cases "mpClass m")
  case None
  then show ?thesis by (simp add: validateStandalone_def Let_def split: prod.split)
next
  case (Some c)
  obtain f l mn mx rs where i: "interval (mpPm m) = (f, l)" and b: "portBounds c = (mn, mx, rs)"
    by (metis surj_pair)
  define hit where "hit = find (\<lambda>r. f \<le> r \<and> r \<le> l) rs"
  have r: "(\<forall>r \<in> set rs. \<not> (f \<le> r \<and> r \<le> l)) \<longleftrightarrow> hit = None"
    by (simp only: hit_def find_None_iff) blast
  show ?thesis
    unfolding validateStandalone_def Let_def i prod.case Some option.case option.inject simp_thms b
      fst_conv snd_conv r
      hit_def [symmetric] sharedTarget_None [symmetric]
    by (simp add: not_less split: option.split)
qed

lemma validateStandalone_reason: "fst (validateStandalone asSel inp idx m) \<noteq> ReasonPortConflict"
  by (simp add: validateStandalone_def Let_def split: prod.split option.split)

section \<open>Lemmas: every agent reaches the same decisions\<close>

text \<open>
  The inputs of two agents at one moment: the same watched objects, the PortMaps in any order. The
  node name and what an agent reads from its own host are free to differ.
\<close>

definition sameWorld :: "Inputs \<Rightarrow> Inputs \<Rightarrow> bool" where
  "sameWorld i j \<longleftrightarrow>
     inNodes i = inNodes j \<and> inNamespaces i = inNamespaces j \<and> inClasses i = inClasses j \<and>
     mset (inPortMaps i) = mset (inPortMaps j) \<and> inSlices i = inSlices j \<and> inNow i = inNow j \<and>
     inLinks i = inLinks j \<and> inEgressClasses i = inEgressClasses j \<and>
     inEgresses i = inEgresses j \<and> inPods i = inPods j \<and> inLinkPort i = inLinkPort j"

lemma sameWorld_index: "sameWorld i j \<Longrightarrow> newIndex i = newIndex j"
  by (simp add: sameWorld_def newIndex_def)

lemma sameWorld_slices:
  assumes "sameWorld i j"
  shows "gatherCandidates i = gatherCandidates j" and "pairedIPv6 i = pairedIPv6 j"
    and "differingPort i = differingPort j" and "sharesTarget i = sharesTarget j"
    and "chooseEndpoint i = chooseEndpoint j"
proof -
  have s: "inSlices i = inSlices j" using assms by (simp add: sameWorld_def)
  show g: "gatherCandidates i = gatherCandidates j" and p: "pairedIPv6 i = pairedIPv6 j"
    unfolding gatherCandidates_def [abs_def] pairedIPv6_def [abs_def] s by (rule refl)+
  show "differingPort i = differingPort j" by (intro ext) (simp add: differingPort_def g)
  then show "sharesTarget i = sharesTarget j"
    by (intro ext) (simp add: sharesTarget_def translates_def)
  show "chooseEndpoint i = chooseEndpoint j" 
    unfolding chooseEndpoint_def [abs_def] g p by (rule refl)
qed

lemma sameWorld_settle: "sameWorld i j \<Longrightarrow> settle i = settle j"
proof
  fix m
  assume w: "sameWorld i j"
  then have now: "inNow i = inNow j" by (simp add: sameWorld_def)
  show "settle i m = settle j m"
    unfolding settle_def decideRole_def sameWorld_slices(5) [OF w] now by (rule refl)
qed

lemma sharedTarget_cong:
  assumes w: "sameWorld i j" and u: "uniquePortMaps i"
  shows "sharedTarget i pm = sharedTarget j pm"
proof -
  have set: "set (inPortMaps i) = set (inPortMaps j)"
    using w by (metis sameWorld_def set_mset_mset)
  note st = sameWorld_slices(4) [OF w]
  show ?thesis
  proof (cases "sharedTarget i pm")
    case None
    then have "sharedTarget j pm = None" by (simp add: sharedTarget_None set st)
    with None show ?thesis by simp
  next
    case (Some a)
    then obtain b where b: "sharedTarget j pm = Some b"
      using sharedTarget_None [of i pm] sharedTarget_None [of j pm] by (auto simp: set st)
    have "\<not> earlier a b" "\<not> earlier b a" "a \<in> set (inPortMaps i)" "b \<in> set (inPortMaps i)"
      using sharedTarget_Some [OF Some] sharedTarget_Some [OF b] by (simp_all add: set st)
    then have "a = b"
      using earlier_total [of a b] uniquePortMaps_inj [OF u] by (auto simp: inj_on_def)
    with Some b show ?thesis by simp
  qed
qed

lemma admitAll_cong:
  assumes w: "sameWorld i j" and u: "uniquePortMaps i"
  shows "admitAll asSel i idx held ms = admitAll asSel j idx held ms"
proof (induction ms arbitrary: held)
  case (Cons m ms)
  have now: "inNow i = inNow j" using w by (simp add: sameWorld_def)
  have "validateStandalone asSel i idx m = validateStandalone asSel j idx m"
    unfolding validateStandalone_def sharedTarget_cong [OF w u] sameWorld_slices(3) [OF w] by (rule refl)
  then have "admit asSel i idx held m = admit asSel j idx held m"
    unfolding admit_def now by (simp only:)
  with Cons show ?case by (simp only: admitAll.simps)
qed simp

lemma mset_map_comp:
  assumes "mset (map f xs) = mset (map f ys)"
  shows "mset (map (g \<circ> f) xs) = mset (map (g \<circ> f) ys)"
  using arg_cong [OF assms, of "image_mset g"] by (simp add: multiset.map_comp)

lemma distinct_decided:
  assumes "uniquePortMaps inp"
  shows "distinct (map (pmKey \<circ> mpPm) (decided asSel inp idx))"
proof -
  let ?ms = "map (newMapping idx) (inPortMaps inp)"
  have k: "map (pmKey \<circ> mpPm) ?ms = map pmKey (inPortMaps inp)" by simp
  have "mset (map mpPm (classGroup asSel inp idx ?ms cls)) =
      mset (map mpPm (filter (\<lambda>m. mappingClass m = cls) ?ms))" for cls
    by (simp only: map_mpPm_admitAll mset_map mset_sortBy)
  then have g: "mset (map (pmKey \<circ> mpPm) (classGroup asSel inp idx ?ms cls)) =
      mset (map (pmKey \<circ> mpPm) (filter (\<lambda>m. mappingClass m = cls) ?ms))" for cls
    by (rule mset_map_comp)
  have part: "mset (concat (map (\<lambda>cls. map f (filter (\<lambda>m. mappingClass m = cls) xs)) cs)) =
      mset (map f (filter (\<lambda>m. mappingClass m \<in> set cs) xs))" if "distinct cs"
    for f :: "mapping \<Rightarrow> string" and xs cs
    using that
  proof (induction cs)
    case (Cons c cs)
    have "mset (filter (\<lambda>m. mappingClass m = c) xs) + mset (filter (\<lambda>m. mappingClass m \<in> set cs) xs) =
        mset (filter (\<lambda>m. mappingClass m = c \<or> mappingClass m \<in> set cs) xs)"
      using Cons.prems by (induction xs) auto
    with Cons show ?case by (simp flip: image_mset_union)
  qed simp
  have "mset (map (pmKey \<circ> mpPm) (decided asSel inp idx)) =
      mset (concat (map (\<lambda>cls. map (pmKey \<circ> mpPm) (filter (\<lambda>m. mappingClass m = cls) ?ms))
        (remdups (map mappingClass ?ms))))"
    unfolding resolveConflicts_def map_concat map_map comp_def [of "map _"]
    by (simp only: mset_concat map_map comp_def g [unfolded comp_def])
  also have "\<dots> = mset (map (pmKey \<circ> mpPm) (filter (\<lambda>m. mappingClass m \<in> mappingClass ` set ?ms) ?ms))"
    by (subst part) simp_all
  also have "filter (\<lambda>m. mappingClass m \<in> mappingClass ` set ?ms) ?ms = ?ms"
    by (rule filter_True) blast
  finally show ?thesis
    using assms mset_eq_imp_distinct_iff unfolding uniquePortMaps_def k by blast
qed

lemma decided_cong:
  assumes w: "sameWorld i j" and u: "uniquePortMaps i"
  shows "mset (decided asSel i idx) = mset (decided asSel j idx)"
proof -
  let ?ms = "\<lambda>k. map (newMapping idx) (inPortMaps k)"
  have ms: "mset (?ms i) = mset (?ms j)" using w by (simp add: sameWorld_def)
  have "inj_on (creationKey \<circ> mpPm) (set (?ms i))"
  proof (rule comp_inj_on)
    show "inj_on mpPm (set (?ms i))" by (rule inj_onI) auto
    show "inj_on creationKey (mpPm ` set (?ms i))"
      using creationKey_inj_on [OF uniquePortMaps_inj [OF u]] by (simp add: image_image)
  qed
  then have "inj_on (creationKey \<circ> mpPm) (set (filter P (?ms i)))" for P
    by (rule inj_on_subset) auto
  then have "sortBy earlierMapping (filter P (?ms i)) = sortBy earlierMapping (filter P (?ms j))" for P
    using ms by (intro mapping_creation.sort_perm) simp_all
  then have g: "classGroup asSel i idx (?ms i) cls = classGroup asSel j idx (?ms j) cls" for cls
    by (simp only: admitAll_cong [OF w u])
  have "set (map mappingClass (?ms i)) = set (map mappingClass (?ms j))"
    using ms by (metis set_map set_mset_mset)
  then have "mset (remdups (map mappingClass (?ms i))) = mset (remdups (map mappingClass (?ms j)))"
    by (metis distinct_remdups set_eq_iff_mset_eq_distinct set_remdups)
  then show ?thesis
    unfolding resolveConflicts_def mset_concat g by (simp flip: sum_mset_sum_list)
qed

lemma resolveMappings_cong:
  assumes w: "sameWorld i j" and u: "uniquePortMaps i"
  shows "resolveMappings asSel i (newIndex i) = resolveMappings asSel j (newIndex j)"
proof -
  let ?d = "map (settle j) (decided asSel i (newIndex j))"
  have "inj_on (\<lambda>m. pmKey (mpPm m)) (set ?d)"
    using distinct_decided [OF u, of asSel "newIndex j"] by (auto simp: distinct_map inj_on_def)
  then show ?thesis
    unfolding resolveMappings_def sameWorld_index [OF w] sameWorld_settle [OF w]
    using decided_cong [OF w u, of asSel "newIndex j"]
    by (intro keyed_less.sort_perm [OF keyed_less.intro]) simp_all
qed

lemma accepted_no_overlap:
  assumes "uniquePortMaps inp"
    and a: "a \<in> set (resolveMappings asSel inp idx)" "mpAccepted a"
    and b: "b \<in> set (resolveMappings asSel inp idx)" "mpAccepted b"
    and "mpPm a \<noteq> mpPm b"
    and "spClassName (pmSpec (mpPm a)) = spClassName (pmSpec (mpPm b))"
    and "spProtocol (pmSpec (mpPm a)) = spProtocol (pmSpec (mpPm b))"
  shows "\<not> overlaps (mpPm a) (mpPm b)"
proof
  assume ov: "overlaps (mpPm a) (mpPm b)"
  then have ov': "overlaps (mpPm b) (mpPm a)" by (simp only: overlaps_sym)
  have "pmKey (mpPm a) \<noteq> pmKey (mpPm b)" using resolveMappings_eq_pm assms by blast
  then consider "earlier (mpPm a) (mpPm b)" | "earlier (mpPm b) (mpPm a)"
    using earlier_total by blast
  then show False
  proof cases
    case 1
    then show ?thesis
      using accepted_characterisation [OF assms(1) b(1)] a b(2) ov' assms(7,8)
      by (auto simp: mappingClass_def)
  next
    case 2
    then show ?thesis
      using accepted_characterisation [OF assms(1) a(1)] b a(2) ov assms(7,8)
      by (auto simp: mappingClass_def)
  qed
qed

lemma accepted_bounds:
  assumes "uniquePortMaps inp" and "m \<in> set (resolveMappings asSel inp (newIndex inp))" and "mpAccepted m"
    and "mpClass m = Some c" and "\<And>p. csPorts (pcSpec c) = Some p \<Longrightarrow> 0 \<le> prMin p \<and> prMax p \<le> 65535"
  shows "portBounds c = (mn, mx, reserved) \<longrightarrow>
    mn \<le> uint (selFirst (portSel (mpPm m))) \<and> uint (selLast (portSel (mpPm m))) \<le> mx \<and>
    (uint (selFirst (portSel (mpPm m))), uint (selLast (portSel (mpPm m)))) = interval (mpPm m) \<and>
    uint (selFirst (portSel (mpPm m))) \<le> uint (selLast (portSel (mpPm m))) \<and>
    (\<forall>r \<in> set reserved. r < uint (selFirst (portSel (mpPm m))) \<or> uint (selLast (portSel (mpPm m))) < r)"
proof
  assume b: "portBounds c = (mn, mx, reserved)"
  obtain f l where i: "interval (mpPm m) = (f, l)" by (metis surj_pair)
  have "mpClass m = classByName (newIndex inp) (spClassName (pmSpec (mpPm m)))"
    by (rule mpClass_resolveMappings [OF assms(1,2)])
  with accepted_valid [OF assms(1-3)] assms(4) b i
  have v: "f \<le> l" "mn \<le> f" "l \<le> mx" "\<forall>r \<in> set reserved. \<not> (f \<le> r \<and> r \<le> l)"
    unfolding validateStandalone_valid newMapping_sel by auto
  have "0 \<le> mn" "mx \<le> 65535"
    using b assms(5) by (auto simp: portBounds_def split: option.splits if_splits)
  with v have "uint (word_of_int f :: 16 word) = f" "uint (word_of_int l :: 16 word) = l"
    by (simp_all add: unsigned_of_int take_bit_int_eq_self)
  with v i show "mn \<le> uint (selFirst (portSel (mpPm m))) \<and> uint (selLast (portSel (mpPm m))) \<le> mx \<and>
    (uint (selFirst (portSel (mpPm m))), uint (selLast (portSel (mpPm m)))) = interval (mpPm m) \<and>
    uint (selFirst (portSel (mpPm m))) \<le> uint (selLast (portSel (mpPm m))) \<and>
    (\<forall>r \<in> set reserved. r < uint (selFirst (portSel (mpPm m))) \<or> uint (selLast (portSel (mpPm m))) < r)"
    by (auto simp: portSel_def not_le)
qed

text \<open>
  What the agents must agree on without talking: a value every agent computes from its inputs,
  and computes alike whenever it watches the same objects.
\<close>

locale shared_view =
  fixes view :: "Inputs \<Rightarrow> 'a"
  assumes view_agree: "sameWorld i j \<Longrightarrow> uniquePortMaps i \<Longrightarrow> view i = view j"
begin

lemma agree_all:
  assumes "uniquePortMaps w" and "\<And>i. i \<in> A \<Longrightarrow> sameWorld w i"
  shows "view ` A \<subseteq> {view w}"
proof (rule image_subsetI)
  fix i
  assume "i \<in> A"
  from view_agree [OF assms(2) [OF this] assms(1)] show "view i \<in> {view w}" by simp
qed

lemma derived: "shared_view (\<lambda>i. f (view i))"
  by unfold_locales (metis view_agree)

end

interpretation resolved_view: shared_view "\<lambda>i. resolveMappings asSel i (newIndex i)" for asSel
  by unfold_locales (rule resolveMappings_cong)

interpretation index_view: shared_view newIndex
  by unfold_locales (rule sameWorld_index)

section \<open>Properties\<close>

text \<open>
  C1. Two accepted mappings of one class and protocol never claim a port in common: whichever port
  number is picked, at most one of them holds it.
\<close>

theorem accepted_disjoint:
  assumes "uniquePortMaps inp"
    and a: "a \<in> set (resolveMappings asSel inp idx)" "mpAccepted a"
    and b: "b \<in> set (resolveMappings asSel inp idx)" "mpAccepted b"
    and "mpPm a \<noteq> mpPm b"
    and "spClassName (pmSpec (mpPm a)) = spClassName (pmSpec (mpPm b))"
    and "spProtocol (pmSpec (mpPm a)) = spProtocol (pmSpec (mpPm b))"
  shows "\<not> (fst (interval (mpPm a)) \<le> port \<and> port \<le> snd (interval (mpPm a)) \<and>
            fst (interval (mpPm b)) \<le> port \<and> port \<le> snd (interval (mpPm b)))"
  using accepted_no_overlap [OF assms] by (auto simp: overlaps_def split: prod.split)

text \<open>The two accepted mappings of class \<open>s\<close> hold disjoint ports of one protocol.\<close>

definition exDisjoint :: Inputs where
  "exDisjoint = (exInputs ''a'')\<lparr>inPortMaps := [exPM ''h'' 2 ''s'' ProtocolUDP 73 None ''u'',
     exPM ''g'' 1 ''s'' ProtocolUDP 70 (Some 72) ''v'']\<rparr>"

abbreviation exResolved :: "Inputs \<Rightarrow> mapping list" where
  "exResolved inp \<equiv> resolveMappings exSel inp (newIndex inp)"

lemma accepted_disjoint_witness:
  "mpAccepted (exResolved exDisjoint ! 0) \<and> mpAccepted (exResolved exDisjoint ! 1) \<and>
   \<not> (fst (interval (mpPm (exResolved exDisjoint ! 0))) \<le> 73 \<and>
      73 \<le> snd (interval (mpPm (exResolved exDisjoint ! 0))) \<and>
      fst (interval (mpPm (exResolved exDisjoint ! 1))) \<le> 73 \<and>
      73 \<le> snd (interval (mpPm (exResolved exDisjoint ! 1))))"
proof -
  have l: "length (exResolved exDisjoint) = 2" by code_simp
  have "mpAccepted (exResolved exDisjoint ! 0)" and "mpAccepted (exResolved exDisjoint ! 1)" by code_simp+
  moreover have "\<not> (fst (interval (mpPm (exResolved exDisjoint ! 0))) \<le> 73 \<and>
      73 \<le> snd (interval (mpPm (exResolved exDisjoint ! 0))) \<and>
      fst (interval (mpPm (exResolved exDisjoint ! 1))) \<le> 73 \<and>
      73 \<le> snd (interval (mpPm (exResolved exDisjoint ! 1))))"
  proof (rule accepted_disjoint)
    show "uniquePortMaps exDisjoint" by code_simp
    show "exResolved exDisjoint ! 0 \<in> set (exResolved exDisjoint)"
      "exResolved exDisjoint ! 1 \<in> set (exResolved exDisjoint)" by (simp_all add: l)
  qed code_simp+
  ultimately show ?thesis by blast
qed

text \<open>
  C8. A mapping is accepted exactly when every check of its spec passes and no mapping of its class
  and protocol that was created earlier and is itself accepted overlaps it: first come, first
  served, over all PortMaps of the cluster.
\<close>

theorem accepted_iff:
  assumes "uniquePortMaps inp" and "m \<in> set (resolveMappings asSel inp (newIndex inp))"
  shows "mpAccepted m \<longleftrightarrow>
    (\<exists>c. classByName (newIndex inp) (spClassName (pmSpec (mpPm m))) = Some c \<and>
      fst (interval (mpPm m)) \<le> snd (interval (mpPm m)) \<and>
      classSelectsNamespace asSel (newIndex inp) c (pmNamespace (mpPm m)) \<and>
      fst (portBounds c) \<le> fst (interval (mpPm m)) \<and>
      snd (interval (mpPm m)) \<le> fst (snd (portBounds c)) \<and>
      (\<forall>r \<in> set (snd (snd (portBounds c))).
         \<not> (fst (interval (mpPm m)) \<le> r \<and> r \<le> snd (interval (mpPm m)))) \<and>
      unknownInterface c (mpPm m) = None \<and>
      (fst (interval (mpPm m)) \<noteq> snd (interval (mpPm m)) \<longrightarrow> differingPort inp (mpPm m) = None) \<and>
      (\<forall>o' \<in> set (inPortMaps inp). \<not> sharesTarget inp (mpPm m) o')) \<and>
    \<not> (\<exists>h \<in> set (resolveMappings asSel inp (newIndex inp)).
         mpAccepted h \<and> spClassName (pmSpec (mpPm h)) = spClassName (pmSpec (mpPm m)) \<and>
         spProtocol (pmSpec (mpPm h)) = spProtocol (pmSpec (mpPm m)) \<and>
         earlier (mpPm h) (mpPm m) \<and> overlaps (mpPm m) (mpPm h))"
  unfolding accepted_characterisation [OF assms] validateStandalone_valid mappingClass_def newMapping_sel ..

text \<open>In the example cluster \<open>g\<close> is accepted and \<open>h\<close>, which overlaps it, is not.\<close>

lemma accepted_iff_witness:
  "mpAccepted (exResolved (exInputs ''a'') ! 0) \<and> \<not> mpAccepted (exResolved (exInputs ''a'') ! 1) \<and>
   unknownInterface (exClass ''s'' ServingSingle ReturnPathVxlan)
     (mpPm (exResolved (exInputs ''a'') ! 0)) = None \<and>
   (\<exists>h \<in> set (exResolved (exInputs ''a'')).
      mpAccepted h \<and> earlier (mpPm h) (mpPm (exResolved (exInputs ''a'') ! 1)) \<and>
      overlaps (mpPm (exResolved (exInputs ''a'') ! 1)) (mpPm h))"
proof -
  let ?r = "exResolved (exInputs ''a'')"
  have l: "length ?r = 4" and u: "uniquePortMaps (exInputs ''a'')" by code_simp+
  have r: "?r ! 0 \<in> set ?r" "?r ! 1 \<in> set ?r" by (simp_all add: l)
  have acc: "mpAccepted (?r ! 0)" "\<not> mpAccepted (?r ! 1)" by code_simp+
  have "fst (validateStandalone exSel (exInputs ''a'') (newIndex (exInputs ''a''))
      (newMapping (newIndex (exInputs ''a'')) (mpPm (?r ! 1)))) = ReasonValid" by code_simp
  then have "\<exists>h \<in> set ?r. mpAccepted h \<and> earlier (mpPm h) (mpPm (?r ! 1)) \<and> overlaps (mpPm (?r ! 1)) (mpPm h)"
    using accepted_iff [OF u r(2)] acc(2) unfolding validateStandalone_valid newMapping_sel by blast
  moreover have "classByName (newIndex (exInputs ''a'')) (spClassName (pmSpec (mpPm (?r ! 0)))) =
      Some (exClass ''s'' ServingSingle ReturnPathVxlan)" by code_simp
  then have "unknownInterface (exClass ''s'' ServingSingle ReturnPathVxlan) (mpPm (?r ! 0)) = None"
    using accepted_iff [OF u r(1)] acc(1) by auto
  ultimately show ?thesis using acc by blast
qed

text \<open>
  A mapping refused for a port conflict lost to a mapping of its class and protocol that is
  accepted, was created earlier and overlaps it, and the condition's message names that mapping.
\<close>

theorem conflict_names_winner:
  assumes "uniquePortMaps inp" and "m \<in> set (resolveMappings asSel inp idx)"
    and "mpAcceptedCond m = Some cond" and "cdReason cond = ReasonPortConflict"
  shows "cdStatus cond = CondFalse \<and> \<not> mpAccepted m \<and>
    (\<exists>w \<in> set (resolveMappings asSel inp idx).
       mpAccepted w \<and> spClassName (pmSpec (mpPm w)) = spClassName (pmSpec (mpPm m)) \<and>
       spProtocol (pmSpec (mpPm w)) = spProtocol (pmSpec (mpPm m)) \<and>
       earlier (mpPm w) (mpPm m) \<and> overlaps (mpPm m) (mpPm w) \<and>
       cdMessage cond = portPhrase (mpPm m) @ '' is held by '' @ pmKey (mpPm w))"
proof -
  from assms(1,2) obtain held where m: "m = settle inp (admit asSel inp idx held (newMapping idx (mpPm m)))"
    and held: "mpPm ` set held =
      mpPm ` {h \<in> set (resolveMappings asSel inp idx).
        mpAccepted h \<and> mappingClass h = mappingClass m \<and> earlier (mpPm h) (mpPm m)}"
    by (rule resolveMappings_decision)
  let ?a = "admit asSel inp idx held (newMapping idx (mpPm m))"
  have c: "mpAcceptedCond ?a = Some cond" using assms(3) by (subst (asm) m) simp
  then obtain h where h: "firstOverlap (newMapping idx (mpPm m)) held = Some h"
    and msg: "cdMessage cond = portPhrase (mpPm m) @ '' is held by '' @ pmKey (mpPm h)"
    and st: "cdStatus cond = CondFalse" and na: "\<not> mpAccepted ?a"
    using assms(4) validateStandalone_reason [of asSel inp idx "newMapping idx (mpPm m)"]
    by (auto simp: admit_def setAccepted_def mkCondition_def Let_def
        split: prod.splits option.splits if_splits)
  from firstOverlap_Some [OF h] have "mpPm h \<in> mpPm ` set held"
    and o: "spProtocol (pmSpec (mpPm h)) = spProtocol (pmSpec (mpPm m))" "overlaps (mpPm m) (mpPm h)"
    by auto
  then obtain w where "w \<in> set (resolveMappings asSel inp idx)" "mpAccepted w"
    "mappingClass w = mappingClass m" "earlier (mpPm w) (mpPm m)" "mpPm w = mpPm h"
    unfolding held by auto
  moreover have "\<not> mpAccepted m" using na by (subst m) simp
  ultimately show ?thesis using o msg st by (auto simp: mappingClass_def)
qed

lemma conflict_names_winner_witness:
  "let m = exResolved (exInputs ''a'') ! 1 in
     \<not> mpAccepted m \<and> (\<exists>w \<in> set (exResolved (exInputs ''a'')). earlier (mpPm w) (mpPm m) \<and>
       map_option cdMessage (mpAcceptedCond m) = Some (portPhrase (mpPm m) @ '' is held by '' @ pmKey (mpPm w)))"
proof -
  let ?r = "exResolved (exInputs ''a'')"
  have l: "length ?r = 4" and u: "uniquePortMaps (exInputs ''a'')" by code_simp+
  have r: "?r ! 1 \<in> set ?r" by (simp add: l)
  have "map_option cdReason (mpAcceptedCond (?r ! 1)) = Some ReasonPortConflict" by code_simp
  then obtain cond where c: "mpAcceptedCond (?r ! 1) = Some cond" "cdReason cond = ReasonPortConflict"
    by blast
  show ?thesis
    using conflict_names_winner [OF u r c] unfolding Let_def c(1) option.map option.inject by blast
qed

text \<open>
  C16. An accepted mapping's ports lie inside its class's bounds and hit none of its reserved
  ports, and the 16-bit port selector the datapath gets denotes exactly those ports: with bounds
  in the port range, no port number is truncated.
\<close>

theorem accepted_ports_exact:
  assumes "uniquePortMaps inp" and "m \<in> set (resolveMappings asSel inp (newIndex inp))" and "mpAccepted m"
    and "mpClass m = Some c" and "\<And>p. csPorts (pcSpec c) = Some p \<Longrightarrow> 0 \<le> prMin p \<and> prMax p \<le> 65535"
  shows "portBounds c = (mn, mx, reserved) \<longrightarrow>
    mn \<le> uint (selFirst (portSel (mpPm m))) \<and> uint (selLast (portSel (mpPm m))) \<le> mx \<and>
    (uint (selFirst (portSel (mpPm m))), uint (selLast (portSel (mpPm m)))) = interval (mpPm m) \<and>
    uint (selFirst (portSel (mpPm m))) \<le> uint (selLast (portSel (mpPm m))) \<and>
    (\<forall>r \<in> set reserved. r < uint (selFirst (portSel (mpPm m))) \<or> uint (selLast (portSel (mpPm m))) < r)"
  by (rule accepted_bounds [OF assms])

lemma accepted_ports_exact_witness:
  "let sel = portSel (mpPm (exResolved (exInputs ''a'') ! 0)) in
     2 \<le> uint (selFirst sel) \<and> uint (selLast sel) \<le> 65535 \<and> (uint (selFirst sel), uint (selLast sel)) = (70, 72)"
proof -
  let ?r = "exResolved (exInputs ''a'')" and ?c = "exClass ''s'' ServingSingle ReturnPathVxlan"
  have l: "length ?r = 4" and u: "uniquePortMaps (exInputs ''a'')" by code_simp+
  have r: "?r ! 0 \<in> set ?r" by (simp add: l)
  have a: "mpAccepted (?r ! 0)" and c: "mpClass (?r ! 0) = Some ?c"
    and b: "portBounds ?c = (2, 65535, [22])" and i: "interval (mpPm (?r ! 0)) = (70, 72)" by code_simp+
  have "csPorts (pcSpec ?c) = Some p \<Longrightarrow> 0 \<le> prMin p \<and> prMax p \<le> 65535" for p
    by (auto simp: exClass_def)
  from accepted_ports_exact [OF u r a c this, of 2 65535 "[22]"] b i show ?thesis by (simp add: Let_def)
qed

text \<open>
  Two accepted mappings of one namespace and protocol that deliver to the same service port
  both keep the port number: as soon as one of them translates its port, so that the reply's
  source port no longer tells the two apart, only one is accepted.
\<close>

theorem translated_target_unshared:
  assumes "uniquePortMaps inp"
    and a: "a \<in> set (resolveMappings asSel inp (newIndex inp))" "mpAccepted a"
    and b: "b \<in> set (resolveMappings asSel inp (newIndex inp))" "mpAccepted b"
    and "mpPm a \<noteq> mpPm b" and "pmNamespace (mpPm a) = pmNamespace (mpPm b)"
    and "spProtocol (pmSpec (mpPm a)) = spProtocol (pmSpec (mpPm b))"
    and "spServiceRef (pmSpec (mpPm a)) = spServiceRef (pmSpec (mpPm b))"
  shows "\<not> translates inp (mpPm a) \<and> \<not> translates inp (mpPm b)"
proof (rule ccontr)
  assume tr: "\<not> ?thesis"
  have pms: "mpPm a \<in> set (inPortMaps inp)" "mpPm b \<in> set (inPortMaps inp)"
    using a(1) b(1) by (simp_all flip: resolveMappings_pms [of asSel inp "newIndex inp"])
  have "pmKey (mpPm a) \<noteq> pmKey (mpPm b)" using resolveMappings_eq_pm assms by blast
  then consider "earlier (mpPm a) (mpPm b)" | "earlier (mpPm b) (mpPm a)"
    using earlier_total by blast
  then show False
  proof cases
    case 1
    then have "sharesTarget inp (mpPm b) (mpPm a)" using tr assms by (auto simp: sharesTarget_def)
    then show ?thesis
      using accepted_valid [OF assms(1) b] pms(1) unfolding validateStandalone_valid newMapping_sel
      by blast
  next
    case 2
    then have "sharesTarget inp (mpPm a) (mpPm b)" using tr assms by (auto simp: sharesTarget_def)
    then show ?thesis
      using accepted_valid [OF assms(1) a] pms(2) unfolding validateStandalone_valid newMapping_sel
      by blast
  qed
qed

text \<open>Two mappings of the example that reach one service port, each on the port the pod listens on.\<close>

definition exShared :: Inputs where
  "exShared = (exInputs ''a'')\<lparr>inPortMaps := [exPM ''g'' 1 ''s'' ProtocolTCP 81 None ''w'',
     exPM ''h'' 2 ''m'' ProtocolTCP 81 None ''w'']\<rparr>"

lemma translated_target_unshared_witness:
  "\<not> translates exShared (mpPm (exResolved exShared ! 0)) \<and>
   \<not> translates exShared (mpPm (exResolved exShared ! 1))"
proof (rule translated_target_unshared)
  have l: "length (exResolved exShared) = 2" by code_simp
  show "uniquePortMaps exShared" by code_simp
  show "exResolved exShared ! 0 \<in> set (exResolved exShared)"
    "exResolved exShared ! 1 \<in> set (exResolved exShared)" by (simp_all add: l)
qed code_simp+

end
