(* ===== verification/Links.thy ===== *)
theory Links
  imports Conflicts
begin

text \<open>
  The cluster-wide pool of return-link slots (\<open>reconcile/links.go\<close>): which node pairs need a link,
  which Link object each pair uses, which Links to create, mark or delete, and the numbers of the
  link at a slot: mark, table, VNI, device name and the two addresses of each family. A slot is a
  natural number; \<open>slotOf\<close> admits only those below \<open>linkSlots\<close>.
\<close>

section \<open>Constants\<close>

definition linkSlots :: nat where [const_defs]: "linkSlots = 1024"
definition linkSlotPrefix :: string where [const_defs]: "linkSlotPrefix = ''slot-''"
definition vniBase :: "32 word" where [const_defs]: "vniBase = 7000"
definition tableBase :: "32 word" where [const_defs]: "tableBase = 10000"
definition defaultLinkPort :: "16 word" where [const_defs]: "defaultLinkPort = 4790"
definition unusedLinkAge :: int where [const_defs]: "unusedLinkAge = 24 * 3600 * 1000000000"
definition ipv6MinMTU :: "32 word" where [const_defs]: "ipv6MinMTU = 1280"
definition markBase :: "32 word" where [const_defs]: "markBase = 0x6b700000"

text \<open>169.254.64.0/21 and fd64:f5ac:e961::1:0/112, parsed when the package loads.\<close>

definition linkSubnet :: prefix where [const_defs]: "linkSubnet = prefixFrom (V4 0xa9fe4000) 21"
definition linkSubnet6 :: prefix where [const_defs]:
  "linkSubnet6 = prefixFrom (V6 0xfd64f5ace96100000000000000010000 []) 112"

section \<open>Slots, classes and pairs\<close>

definition linkMark :: "nat \<Rightarrow> 32 word" where
  "linkMark slot =
     (let s = of_nat slot in markBase OR (s AND 0xff) OR push_bit 12 (drop_bit 8 s))"

record linkClass =
  lcKind :: string
  lcName :: string

record neededPair =
  npClass :: linkClass
  npPeers :: "string \<times> string"
  npHolders :: "string set"

definition sortedPair :: "string \<Rightarrow> string \<Rightarrow> string \<times> string" where
  "sortedPair a b = (if a \<le> b then (a, b) else (b, a))"

definition pairKey :: "string \<Rightarrow> string \<Rightarrow> string" where
  "pairKey a b = (let p = sortedPair a b in fst p @ ''/'' @ snd p)"

definition classLinkKey :: "linkClass \<Rightarrow> string \<times> string \<Rightarrow> string" where
  "classLinkKey c peers = lcKind c @ ''/'' @ lcName c @ ''/'' @ fst peers @ ''/'' @ snd peers"

definition npKey :: "neededPair \<Rightarrow> string" where
  "npKey p = classLinkKey (npClass p) (npPeers p)"

definition specKey :: "LinkObj \<Rightarrow> string option" where
  "specKey l =
     (case lkPeers (lkSpec l) of
        [a, b] \<Rightarrow> Some (classLinkKey \<lparr>lcKind = lkClassKind (lkSpec l), lcName = lkClassName (lkSpec l)\<rparr>
                           (sortedPair a b))
      | _ \<Rightarrow> None)"

definition slotOf :: "string \<Rightarrow> nat option" where
  "slotOf name =
     (case cutPrefix linkSlotPrefix name of
        None \<Rightarrow> None
      | Some rest \<Rightarrow>
          (case atoi rest of
             None \<Rightarrow> None
           | Some n \<Rightarrow> if n < 0 \<or> n \<ge> int linkSlots \<or> itoa n \<noteq> rest then None else Some (nat n)))"

definition slotName :: "nat \<Rightarrow> string" where
  "slotName slot = linkSlotPrefix @ itoa (int slot)"

definition linkName :: "nat \<Rightarrow> string" where
  "linkName slot = ''kup-'' @ itoa (int slot)"

section \<open>The pairs that need a link\<close>

definition addNeeded ::
  "linkClass \<Rightarrow> string \<Rightarrow> string \<Rightarrow> (string, neededPair) gomap \<Rightarrow> (string, neededPair) gomap" where
  "addNeeded cls peer holder out =
     (let np = \<lparr>npClass = cls, npPeers = sortedPair peer holder, npHolders = {}\<rparr>; key = npKey np;
          np' = (case map_of out key of Some have \<Rightarrow> have | None \<Rightarrow> np)
      in mput key (np'\<lparr>npHolders := insert holder (npHolders np')\<rparr>) out)"

definition mappingLinkClass :: "mapping \<Rightarrow> linkClass" where
  "mappingLinkClass m = \<lparr>lcKind = ClassKindPortMapClass, lcName = spClassName (pmSpec (mpPm m))\<rparr>"

text \<open>Whether any node programs the mapping, the guard \<open>neededPairs\<close> and \<open>buildState\<close> share.\<close>

definition programmed :: "mapping \<Rightarrow> bool" where
  "programmed m \<longleftrightarrow> mpAccepted m \<and> mpEndpoint m \<noteq> None \<and> mpEffAccepting m \<noteq> []"

definition mappingNeeds :: "mapping \<Rightarrow> (string, neededPair) gomap \<Rightarrow> (string, neededPair) gomap" where
  "mappingNeeds m out =
     (case mpEndpoint m of
        None \<Rightarrow> out
      | Some e \<Rightarrow>
          if \<not> programmed m \<or> \<not> mpRemote m then out
          else foldl (\<lambda>o' peer. addNeeded (mappingLinkClass m) peer (ceNode e) o') out
                 (remoteProgrammers m (ceNode e)))"

definition neededPairs :: "mapping list \<Rightarrow> (string, neededPair) gomap" where
  "neededPairs ms = foldl (\<lambda>out m. mappingNeeds m out) [] ms"

section \<open>Allocation\<close>

record heldLink =
  hlLink :: LinkObj
  hlSlot :: nat

record linkAlloc =
  alByKey :: "string \<rightharpoonup> heldLink"
  alDuplicates :: "string \<Rightarrow> heldLink list"
  alNeeded :: "(string, neededPair) gomap"
  alNewly :: "(string, nat) gomap"
  alExhausted :: "linkClass set"
  alAll :: "heldLink list"

text \<open>The loop of \<open>lowestFree\<close> with the number of slots left to look at.\<close>

fun freeFrom :: "nat set \<Rightarrow> nat \<Rightarrow> nat \<Rightarrow> nat option" where
  "freeFrom used s 0 = None"
| "freeFrom used s (Suc n) = (if s \<notin> used then Some s else freeFrom used (Suc s) n)"

definition lowestFree :: "nat set \<Rightarrow> nat \<Rightarrow> nat option" where
  "lowestFree used tot = freeFrom used 0 tot"

text \<open>The Links of the pool: a name outside it is ignored, a malformed spec holds its slot only.\<close>

definition poolLinks :: "LinkObj list \<Rightarrow> heldLink list" where
  "poolLinks links =
     sortBy (\<lambda>a b. hlSlot a < hlSlot b)
       (concat (map (\<lambda>l. case slotOf (linkObjName l) of
            None \<Rightarrow> []
          | Some slot \<Rightarrow> (if specKey l = None then [] else [\<lparr>hlLink = l, hlSlot = slot\<rparr>])) links))"

definition usedSlots :: "LinkObj list \<Rightarrow> nat set" where
  "usedSlots links = set (concat (map (\<lambda>l. case slotOf (linkObjName l) of None \<Rightarrow> [] | Some s \<Rightarrow> [s]) links))"

text \<open>\<open>key, _ := specKey(h.link)\<close>: the key, empty for a malformed spec.\<close>

definition heldKey :: "heldLink \<Rightarrow> string" where
  "heldKey h = (case specKey (hlLink h) of Some k \<Rightarrow> k | None \<Rightarrow> [])"

fun claimKeys ::
  "heldLink list \<Rightarrow> (string \<rightharpoonup> heldLink) \<times> (string \<Rightarrow> heldLink list) \<Rightarrow>
   (string \<rightharpoonup> heldLink) \<times> (string \<Rightarrow> heldLink list)" where
  "claimKeys [] acc = acc"
| "claimKeys (h # hs) (byKey, dups) =
     (let key = heldKey h
      in if byKey key \<noteq> None then claimKeys hs (byKey, dups(key := dups key @ [h]))
         else claimKeys hs (byKey(key \<mapsto> h), dups))"

fun pickSlots ::
  "(string, neededPair) gomap \<Rightarrow> string list \<Rightarrow> nat set \<Rightarrow> (string, nat) gomap \<Rightarrow> linkClass set \<Rightarrow>
   (string, nat) gomap \<times> linkClass set" where
  "pickSlots needed [] used newly exhausted = (newly, exhausted)"
| "pickSlots needed (k # ks) used newly exhausted =
     (case lowestFree used linkSlots of
        None \<Rightarrow> pickSlots needed ks used newly
                  (case map_of needed k of Some np \<Rightarrow> insert (npClass np) exhausted | None \<Rightarrow> exhausted)
      | Some slot \<Rightarrow> pickSlots needed ks (insert slot used) (mput k slot newly) exhausted)"

definition allocateLinks :: "LinkObj list \<Rightarrow> (string, neededPair) gomap \<Rightarrow> linkAlloc" where
  "allocateLinks links needed =
     (let all = poolLinks links;
          (byKey, dups) = claimKeys all (Map.empty, \<lambda>_. []);
          keys = sort (filter (\<lambda>k. byKey k = None) (map fst needed));
          (newly, exhausted) = pickSlots needed keys (usedSlots links) [] {}
      in \<lparr>alByKey = byKey, alDuplicates = dups, alNeeded = needed, alNewly = newly,
          alExhausted = exhausted, alAll = all\<rparr>)"

definition slotFor :: "linkAlloc \<Rightarrow> linkClass \<Rightarrow> string \<Rightarrow> string \<Rightarrow> nat option" where
  "slotFor a cls x y = map_option hlSlot (alByKey a (classLinkKey cls (sortedPair x y)))"

text \<open>\<^term>\<open>None\<close> also for a mapping with no endpoint, where the code would dereference nil.\<close>

definition landedSlotFor :: "linkAlloc \<Rightarrow> mapping \<Rightarrow> string \<Rightarrow> nat option" where
  "landedSlotFor a m peer =
     (case mpEndpoint m of None \<Rightarrow> None | Some e \<Rightarrow> slotFor a (mappingLinkClass m) peer (ceNode e))"

section \<open>Writes to the pool\<close>

record LinkStatusUpdate =
  luName :: string
  luResourceVersion :: string
  luUnusedSince :: "int option"

record LinkDelete =
  ldName :: string
  ldResourceVersion :: string

record LinkActions =
  acCreate :: "LinkObj list"
  acStatus :: "LinkStatusUpdate list"
  acDelete :: "LinkDelete list"

definition newLinkObj :: "neededPair \<Rightarrow> nat \<Rightarrow> LinkObj" where
  "newLinkObj np slot =
     \<lparr>lkMeta = \<lparr>omName = slotName slot, omNamespace = [], omGeneration = 0, omCreationTimestamp = 0,
                omResourceVersion = [], omLabels = []\<rparr>,
      lkSpec = \<lparr>lkClassKind = lcKind (npClass np), lkClassName = lcName (npClass np),
                lkPeers = [fst (npPeers np), snd (npPeers np)]\<rparr>,
      lkStatus = \<lparr>lkUnusedSince = None\<rparr>\<rparr>"

definition holds :: "linkAlloc \<Rightarrow> string \<Rightarrow> string \<Rightarrow> bool" where
  "holds a key node =
     (case map_of (alNeeded a) key of None \<Rightarrow> False | Some np \<Rightarrow> node \<in> npHolders np)"

definition createFor :: "linkAlloc \<Rightarrow> string \<Rightarrow> string \<Rightarrow> LinkObj list" where
  "createFor a this k =
     (case (map_of (alNeeded a) k, map_of (alNewly a) k) of
        (Some np, Some slot) \<Rightarrow> (if this \<in> npHolders np then [newLinkObj np slot] else [])
      | _ \<Rightarrow> [])"

text \<open>The switch of \<open>linkActions\<close> for one Link: a status update, a delete, or nothing.\<close>

definition heldAction ::
  "linkAlloc \<Rightarrow> string \<Rightarrow> int \<Rightarrow> heldLink \<Rightarrow> LinkStatusUpdate list \<times> LinkDelete list" where
  "heldAction a this now h =
     (let key = heldKey h;
          isNeeded = (map_of (alNeeded a) key \<noteq> None);
          isDuplicate = ((case alByKey a key of Some h' \<Rightarrow> hlSlot h' | None \<Rightarrow> 0) \<noteq> hlSlot h);
          since = lkUnusedSince (lkStatus (hlLink h));
          name = linkObjName (hlLink h); rv = omResourceVersion (lkMeta (hlLink h));
          del = \<lparr>ldName = name, ldResourceVersion = rv\<rparr>
      in if isNeeded \<and> isDuplicate then (if holds a key this then ([], [del]) else ([], []))
         else if isNeeded \<and> since \<noteq> None then
           ([\<lparr>luName = name, luResourceVersion = rv, luUnusedSince = None\<rparr>], [])
         else if \<not> isNeeded \<and> since = None then
           ([\<lparr>luName = name, luResourceVersion = rv, luUnusedSince = Some now\<rparr>], [])
         else (case since of
           None \<Rightarrow> ([], [])
         | Some t \<Rightarrow> if \<not> isNeeded \<and> now - t > unusedLinkAge then ([], [del]) else ([], [])))"

definition linkActions :: "linkAlloc \<Rightarrow> string \<Rightarrow> int \<Rightarrow> LinkActions" where
  "linkActions a this now =
     (let acts = map (heldAction a this now) (alAll a)
      in \<lparr>acCreate = concat (map (createFor a this) (sort (map fst (alNewly a)))),
          acStatus = concat (map fst acts), acDelete = concat (map snd acts)\<rparr>)"

section \<open>The numbers of a link\<close>

record linkParams =
  lpSlot :: nat
  lpName :: string
  lpLocalAddr :: addr
  lpRemoteAddr :: addr
  lpThisEnd :: addr
  lpPeerEnd :: addr
  lpLinkAddr :: prefix
  lpHas6 :: bool
  lpThisEnd6 :: addr
  lpPeerEnd6 :: addr
  lpLinkAddr6 :: prefix
  lpPeerNode32 :: prefix
  lpMark :: "32 word"
  lpTable :: "32 word"
  lpVni :: "32 word"
  lpPort :: "16 word"
  lpMtu :: "32 word"

definition linkParamsZero :: linkParams where
  "linkParamsZero =
     \<lparr>lpSlot = 0, lpName = [], lpLocalAddr = AddrZero, lpRemoteAddr = AddrZero, lpThisEnd = AddrZero, lpPeerEnd = AddrZero,
      lpLinkAddr = prefixZero, lpHas6 = False, lpThisEnd6 = AddrZero, lpPeerEnd6 = AddrZero, lpLinkAddr6 = prefixZero,
      lpPeerNode32 = prefixZero, lpMark = 0, lpTable = 0, lpVni = 0, lpPort = 0, lpMtu = 0\<rparr>"

text \<open>\<^term>\<open>None\<close> is the panic of \<open>As4\<close> on a subnet with no IPv4 form.\<close>

definition nthSlash31 :: "prefix \<Rightarrow> nat \<Rightarrow> (addr \<times> addr) option" where
  "nthSlash31 subnet slot =
     (case as4 (pfxAddr subnet) of
        None \<Rightarrow> None
      | Some base \<Rightarrow> (let v = base + of_nat slot * 2 in Some (V4 v, V4 (v + 1))))"

text \<open>The two 64-bit halves are put back as the high half times \<open>2 ^ 64\<close> plus the low half.\<close>

definition nthSlash127 :: "prefix \<Rightarrow> nat \<Rightarrow> addr \<times> addr" where
  "nthSlash127 subnet slot =
     (let b = as16 (pfxAddr subnet); hi = ucast (drop_bit 64 b) :: 64 word; lo = ucast b :: 64 word;
          at = (\<lambda>off. let l = lo + off; carry = (if l < lo then 1 else 0)
                      in V6 (ucast (hi + carry) * 0x10000000000000000 + ucast l) []);
          off = of_nat slot * 2
      in (at off, at (off + 1)))"

definition linkPort :: "Inputs \<Rightarrow> 16 word" where
  "linkPort inp = (if inLinkPort inp \<noteq> 0 then inLinkPort inp else defaultLinkPort)"

definition linkMTUFor :: "int \<Rightarrow> int \<Rightarrow> bool \<Rightarrow> 32 word" where
  "linkMTUFor thisUnderlay peerUnderlay outerIsV4 =
     (let mtu = LinkMTUBetween thisUnderlay peerUnderlay outerIsV4
      in if mtu \<le> 0 then 0 else word_of_int mtu)"

definition classUnderlay :: "PortMapClass \<Rightarrow> string \<Rightarrow> int" where
  "classUnderlay c name = (case classNodeRow c name of Some row \<Rightarrow> nsUnderlayMTU row | None \<Rightarrow> 0)"

definition linkEnds :: "string \<Rightarrow> string \<Rightarrow> addr \<times> addr \<Rightarrow> addr \<times> addr" where
  "linkEnds thisNode peer p =
     (if thisNode = fst (sortedPair thisNode peer) then p else (snd p, fst p))"

definition buildLinkParams ::
  "index \<Rightarrow> (string \<Rightarrow> int) \<Rightarrow> string \<Rightarrow> string \<Rightarrow> nat \<Rightarrow> 16 word \<Rightarrow> linkParams option" where
  "buildLinkParams idx underlay thisNode peer slot port =
     (case (parseAddr (nodeAddrOf idx thisNode), parseAddr (nodeAddrOf idx peer), nthSlash31 linkSubnet slot) of
        (Some localA, Some remote, Some pair) \<Rightarrow>
          (let (thisEnd, peerEnd) = linkEnds thisNode peer pair;
               (thisEnd6, peerEnd6) = linkEnds thisNode peer (nthSlash127 linkSubnet6 slot);
               mtu = linkMTUFor (underlay thisNode) (underlay peer) (is4 localA \<and> is4 remote);
               has6 = (mtu = 0 \<or> mtu \<ge> ipv6MinMTU)
           in Some \<lparr>lpSlot = slot, lpName = linkName slot, lpLocalAddr = localA, lpRemoteAddr = remote,
                    lpThisEnd = thisEnd, lpPeerEnd = peerEnd, lpLinkAddr = prefixFrom thisEnd 31,
                    lpHas6 = has6,
                    lpThisEnd6 = (if has6 then thisEnd6 else AddrZero),
                    lpPeerEnd6 = (if has6 then peerEnd6 else AddrZero),
                    lpLinkAddr6 = (if has6 then prefixFrom thisEnd6 127 else prefixZero),
                    lpPeerNode32 = prefixFrom remote 32,
                    lpMark = linkMark slot, lpTable = tableBase + of_nat slot,
                    lpVni = vniBase + of_nat slot, lpPort = port, lpMtu = mtu\<rparr>)
      | _ \<Rightarrow> None)"

definition deprecatedVxlanFields :: "PortMapClass \<Rightarrow> string list" where
  "deprecatedVxlanFields c =
     (case rpVxlan (csReturnPath (pcSpec c)) of
        None \<Rightarrow> []
      | Some v \<Rightarrow>
          (if vcVNI v \<noteq> 0 then [''returnPath.vxlan.vni''] else []) @
          (if vcPort v \<noteq> 0 then [''returnPath.vxlan.port''] else []) @
          (if vcSubnet v \<noteq> [] then [''returnPath.vxlan.subnet''] else []) @
          (if vcSubnet6 v \<noteq> [] then [''returnPath.vxlan.subnet6''] else []))"

section \<open>Lemmas: names and keys\<close>

lemma itoa_int [simp]: "itoa (int n) = itoa_nat n"
  by (simp add: itoa_def)

lemma slotOf_iff: "slotOf name = Some s \<longleftrightarrow> s < linkSlots \<and> name = slotName s"
proof
  assume "slotOf name = Some s"
  then show "s < linkSlots \<and> name = slotName s"
    by (auto simp: slotOf_def slotName_def cutPrefix_Some itoa_def split: option.splits if_splits)
next
  assume s: "s < linkSlots \<and> name = slotName s"
  then have "s < 2 ^ 63" by (simp add: linkSlots_def)
  with s show "slotOf name = Some s"
    by (simp add: slotOf_def slotName_def atoi_itoa_nat)
qed

lemma slotName_inj [simp]: "slotName a = slotName b \<longleftrightarrow> a = b"
  by (simp add: slotName_def)

lemma linkName_inj [simp]: "linkName a = linkName b \<longleftrightarrow> a = b"
  by (simp add: linkName_def)

lemma sortedPair_sym: "sortedPair a b = sortedPair b a"
  by (auto simp: sortedPair_def)

lemma sortedPair_eq: "sortedPair a b = sortedPair c d \<longleftrightarrow> {a, b} = {c, d}"
  by (auto simp: sortedPair_def doubleton_eq_iff)

text \<open>Kubernetes object names and the two class kinds hold no slash.\<close>

definition noSlash :: "string \<Rightarrow> bool" where
  "noSlash s \<longleftrightarrow> CHR ''/'' \<notin> set s"

lemma slash_split:
  "noSlash a \<Longrightarrow> noSlash b \<Longrightarrow> a @ CHR ''/'' # x = b @ CHR ''/'' # y \<longleftrightarrow> a = b \<and> x = y"
  by (auto simp: noSlash_def append_eq_append_conv2 append_eq_Cons_conv Cons_eq_append_conv)

lemma classLinkKey_inj:
  assumes "noSlash (lcKind c)" "noSlash (lcName c)" "noSlash (fst p)"
    and "noSlash (lcKind c')" "noSlash (lcName c')" "noSlash (fst p')"
  shows "classLinkKey c p = classLinkKey c' p' \<longleftrightarrow> c = c' \<and> p = p'"
  using assms by (auto simp: classLinkKey_def slash_split prod_eq_iff)

section \<open>Lemmas: marks, tables and addresses\<close>

lemma slot_word: "s < linkSlots \<Longrightarrow> take_bit 10 (of_nat s :: 32 word) = of_nat s"
  by (simp add: linkSlots_def take_bit_of_nat take_bit_nat_eq_self)

text \<open>Two words are equal when each of their 32 bits is.\<close>

lemma word32_eqI:
  fixes a b :: "32 word"
  assumes "\<forall>n \<in> {0, 1, 2, 3, 4, 5, 6, 7, 8, 9, 10, 11, 12, 13, 14, 15, 16, 17, 18, 19, 20, 21, 22, 23, 24,
    25, 26, 27, 28, 29, 30, 31}. bit a n = bit b n"
  shows "a = b"
proof (rule bit_word_eqI)
  fix n :: nat
  assume "n < LENGTH(32)"
  then show "bit a n = bit b n" by (intro assms [rule_format]) (simp, arith)
qed

definition markWord :: "32 word \<Rightarrow> 32 word" where
  "markWord w = 0x6b700000 OR (take_bit 10 w AND 0xff) OR push_bit 12 (drop_bit 8 (take_bit 10 w))"

lemma linkMark_markWord: "s < linkSlots \<Longrightarrow> linkMark s = markWord (of_nat s)"
  by (simp add: linkMark_def markWord_def markBase_def Let_def slot_word)

lemma markWord_low: "(markWord w AND 0xff) OR push_bit 8 (drop_bit 12 (markWord w) AND 3) = take_bit 10 w"
  unfolding markWord_def
  by (rule word32_eqI) (simp add: bit_simps)

lemma markWord_clear: "markWord w AND 0xcf00 = 0"
  unfolding markWord_def
  by (rule word32_eqI) (simp add: bit_simps)

lemma markWord_high: "markWord w AND 0xffff0000 = 0x6b700000"
  unfolding markWord_def
  by (rule word32_eqI) (simp add: bit_simps)

text \<open>The slot is read back from its mark, so marks of different slots differ.\<close>

lemma linkMark_inj:
  assumes "s < linkSlots" and "t < linkSlots"
  shows "linkMark s = linkMark t \<longleftrightarrow> s = t"
proof
  assume "linkMark s = linkMark t"
  then have "take_bit 10 (of_nat s :: 32 word) = take_bit 10 (of_nat t)"
    using assms markWord_low [of "of_nat s"] markWord_low [of "of_nat t"] by (simp add: linkMark_markWord)
  then have "unat (of_nat s :: 32 word) = unat (of_nat t :: 32 word)" using assms by (simp add: slot_word)
  then show "s = t"
    using assms by (simp add: linkSlots_def unsigned_of_nat take_bit_nat_eq_self)
qed simp

lemma linkMark_clear:
  assumes "s < linkSlots"
  shows "linkMark s AND 0xf00 = 0" and "linkMark s AND 0xffff0000 = markBase"
    and "linkMark s \<noteq> EgressBlockedMark" and "linkMark s \<noteq> 0"
proof -
  have c: "linkMark s AND 0xcf00 = 0" using assms by (simp add: linkMark_markWord markWord_clear)
  have "linkMark s AND 0xf00 = (linkMark s AND 0xcf00) AND 0xf00" by (simp add: and.assoc)
  then show "linkMark s AND 0xf00 = 0" by (simp add: c)
  show h: "linkMark s AND 0xffff0000 = markBase"
    using assms by (simp add: linkMark_markWord markWord_high markBase_def)
  show "linkMark s \<noteq> EgressBlockedMark" using c by (auto simp: EgressBlockedMark_def)
  show "linkMark s \<noteq> 0" using h by (auto simp: markBase_def)
qed

lemma linkTable_inj:
  assumes "s < linkSlots" and "t < linkSlots"
  shows "tableBase + of_nat s = tableBase + of_nat t \<longleftrightarrow> s = t"
    and "vniBase + of_nat s = vniBase + of_nat t \<longleftrightarrow> s = t"
    and "tableBase + of_nat s \<noteq> EgressBlockedTable"
proof -
  have inj: "(of_nat s :: 32 word) = of_nat t \<longleftrightarrow> s = t"
    using assms by (metis linkMark_inj linkMark_markWord)
  then show "tableBase + of_nat s = tableBase + of_nat t \<longleftrightarrow> s = t"
    and "vniBase + of_nat s = vniBase + of_nat t \<longleftrightarrow> s = t" by simp_all
  have "(of_nat s :: 32 word) < 1024"
    using assms(1) by (simp add: linkSlots_def word_less_nat_alt unsigned_of_nat take_bit_nat_eq_self)
  then show "tableBase + of_nat s \<noteq> EgressBlockedTable"
    by (auto simp: const_defs EgressBlockedTable_def dest!: eq_diff_eq [THEN iffD2] simp flip: add.commute)
qed

text \<open>The two addresses of a slot in each family.\<close>

lemma nthSlash31_link:
  "nthSlash31 linkSubnet slot = Some (V4 (0xa9fe4000 + of_nat (2 * slot)), V4 (0xa9fe4000 + of_nat (2 * slot + 1)))"
  by (simp add: nthSlash31_def linkSubnet_def Let_def)

lemma join_halves: "push_bit 64 (ucast (x :: 64 word)) OR ucast (l :: 64 word) =
    (ucast x * 2 ^ 64 + ucast l :: 128 word)"
proof -
  have "push_bit 64 (ucast x) + ucast l = (push_bit 64 (ucast x) OR ucast l :: 128 word)"
    by (rule disjunctive_add_eq_or) (rule bit_word_eqI, auto simp: bit_simps dest: bit_imp_le_length)
  then show ?thesis by (simp add: push_bit_eq_mult)
qed

text \<open>The carry between the two 64-bit halves makes the sum the 128-bit one.\<close>

lemma ucast_add_low:
  fixes a b :: "64 word"
  shows "(ucast (a + b) :: 128 word) + (if a + b < a then 2 ^ 64 else 0) = ucast a + ucast b"
proof -
  have u: "uint a < 2 ^ 64" "uint b < 2 ^ 64" "0 \<le> uint a" "0 \<le> uint b"
    using uint_lt2p [of a] uint_lt2p [of b] by simp_all
  have c: "(ucast w :: 128 word) = word_of_int (uint w)" for w :: "64 word" by simp
  have s: "uint (a + b) = (if uint a + uint b < 2 ^ 64 then uint a + uint b else uint a + uint b - 2 ^ 64)"
    using u by (simp add: uint_plus_if_size word_size)
  then have "a + b < a \<longleftrightarrow> 2 ^ 64 \<le> uint a + uint b"
    using u by (auto simp: word_less_def split: if_splits)
  then show ?thesis unfolding c s by (simp flip: c)
qed

lemma ucast_add_high:
  fixes a b :: "64 word"
  shows "(ucast (a + b) :: 128 word) * 2 ^ 64 = ucast a * 2 ^ 64 + ucast b * 2 ^ 64"
proof -
  let ?c = "if a + b < a then 2 ^ 64 else 0 :: 128 word"
  have "ucast a * 2 ^ 64 + ucast b * 2 ^ 64 = (ucast (a + b) + ?c) * (2 ^ 64 :: 128 word)"
    by (simp only: ucast_add_low distrib_right)
  moreover have "?c * 2 ^ 64 = 0" by simp
  ultimately show ?thesis by (simp only: distrib_right) simp
qed

lemma nthSlash127_add:
  "nthSlash127 p slot = (let b = as16 (pfxAddr p) in
     (V6 (b + ucast (of_nat slot * 2 :: 64 word)) [], V6 (b + ucast (of_nat slot * 2 + 1 :: 64 word)) []))"
proof -
  let ?b = "as16 (pfxAddr p)"
  let ?hi = "ucast (drop_bit 64 ?b) :: 64 word" and ?lo = "ucast ?b :: 64 word"
  have "?b = push_bit 64 (ucast ?hi) OR ucast ?lo"
    by (rule bit_word_eqI) (auto simp: bit_simps)
  then have b: "?b = ucast ?hi * 2 ^ 64 + ucast ?lo" by (simp only: join_halves)
  have "ucast (?hi + (if ?lo + off < ?lo then 1 else 0)) * 2 ^ 64 + ucast (?lo + off) = ?b + ucast off"
    for off :: "64 word"
  proof -
    have "ucast (?hi + (if ?lo + off < ?lo then 1 else 0)) * 2 ^ 64 + ucast (?lo + off) =
        ucast ?hi * 2 ^ 64 + (ucast (?lo + off) + (if ?lo + off < ?lo then 2 ^ 64 else 0) :: 128 word)"
      by (simp only: ucast_add_high) simp
    also have "\<dots> = ?b + ucast off" unfolding ucast_add_low by (subst b) (simp only: add.assoc)
    finally show ?thesis .
  qed
  then show ?thesis by (simp add: nthSlash127_def Let_def)
qed

lemma nthSlash127_link:
  assumes "slot < linkSlots"
  shows "nthSlash127 linkSubnet6 slot =
    (V6 (0xfd64f5ace96100000000000000010000 + of_nat (2 * slot)) [],
     V6 (0xfd64f5ace96100000000000000010000 + of_nat (2 * slot + 1)) [])"
proof -
  have "(ucast (of_nat n :: 64 word) :: 128 word) = of_nat n" if "n < 2048" for n
    using that by (simp add: unsigned_of_nat take_bit_nat_eq_self)
  from this [of "2 * slot"] this [of "2 * slot + 1"]
  have "(ucast (of_nat slot * 2 :: 64 word) :: 128 word) = of_nat (2 * slot)"
    and "(ucast (of_nat slot * 2 + 1 :: 64 word) :: 128 word) = of_nat (2 * slot + 1)"
    using assms by (simp_all add: linkSlots_def mult.commute add.commute)
  then show ?thesis unfolding nthSlash127_add by (simp add: linkSubnet6_def Let_def)
qed

lemma small_of_nat_eq:
  assumes "m < 2048" and "n < 2048" and "16 \<le> LENGTH('a)"
  shows "(of_nat m :: 'a::len word) = of_nat n \<longleftrightarrow> m = n"
proof -
  have "(2048 :: nat) \<le> 2 ^ LENGTH('a)"
    using power_increasing [OF assms(3), of "2 :: nat"] by simp
  then show ?thesis using assms(1,2) by (simp add: word_of_nat_eq_iff take_bit_nat_eq_self)
qed

text \<open>The four addresses of a slot, and that no two slots share one.\<close>

definition slotAddrs :: "nat \<Rightarrow> addr set" where
  "slotAddrs slot =
     (case nthSlash31 linkSubnet slot of None \<Rightarrow> {} | Some (a, b) \<Rightarrow> {a, b}) \<union>
     (let (a, b) = nthSlash127 linkSubnet6 slot in {a, b})"

lemma slotAddrs_eq:
  assumes "slot < linkSlots"
  shows "slotAddrs slot =
    {V4 (0xa9fe4000 + of_nat (2 * slot)), V4 (0xa9fe4000 + of_nat (2 * slot + 1)),
     V6 (0xfd64f5ace96100000000000000010000 + of_nat (2 * slot)) [],
     V6 (0xfd64f5ace96100000000000000010000 + of_nat (2 * slot + 1)) []}"
  unfolding slotAddrs_def nthSlash31_link nthSlash127_link [OF assms] Let_def prod.case option.case by auto

lemma offset_addrs_disjoint:
  assumes "a < 2048" "b < 2048" "c < 2048" "d < 2048" and "{a, b} \<inter> {c, d} = {}"
  shows "{V4 (k + of_nat a), V4 (k + of_nat b), V6 (l + of_nat a) [], V6 (l + of_nat b) []} \<inter>
    {V4 (k + of_nat c), V4 (k + of_nat d), V6 (l + of_nat c) [], V6 (l + of_nat d) []} = {}"
  using assms by (simp add: small_of_nat_eq)

lemma slotAddrs_disjoint:
  assumes "s < linkSlots" and "t < linkSlots" and "s \<noteq> t"
  shows "slotAddrs s \<inter> slotAddrs t = {}"
proof -
  have n: "2 * s < 2048" "2 * s + 1 < 2048" "2 * t < 2048" "2 * t + 1 < 2048"
    using assms by (simp_all add: linkSlots_def)
  have "{2 * s, 2 * s + 1} \<inter> {2 * t, 2 * t + 1} = {}" using assms(3) by simp
  then show ?thesis
    unfolding slotAddrs_eq [OF assms(1)] slotAddrs_eq [OF assms(2)] by (intro offset_addrs_disjoint n)
qed

lemma card_slotAddrs: "s < linkSlots \<Longrightarrow> card (slotAddrs s) = 4"
  by (simp add: slotAddrs_eq)

section \<open>Lemmas: allocation\<close>

text \<open>The free slots in order; \<open>lowestFree\<close> is the first of them.\<close>

definition freeSlots :: "nat set \<Rightarrow> nat list" where
  "freeSlots used = filter (\<lambda>s. s \<notin> used) [0..<linkSlots]"

lemma freeFrom_filter:
  "freeFrom used s n = (case filter (\<lambda>k. k \<notin> used) [s..<s + n] of [] \<Rightarrow> None | x # _ \<Rightarrow> Some x)"
proof (induction n arbitrary: s)
  case (Suc n)
  have "[s..<s + Suc n] = s # [Suc s..<Suc s + n]" by (simp add: upt_conv_Cons del: upt_Suc)
  with Suc [of "Suc s"] show ?case by (simp del: upt_Suc)
qed simp

lemma lowestFree_freeSlots:
  "lowestFree used linkSlots = (case freeSlots used of [] \<Rightarrow> None | s # _ \<Rightarrow> Some s)"
  by (simp add: lowestFree_def freeSlots_def freeFrom_filter)

lemma set_freeSlots: "set (freeSlots used) = {s. s < linkSlots \<and> s \<notin> used}"
  by (auto simp: freeSlots_def)

lemma sorted_freeSlots: "sorted_wrt (<) (freeSlots used)"
  by (simp add: freeSlots_def sorted_wrt_filter)

lemma distinct_freeSlots [simp]: "distinct (freeSlots used)"
  by (simp add: freeSlots_def)

lemma freeSlots_insert: "freeSlots used = s # rest \<Longrightarrow> freeSlots (insert s used) = rest"
proof -
  assume f: "freeSlots used = s # rest"
  have "freeSlots (insert s used) = filter (\<lambda>k. k \<noteq> s) (freeSlots used)"
    by (auto simp: freeSlots_def intro: filter_cong)
  also have "\<dots> = rest" using distinct_freeSlots [of used] by (auto simp: f filter_id_conv)
  finally show ?thesis .
qed

lemma mput_new: "k \<notin> fst ` set m \<Longrightarrow> mput k v m = m @ [(k, v)]"
  by (induction m) auto

text \<open>The keys get the free slots in order, and the classes of the keys left over are exhausted.\<close>

lemma pickSlots_zip:
  assumes "distinct ks" and "set ks \<inter> fst ` set newly = {}"
  shows "pickSlots needed ks used newly exhausted =
    (newly @ zip ks (freeSlots used),
     exhausted \<union> {npClass np | k np. k \<in> set (drop (length (freeSlots used)) ks) \<and> map_of needed k = Some np})"
  using assms
proof (induction ks arbitrary: used newly exhausted)
  case (Cons k ks)
  show ?case
  proof (cases "freeSlots used")
    case Nil
    with Cons show ?thesis
      by (auto simp: lowestFree_freeSlots split: option.splits)
  next
    case (Cons s rest)
    with Cons.prems Cons.IH [of "mput k s newly" "insert s used" exhausted] freeSlots_insert [OF Cons]
    show ?thesis by (auto simp: lowestFree_freeSlots mput_new)
  qed
qed simp

lemma claimKeys_find:
  "fst (claimKeys hs (byKey, dups)) k =
     (case byKey k of Some h \<Rightarrow> Some h | None \<Rightarrow> find (\<lambda>h. heldKey h = k) hs)"
  by (induction hs arbitrary: byKey dups) (auto simp: Let_def split: option.splits)

lemma byKey_find: "alByKey (allocateLinks links needed) k = find (\<lambda>h. heldKey h = k) (poolLinks links)"
  using claimKeys_find [of "poolLinks links" Map.empty "\<lambda>_. []" k]
  by (auto simp: allocateLinks_def Let_def split: prod.splits)

lemma alAll_pool [simp]: "alAll (allocateLinks links needed) = poolLinks links"
  and alNeeded_alloc [simp]: "alNeeded (allocateLinks links needed) = needed"
  by (simp_all add: allocateLinks_def Let_def split: prod.splits)

lemma in_poolLinks:
  "h \<in> set (poolLinks links) \<longleftrightarrow>
   hlLink h \<in> set links \<and> hlSlot h < linkSlots \<and> linkObjName (hlLink h) = slotName (hlSlot h) \<and>
   specKey (hlLink h) \<noteq> None"
proof -
  have "h \<in> set (poolLinks links) \<longleftrightarrow>
      hlLink h \<in> set links \<and> slotOf (linkObjName (hlLink h)) = Some (hlSlot h) \<and> specKey (hlLink h) \<noteq> None"
    by (cases h) (auto simp: poolLinks_def split: option.splits if_splits)
  then show ?thesis by (simp add: slotOf_iff)
qed

lemma usedSlots_names: "s \<in> usedSlots links \<longleftrightarrow> s < linkSlots \<and> slotName s \<in> linkObjName ` set links"
proof -
  have "s \<in> usedSlots links \<longleftrightarrow> (\<exists>l \<in> set links. slotOf (linkObjName l) = Some s)"
    by (force simp: usedSlots_def split: option.splits)
  then show ?thesis by (auto simp: slotOf_iff image_iff eq_commute [of "slotName s"])
qed

interpretation held_slot: keyed_less "\<lambda>a b. hlSlot a < hlSlot b" hlSlot
  by unfold_locales simp

text \<open>A key uses the Link of its lowest slot.\<close>

lemma byKey_Some:
  assumes "alByKey (allocateLinks links needed) k = Some h"
  shows "h \<in> set (poolLinks links) \<and> heldKey h = k \<and>
    (\<forall>h' \<in> set (poolLinks links). heldKey h' = k \<longrightarrow> hlSlot h \<le> hlSlot h')"
proof -
  obtain i where i: "i < length (poolLinks links)" "heldKey (poolLinks links ! i) = k" "h = poolLinks links ! i"
    and least: "\<forall>j<i. heldKey (poolLinks links ! j) \<noteq> k"
    using assms by (auto simp: byKey_find find_Some_iff)
  have "sorted (map hlSlot (poolLinks links))" by (simp only: poolLinks_def held_slot.sort_sorted)
  then have "hlSlot h \<le> hlSlot (poolLinks links ! j)" if "j < length (poolLinks links)"
    "heldKey (poolLinks links ! j) = k" for j
    using that i least sorted_nth_mono [of "map hlSlot (poolLinks links)" i j] by (auto simp: not_less [symmetric])
  with i show ?thesis by (auto simp: in_set_conv_nth)
qed

lemma byKey_None:
  "alByKey (allocateLinks links needed) k = None \<longleftrightarrow> (\<forall>h \<in> set (poolLinks links). heldKey h \<noteq> k)"
  by (auto simp: byKey_find find_None_iff)

text \<open>The needed keys no Link of the pool carries, in order.\<close>

definition missingKeys :: "LinkObj list \<Rightarrow> (string, neededPair) gomap \<Rightarrow> string list" where
  "missingKeys links needed = sort (filter (\<lambda>k. k \<notin> heldKey ` set (poolLinks links)) (map fst needed))"

lemma allocateLinks_newly:
  assumes "distinct (map fst needed)"
  shows "alNewly (allocateLinks links needed) = zip (missingKeys links needed) (freeSlots (usedSlots links))"
    and "alExhausted (allocateLinks links needed) =
      {npClass np | k np. k \<in> set (drop (length (freeSlots (usedSlots links))) (missingKeys links needed)) \<and>
         map_of needed k = Some np}"
proof -
  have "(fst (claimKeys (poolLinks links) (Map.empty, \<lambda>_. [])) k = None) = (k \<notin> heldKey ` set (poolLinks links))" for k
    by (auto simp: claimKeys_find find_None_iff)
  then have "sort (filter (\<lambda>k. fst (claimKeys (poolLinks links) (Map.empty, \<lambda>_. [])) k = None) (map fst needed)) =
      missingKeys links needed" by (simp add: missingKeys_def)
  moreover have "distinct (missingKeys links needed)" using assms by (simp add: missingKeys_def)
  ultimately show "alNewly (allocateLinks links needed) = zip (missingKeys links needed) (freeSlots (usedSlots links))"
    and "alExhausted (allocateLinks links needed) =
      {npClass np | k np. k \<in> set (drop (length (freeSlots (usedSlots links))) (missingKeys links needed)) \<and>
         map_of needed k = Some np}"
    by (simp_all add: allocateLinks_def Let_def case_prod_beta pickSlots_zip)
qed

lemma distinct_addNeeded: "distinct (map fst out) \<Longrightarrow> distinct (map fst (addNeeded cls peer holder out))"
  by (simp add: addNeeded_def Let_def)

lemma distinct_foldl:
  assumes "\<And>x out. distinct (map fst out) \<Longrightarrow> distinct (map fst (f out x))" and "distinct (map fst out)"
  shows "distinct (map fst (foldl f out xs))"
  using assms(2) by (induction xs arbitrary: out) (simp_all add: assms(1))

lemma distinct_mappingNeeds: "distinct (map fst out) \<Longrightarrow> distinct (map fst (mappingNeeds m out))"
  by (auto simp: mappingNeeds_def distinct_addNeeded intro: distinct_foldl split: option.split)

lemma distinct_neededPairs [simp]: "distinct (map fst (neededPairs ms))"
  unfolding neededPairs_def by (rule distinct_foldl) (simp_all add: distinct_mappingNeeds)

section \<open>Lemmas: the two ends of a link\<close>

lemma linkEnds_sym: "x \<noteq> y \<Longrightarrow> linkEnds y x p = (snd (linkEnds x y p), fst (linkEnds x y p))"
  by (auto simp: linkEnds_def sortedPair_def)

lemma linkMTUFor_sym:
  assumes "0 < x" and "0 < y"
  shows "linkMTUFor x y v = linkMTUFor y x v"
  using LinkMTUBetween_sym [OF assms] by (simp add: linkMTUFor_def)

lemma buildLinkParams_mirror:
  assumes "x \<noteq> y" and "0 < underlay x" and "0 < underlay y"
    and a: "buildLinkParams idx underlay x y slot port = Some lp"
  obtains lp' where "buildLinkParams idx underlay y x slot port = Some lp'"
    and "lpName lp' = lpName lp" and "lpVni lp' = lpVni lp" and "lpPort lp' = lpPort lp"
    and "lpMark lp' = lpMark lp" and "lpTable lp' = lpTable lp" and "lpMtu lp' = lpMtu lp"
    and "lpLocalAddr lp' = lpRemoteAddr lp" and "lpRemoteAddr lp' = lpLocalAddr lp"
    and "lpThisEnd lp' = lpPeerEnd lp" and "lpPeerEnd lp' = lpThisEnd lp"
    and "lpHas6 lp' = lpHas6 lp" and "lpThisEnd6 lp' = lpPeerEnd6 lp" and "lpPeerEnd6 lp' = lpThisEnd6 lp"
proof -
  obtain la ra pr where p: "parseAddr (nodeAddrOf idx x) = Some la" "parseAddr (nodeAddrOf idx y) = Some ra"
    "nthSlash31 linkSubnet slot = Some pr"
    using a by (auto simp: buildLinkParams_def split: option.splits)
  have mtu: "linkMTUFor (underlay y) (underlay x) (is4 ra \<and> is4 la) =
      linkMTUFor (underlay x) (underlay y) (is4 la \<and> is4 ra)"
    using linkMTUFor_sym [OF assms(2,3)] by (simp add: conj_commute)
  have lp: "buildLinkParams idx underlay x y slot port = Some lp" by (rule a)
  show ?thesis
  proof (rule that)
    show "buildLinkParams idx underlay y x slot port = Some (the (buildLinkParams idx underlay y x slot port))"
      by (simp add: buildLinkParams_def p Let_def case_prod_beta)
  qed (use lp in \<open>auto simp: buildLinkParams_def p Let_def case_prod_beta mtu linkEnds_sym [OF assms(1)]\<close>)
qed

section \<open>Lemmas: writes to the pool\<close>

text \<open>Every needed pair is filed under its own key, with its peers in order.\<close>

definition neededOk :: "(string, neededPair) gomap \<Rightarrow> bool" where
  "neededOk needed \<longleftrightarrow> (\<forall>(k, np) \<in> set needed. npKey np = k \<and> fst (npPeers np) \<le> snd (npPeers np))"

lemma set_mput: "set (mput k v m) \<subseteq> insert (k, v) (set m)"
  by (induction m) (auto split: if_splits)

lemma neededOk_mput: "neededOk m \<Longrightarrow> npKey np = k \<Longrightarrow> fst (npPeers np) \<le> snd (npPeers np) \<Longrightarrow> neededOk (mput k np m)"
  using set_mput [of k np m] by (fastforce simp: neededOk_def)

lemma neededOk_addNeeded: "neededOk out \<Longrightarrow> neededOk (addNeeded cls peer holder out)"
  unfolding addNeeded_def Let_def
  by (rule neededOk_mput)
    (auto simp: neededOk_def npKey_def sortedPair_def dest: map_of_SomeD split: option.splits)

lemma neededOk_foldl: "neededOk out \<Longrightarrow> (\<And>x out. neededOk out \<Longrightarrow> neededOk (f out x)) \<Longrightarrow> neededOk (foldl f out xs)"
  by (induction xs arbitrary: out) simp_all

lemma neededOk_mappingNeeds: "neededOk out \<Longrightarrow> neededOk (mappingNeeds m out)"
  by (auto simp: mappingNeeds_def neededOk_addNeeded intro: neededOk_foldl split: option.split)

lemma neededOk_neededPairs [simp]: "neededOk (neededPairs ms)"
  unfolding neededPairs_def by (rule neededOk_foldl) (simp_all add: neededOk_mappingNeeds, simp add: neededOk_def)

lemma specKey_newLinkObj:
  "fst (npPeers np) \<le> snd (npPeers np) \<Longrightarrow> specKey (newLinkObj np slot) = Some (npKey np)"
  by (cases "npClass np") (simp add: specKey_def newLinkObj_def npKey_def sortedPair_def)

lemma newLinkObj_name [simp]: "linkObjName (newLinkObj np slot) = slotName slot"
  by (simp add: newLinkObj_def)

lemma heldAction_delete:
  assumes "d \<in> set (snd (heldAction a this now h))"
  shows "ldName d = linkObjName (hlLink h) \<and> ldResourceVersion d = omResourceVersion (lkMeta (hlLink h)) \<and>
    (if map_of (alNeeded a) (heldKey h) = None
     then \<exists>t. lkUnusedSince (lkStatus (hlLink h)) = Some t \<and> unusedLinkAge < now - t
     else (case alByKey a (heldKey h) of Some h' \<Rightarrow> hlSlot h' | None \<Rightarrow> 0) \<noteq> hlSlot h \<and> holds a (heldKey h) this)"
  using assms by (auto simp: heldAction_def Let_def split: if_splits option.splits)

lemma newly_SomeD:
  assumes "distinct (map fst needed)" and "map_of (alNewly (allocateLinks links needed)) k = Some slot"
  shows "k \<in> fst ` set needed \<and> k \<notin> heldKey ` set (poolLinks links) \<and> slot < linkSlots \<and> slot \<notin> usedSlots links"
proof -
  have "(k, slot) \<in> set (zip (missingKeys links needed) (freeSlots (usedSlots links)))"
    using map_of_SomeD [OF assms(2)] by (simp only: allocateLinks_newly [OF assms(1)])
  then have "k \<in> set (missingKeys links needed)" "slot \<in> set (freeSlots (usedSlots links))"
    by (auto dest: set_zip_leftD set_zip_rightD)
  then show ?thesis by (auto simp: missingKeys_def set_freeSlots)
qed

lemma newly_slots:
  assumes "distinct (map fst needed)"
  shows "map snd (alNewly (allocateLinks links needed)) =
    take (length (missingKeys links needed)) (freeSlots (usedSlots links))"
  by (simp add: allocateLinks_newly [OF assms] map_snd_zip_take min_def)

text \<open>A free slot below a proposed one is proposed too.\<close>

lemma take_sorted_below:
  fixes xs :: "nat list"
  assumes "sorted_wrt (<) xs" and "t < s" and "t \<in> set xs" and "s \<in> set (take n xs)"
  shows "t \<in> set (take n xs)"
proof -
  obtain i j where i: "i < n" "i < length xs" "s = xs ! i" and j: "j < length xs" "t = xs ! j"
    using assms(3,4) by (auto simp: in_set_conv_nth)
  have "j < i"
    using assms(1,2) i j
    by (metis linorder_neqE_nat order_less_asym order_less_irrefl sorted_wrt_iff_nth_less)
  then show ?thesis using i j by (auto simp: in_set_conv_nth intro!: exI [of _ j])
qed

lemma newly_least:
  assumes "distinct (map fst needed)" and "t < s" and "s \<in> snd ` set (alNewly (allocateLinks links needed))"
  shows "t \<in> usedSlots links \<or> t \<in> snd ` set (alNewly (allocateLinks links needed))"
proof -
  note n = newly_slots [OF assms(1), of links]
  have s: "s \<in> set (take (length (missingKeys links needed)) (freeSlots (usedSlots links)))"
    using assms(3) by (simp only: flip: n set_map)
  then have "s \<in> set (freeSlots (usedSlots links))" by (rule in_set_takeD)
  then have "t \<in> usedSlots links \<or> t \<in> set (freeSlots (usedSlots links))"
    using assms(2) by (auto simp: set_freeSlots)
  with take_sorted_below [OF sorted_freeSlots assms(2) _ s] show ?thesis
    by (auto simp flip: n set_map)
qed

text \<open>A later key gets a higher slot, and a key with none comes after every key that has one.\<close>

lemma zip_increasing:
  fixes xs :: "'a :: linorder list" and ys :: "'b :: linorder list"
  assumes "sorted_wrt (<) xs" and "sorted_wrt (<) ys" and "(x, y) \<in> set (zip xs ys)" and "(x', y') \<in> set (zip xs ys)" and "x < x'"
  shows "y < y'"
proof -
  obtain i j where i: "i < length xs" "i < length ys" "x = xs ! i" "y = ys ! i"
    and j: "j < length xs" "j < length ys" "x' = xs ! j" "y' = ys ! j"
    using assms(3,4) by (auto simp: set_zip)
  have "i < j"
  proof (rule ccontr)
    assume "\<not> i < j"
    then have "j = i \<or> j < i" by auto
    then show False using assms(1,5) i j by (auto simp: sorted_wrt_iff_nth_less dest: less_asym)
  qed
  with assms(2) i j show ?thesis by (simp add: sorted_wrt_iff_nth_less)
qed

lemma sorted_missingKeys: "distinct (map fst needed) \<Longrightarrow> sorted_wrt (<) (missingKeys links needed)"
  by (auto simp: missingKeys_def strict_sorted_iff distinct_map_filter)

lemma newly_increasing:
  assumes "distinct (map fst needed)" and "map_of (alNewly (allocateLinks links needed)) k = Some s"
    and "map_of (alNewly (allocateLinks links needed)) k' = Some s'" and "k < k'"
  shows "s < s'"
  using zip_increasing [OF sorted_missingKeys [OF assms(1)] sorted_freeSlots _ _ assms(4)]
    assms(2,3) [THEN map_of_SomeD] unfolding allocateLinks_newly [OF assms(1)] .

lemma unallocated:
  assumes d: "distinct (map fst needed)" and k: "map_of needed k = Some np"
    and "k \<notin> heldKey ` set (poolLinks links)" and "map_of (alNewly (allocateLinks links needed)) k = None"
  shows "npClass np \<in> alExhausted (allocateLinks links needed)"
    and "snd ` set (alNewly (allocateLinks links needed)) = set (freeSlots (usedSlots links))"
    and "map_of (alNewly (allocateLinks links needed)) k' = Some s \<Longrightarrow> k' < k"
proof -
  let ?ks = "missingKeys links needed" and ?fs = "freeSlots (usedSlots links)"
  have "k \<in> set ?ks" using assms(3) map_of_SomeD [OF k] by (force simp: missingKeys_def)
  then obtain i where i: "i < length ?ks" "k = ?ks ! i" by (auto simp: in_set_conv_nth)
  have long: "length ?fs \<le> i"
  proof (rule ccontr)
    assume "\<not> length ?fs \<le> i"
    then have "(k, ?fs ! i) \<in> set (zip ?ks ?fs)" using i by (auto simp: set_zip)
    then show False using assms(4) by (force simp: allocateLinks_newly [OF d] map_of_eq_None_iff)
  qed
  then have "k \<in> set (drop (length ?fs) ?ks)"
    using i by (auto simp: in_set_conv_nth intro!: exI [of _ "i - length ?fs"])
  then show "npClass np \<in> alExhausted (allocateLinks links needed)"
    using k by (auto simp: allocateLinks_newly [OF d])
  have "length ?fs \<le> length ?ks" using long i(1) by simp
  then show "snd ` set (alNewly (allocateLinks links needed)) = set ?fs"
    by (simp only: flip: set_map) (simp add: newly_slots [OF d])
  assume "map_of (alNewly (allocateLinks links needed)) k' = Some s"
  then have "(k', s) \<in> set (zip ?ks ?fs)" by (metis allocateLinks_newly(1) [OF d] map_of_SomeD)
  then obtain j where "j < length ?fs" "k' = ?ks ! j" by (auto simp: set_zip)
  then show "k' < k" using sorted_missingKeys [OF d, of links] i long by (simp add: sorted_wrt_iff_nth_less)
qed

section \<open>Properties\<close>

text \<open>
  A Link name denotes a slot exactly when it is the name the code prints for that slot, and
  only slots of the pool have names: parsing and printing are inverse, with no second spelling.
\<close>

theorem slot_names: "slotOf name = Some s \<longleftrightarrow> s < 1024 \<and> name = slotName s"
  using slotOf_iff by (simp add: linkSlots_def)

text \<open>
  C12. Two slots of the pool share nothing: not the packet mark, the routing table, the VNI, the
  device name, nor any of the four addresses of the link's ends. Every mark carries the
  project's prefix, leaves clear the four bits Cilium matches, and no mark or table is the one
  that holds blocked pods.
\<close>

theorem slots_share_nothing:
  assumes "s < 1024" and "t < 1024" and "s \<noteq> t"
  shows "linkMark s \<noteq> linkMark t \<and> tableBase + of_nat s \<noteq> tableBase + of_nat t \<and>
    vniBase + of_nat s \<noteq> vniBase + of_nat t \<and> linkName s \<noteq> linkName t \<and>
    slotAddrs s \<inter> slotAddrs t = {} \<and> card (slotAddrs s) = 4 \<and>
    linkMark s AND 0xf00 = 0 \<and> linkMark s AND 0xffff0000 = 0x6b700000 \<and>
    linkMark s \<noteq> EgressBlockedMark \<and> tableBase + of_nat s \<noteq> EgressBlockedTable"
proof -
  have l: "s < linkSlots" "t < linkSlots" using assms by (simp_all add: linkSlots_def)
  show ?thesis
    using assms(3) linkMark_inj [OF l] linkTable_inj [OF l] slotAddrs_disjoint [OF l assms(3)]
      card_slotAddrs [OF l(1)] linkMark_clear [OF l(1)] by (simp add: markBase_def)
qed

lemma slots_share_nothing_witness:
  "linkMark 0 \<noteq> linkMark 1023 \<and> slotAddrs 0 \<inter> slotAddrs 1023 = {} \<and> linkMark 0 AND 0xf00 = 0"
  using slots_share_nothing [of 0 1023] by simp

text \<open>
  C10. Allocation proposes only fresh slots, in the order of the keys. A needed pair that no Link of
  the pool carries gets a slot below 1024 that no Link names; no two pairs get the same, the slots
  are taken with no gap, and a pair whose key sorts later gets a higher one. A pair is left without
  one only when Links and proposals together take all 1024 slots; every pair that got one sorts
  before it, and its class is reported exhausted.
\<close>

theorem allocation_fresh:
  fixes links :: "LinkObj list" and needed :: "(string, neededPair) gomap"
  assumes "distinct (map fst needed)"
  defines "a \<equiv> allocateLinks links needed"
  shows "distinct (map snd (alNewly a)) \<and>
    (\<forall>k s. map_of (alNewly a) k = Some s \<longrightarrow>
       k \<in> fst ` set needed \<and> alByKey a k = None \<and> s < 1024 \<and> slotName s \<notin> linkObjName ` set links \<and>
       (\<forall>t < s. slotName t \<in> linkObjName ` set links \<or> t \<in> snd ` set (alNewly a)) \<and>
       (\<forall>k' s'. map_of (alNewly a) k' = Some s' \<and> k < k' \<longrightarrow> s < s')) \<and>
    (\<forall>k np. map_of needed k = Some np \<and> alByKey a k = None \<and> map_of (alNewly a) k = None \<longrightarrow>
       npClass np \<in> alExhausted a \<and> (\<forall>k' s. map_of (alNewly a) k' = Some s \<longrightarrow> k' < k) \<and>
       (\<forall>t < 1024. slotName t \<in> linkObjName ` set links \<or> t \<in> snd ` set (alNewly a)))"
proof (intro conjI allI impI)
  have bk: "alByKey a k = None \<longleftrightarrow> k \<notin> heldKey ` set (poolLinks links)" for k
    by (auto simp: a_def byKey_None)
  show "distinct (map snd (alNewly a))" by (simp add: a_def newly_slots [OF assms(1)])
  {
    fix k s
    assume m: "map_of (alNewly a) k = Some s"
    from newly_SomeD [OF assms(1) m [unfolded a_def]]
    show "k \<in> fst ` set needed" "alByKey a k = None" "s < 1024" "slotName s \<notin> linkObjName ` set links"
      by (auto simp: bk usedSlots_names linkSlots_def)
    have "s \<in> snd ` set (alNewly a)" using map_of_SomeD [OF m] by force
    then show "slotName t \<in> linkObjName ` set links \<or> t \<in> snd ` set (alNewly a)" if "t < s" for t
      using newly_least [OF assms(1) that, of links] by (auto simp: a_def usedSlots_names)
    show "s < s'" if "map_of (alNewly a) k' = Some s' \<and> k < k'" for k' s'
      using newly_increasing [OF assms(1)] m that unfolding a_def by blast
  }
  fix k np
  assume "map_of needed k = Some np \<and> alByKey a k = None \<and> map_of (alNewly a) k = None"
  then have k: "map_of needed k = Some np" "k \<notin> heldKey ` set (poolLinks links)"
    "map_of (alNewly (allocateLinks links needed)) k = None" by (simp_all add: bk a_def [symmetric])
  show "npClass np \<in> alExhausted a" unfolding a_def by (rule unallocated(1) [OF assms(1) k])
  show "k' < k" if "map_of (alNewly a) k' = Some s" for k' s
    using unallocated(3) [OF assms(1) k] that unfolding a_def by blast
  show "slotName t \<in> linkObjName ` set links \<or> t \<in> snd ` set (alNewly a)" if "t < 1024" for t
    using that unallocated(2) [OF assms(1) k]
    by (auto simp: a_def set_freeSlots usedSlots_names linkSlots_def)
qed

text \<open>
  The example's two pairs against a pool whose slot 0 belongs to another pair: they get slots 1
  and 2.
\<close>

definition exNeeded :: "(string, neededPair) gomap" where
  "exNeeded = neededPairs (exResolved (exInputs ''a''))"

definition exPool :: "LinkObj list" where
  "exPool = [exLink ''slot-0'' ClassKindPortMapClass ''s'' [''b'', ''c''] None]"

lemma allocation_fresh_witness:
  "alNewly (allocateLinks exPool exNeeded) = [(''PortMapClass/m/a/b'', 1), (''PortMapClass/s/a/c'', 2)] \<and>
   distinct (map snd (alNewly (allocateLinks exPool exNeeded))) \<and>
   slotName 2 \<notin> linkObjName ` set exPool \<and>
   (slotName 1 \<in> linkObjName ` set exPool \<or> 1 \<in> snd ` set (alNewly (allocateLinks exPool exNeeded)))"
proof -
  have d: "distinct (map fst exNeeded)" by (simp add: exNeeded_def)
  have n: "alNewly (allocateLinks exPool exNeeded) = [(''PortMapClass/m/a/b'', 1), (''PortMapClass/s/a/c'', 2)]"
    by code_simp
  then have "map_of (alNewly (allocateLinks exPool exNeeded)) ''PortMapClass/s/a/c'' = Some 2" by simp
  then have "slotName 2 \<notin> linkObjName ` set exPool \<and>
      (\<forall>t < 2. slotName t \<in> linkObjName ` set exPool \<or> t \<in> snd ` set (alNewly (allocateLinks exPool exNeeded)))"
    using allocation_fresh [OF d, of exPool] by blast
  with n allocation_fresh [OF d, of exPool] show ?thesis by simp
qed

text \<open>
  C9. One slot, one link. When no two Link objects share a name, two lookups that find the same
  slot are for the same class and the same pair of nodes.
\<close>

theorem slot_exclusive:
  assumes "distinct (map linkObjName links)"
    and "slotFor (allocateLinks links needed) c x y = Some s"
    and "slotFor (allocateLinks links needed) c' x' y' = Some s"
    and "list_all noSlash [lcKind c, lcName c, x, y, lcKind c', lcName c', x', y']"
  shows "c = c' \<and> {x, y} = {x', y'}"
proof -
  let ?a = "allocateLinks links needed"
  obtain h h' where h: "alByKey ?a (classLinkKey c (sortedPair x y)) = Some h" "hlSlot h = s"
    and h': "alByKey ?a (classLinkKey c' (sortedPair x' y')) = Some h'" "hlSlot h' = s"
    using assms(2,3) by (auto simp: slotFor_def)
  from byKey_Some [OF h(1)] byKey_Some [OF h'(1)]
  have p: "h \<in> set (poolLinks links)" "h' \<in> set (poolLinks links)"
    and k: "heldKey h = classLinkKey c (sortedPair x y)" "heldKey h' = classLinkKey c' (sortedPair x' y')" by auto
  have "linkObjName (hlLink h) = linkObjName (hlLink h')" "hlLink h \<in> set links" "hlLink h' \<in> set links"
    using p h(2) h'(2) by (simp_all add: in_poolLinks)
  then have "hlLink h = hlLink h'" using assms(1) by (metis distinct_map inj_onD)
  then have "classLinkKey c (sortedPair x y) = classLinkKey c' (sortedPair x' y')"
    using k by (simp add: heldKey_def)
  then have "c = c' \<and> sortedPair x y = sortedPair x' y'"
    using assms(4) by (subst (asm) classLinkKey_inj) (auto simp: sortedPair_def)
  then show ?thesis by (simp add: sortedPair_eq)
qed

lemma slot_exclusive_witness:
  "let a = allocateLinks exPool exNeeded; c = \<lparr>lcKind = ClassKindPortMapClass, lcName = ''s''\<rparr> in
     slotFor a c ''b'' ''c'' = Some 0 \<and> slotFor a c ''c'' ''b'' = Some 0 \<and> {''b'', ''c''} = {''c'', ''b''}"
proof -
  let ?a = "allocateLinks exPool exNeeded" and ?c = "\<lparr>lcKind = ClassKindPortMapClass, lcName = ''s''\<rparr>"
  have s: "slotFor ?a ?c ''b'' ''c'' = Some 0" "slotFor ?a ?c ''c'' ''b'' = Some 0" by code_simp+
  have "distinct (map linkObjName exPool)" and "list_all noSlash [lcKind ?c, lcName ?c, ''b'', ''c'',
      lcKind ?c, lcName ?c, ''c'', ''b'']" by code_simp+
  from slot_exclusive [OF this(1) s this(2)] s show ?thesis by (simp only: Let_def)
qed

text \<open>
  C11. An agent deletes a Link only when it is safe. The Link is either a duplicate of a needed
  pair this node holds, whose lower slot stays, or it belongs to no needed pair and has been
  marked unused for more than 24 hours; the Link a needed pair uses is never deleted.
\<close>

theorem delete_safe:
  assumes "d \<in> set (acDelete (linkActions (allocateLinks links needed) this now))"
  shows "\<exists>h \<in> set (poolLinks links). ldName d = linkObjName (hlLink h) \<and>
    ldResourceVersion d = omResourceVersion (lkMeta (hlLink h)) \<and>
    (case map_of needed (heldKey h) of
       Some np \<Rightarrow> this \<in> npHolders np \<and>
         (\<exists>h' \<in> set (poolLinks links). heldKey h' = heldKey h \<and> hlSlot h' < hlSlot h \<and>
            alByKey (allocateLinks links needed) (heldKey h) = Some h')
     | None \<Rightarrow> \<exists>t. lkUnusedSince (lkStatus (hlLink h)) = Some t \<and> 24 * 3600 * 1000000000 < now - t)"
proof -
  let ?a = "allocateLinks links needed"
  obtain h where h: "h \<in> set (poolLinks links)" "d \<in> set (snd (heldAction ?a this now h))"
    using assms by (auto simp: linkActions_def)
  obtain b where b: "alByKey ?a (heldKey h) = Some b"
    using h(1) byKey_None [of links needed "heldKey h"] by (cases "alByKey ?a (heldKey h)") auto
  from byKey_Some [OF b] h(1) have "b \<in> set (poolLinks links)" "heldKey b = heldKey h" "hlSlot b \<le> hlSlot h"
    by auto
  with heldAction_delete [OF h(2)] b h(1) show ?thesis
    by (intro bexI [of _ h]) (auto simp: holds_def unusedLinkAge_def split: option.splits)
qed

text \<open>A pool with a Link unused for two days and a duplicate of a needed pair; node \<open>c\<close> deletes both.\<close>

definition exOldPool :: "LinkObj list" where
  "exOldPool =
     [exLink ''slot-0'' ClassKindPortMapClass ''s'' [''a'', ''c''] None,
      exLink ''slot-5'' ClassKindPortMapClass ''s'' [''c'', ''a''] None,
      exLink ''slot-7'' ClassKindPortMapClass ''s'' [''b'', ''c''] (Some 0)]"

lemma delete_safe_witness:
  "let acts = linkActions (allocateLinks exOldPool exNeeded) ''c'' (2 * unusedLinkAge) in
     map ldName (acDelete acts) = [''slot-5'', ''slot-7''] \<and>
     (\<exists>h \<in> set (poolLinks exOldPool). ldName (hd (acDelete acts)) = linkObjName (hlLink h))"
proof -
  let ?d = "acDelete (linkActions (allocateLinks exOldPool exNeeded) ''c'' (2 * unusedLinkAge))"
  have n: "map ldName ?d = [''slot-5'', ''slot-7'']" by code_simp
  then have "hd ?d \<in> set ?d" by (cases ?d) auto
  from delete_safe [OF this] n show ?thesis unfolding Let_def by blast
qed

text \<open>
  A created Link is the claim it was meant to be. An agent creates a Link only for a needed
  pair it holds, under a name no Link has; and once the API server has stored the object, whatever
  metadata it adds, the next pass of every agent finds the pair on that very slot.
\<close>

theorem create_lands:
  assumes "distinct (map fst needed)" and "neededOk needed"
    and c: "l \<in> set (acCreate (linkActions (allocateLinks links needed) this now))"
    and stored: "linkObjName l' = linkObjName l" "lkSpec l' = lkSpec l" "set links' = insert l' (set links)"
  shows "\<exists>k np slot. map_of needed k = Some np \<and> this \<in> npHolders np \<and>
    linkObjName l = slotName slot \<and> linkObjName l \<notin> linkObjName ` set links \<and>
    slotFor (allocateLinks links' needed') (npClass np) (fst (npPeers np)) (snd (npPeers np)) = Some slot"
proof -
  let ?a = "allocateLinks links needed"
  obtain k where "l \<in> set (createFor ?a this k)" using c by (auto simp: linkActions_def)
  then obtain np slot where n: "map_of (alNewly ?a) k = Some slot" and np: "map_of needed k = Some np"
    and hold: "this \<in> npHolders np" and l: "l = newLinkObj np slot"
    by (cases "map_of needed k"; cases "map_of (alNewly ?a) k") (auto simp: createFor_def split: if_splits)
  have ok: "npKey np = k" "fst (npPeers np) \<le> snd (npPeers np)"
    using assms(2) map_of_SomeD [OF np] by (auto simp: neededOk_def)
  note fresh = newly_SomeD [OF assms(1) n]
  have "specKey l' = specKey l" unfolding specKey_def stored(2) ..
  then have k: "specKey l' = Some k" using specKey_newLinkObj [OF ok(2)] ok(1) l by simp
  have "\<lparr>hlLink = l', hlSlot = slot\<rparr> \<in> set (poolLinks links')" (is "?h \<in> _")
    using stored fresh by (simp add: in_poolLinks k l)
  moreover have "heldKey ?h = k" by (simp add: heldKey_def k)
  ultimately obtain h where h: "alByKey (allocateLinks links' needed') k = Some h"
    using byKey_None [of links' needed' k] by (cases "alByKey (allocateLinks links' needed') k") auto
  from byKey_Some [OF h] have p: "h \<in> set (poolLinks links')" "heldKey h = k" by auto
  have "hlLink h \<notin> set links" using p fresh by (auto simp: in_poolLinks)
  then have "hlLink h = l'" using p(1) stored(3) by (simp add: in_poolLinks)
  then have "hlSlot h = slot" using p(1) stored(1) l by (simp add: in_poolLinks)
  then have "slotFor (allocateLinks links' needed') (npClass np) (fst (npPeers np)) (snd (npPeers np)) = Some slot"
    using h ok by (simp add: slotFor_def sortedPair_def npKey_def)
  then show ?thesis using np hold l fresh by (auto simp: usedSlots_names)
qed

lemma create_lands_witness:
  "let ls = acCreate (linkActions (allocateLinks exPool exNeeded) ''c'' 0) in
     map linkObjName ls = [''slot-2''] \<and>
     (\<exists>k np slot. map_of exNeeded k = Some np \<and> ''c'' \<in> npHolders np \<and> linkObjName (hd ls) = slotName slot \<and>
        slotFor (allocateLinks (hd ls # exPool) exNeeded) (npClass np) (fst (npPeers np)) (snd (npPeers np)) = Some slot)"
proof -
  let ?ls = "acCreate (linkActions (allocateLinks exPool exNeeded) ''c'' 0)"
  have n: "map linkObjName ?ls = [''slot-2'']" by code_simp
  then have "hd ?ls \<in> set ?ls" by (cases ?ls) auto
  moreover have "distinct (map fst exNeeded)" "neededOk exNeeded" by (simp_all add: exNeeded_def)
  ultimately show ?thesis
    using create_lands [of exNeeded "hd ?ls" exPool "''c''" 0 "hd ?ls" "hd ?ls # exPool" exNeeded] n
    unfolding Let_def by auto
qed

text \<open>
  The two ends of a link mirror each other. When both nodes have reported an underlay MTU, the
  parameters the two nodes compute for a slot agree on device name, VNI, port, mark, table, MTU
  and on whether the link carries IPv6, and each node's own addresses are the other's peer
  addresses.
\<close>

theorem link_ends_mirror:
  assumes "x \<noteq> y" and "0 < underlay x" and "0 < underlay y"
    and "buildLinkParams idx underlay x y slot port = Some lp"
  shows "\<exists>lp'. buildLinkParams idx underlay y x slot port = Some lp' \<and>
    lpName lp' = lpName lp \<and> lpVni lp' = lpVni lp \<and> lpPort lp' = lpPort lp \<and> lpMark lp' = lpMark lp \<and>
    lpTable lp' = lpTable lp \<and> lpMtu lp' = lpMtu lp \<and>
    lpLocalAddr lp' = lpRemoteAddr lp \<and> lpRemoteAddr lp' = lpLocalAddr lp \<and>
    lpThisEnd lp' = lpPeerEnd lp \<and> lpPeerEnd lp' = lpThisEnd lp \<and>
    lpHas6 lp' = lpHas6 lp \<and> lpThisEnd6 lp' = lpPeerEnd6 lp \<and> lpPeerEnd6 lp' = lpThisEnd6 lp"
  using buildLinkParams_mirror [OF assms] by blast

lemma link_ends_mirror_witness:
  "let b = buildLinkParams (newIndex (exInputs ''a'')) (classUnderlay (exClass ''s'' ServingSingle ReturnPathVxlan)) in
     map_option lpThisEnd (b ''a'' ''c'' 7 4790) = Some (V4 0xa9fe400e) \<and>
     map_option lpPeerEnd (b ''c'' ''a'' 7 4790) = Some (V4 0xa9fe400e)"
proof -
  let ?u = "classUnderlay (exClass ''s'' ServingSingle ReturnPathVxlan)"
  let ?b = "buildLinkParams (newIndex (exInputs ''a'')) ?u"
  have e: "map_option lpThisEnd (?b ''a'' ''c'' 7 4790) = Some (V4 0xa9fe400e)" by code_simp
  then obtain lp where lp: "?b ''a'' ''c'' 7 4790 = Some lp" by blast
  have "''a'' \<noteq> ''c''" "0 < ?u ''a''" "0 < ?u ''c''" by code_simp+
  from link_ends_mirror [OF this lp]
  obtain lp' where "?b ''c'' ''a'' 7 4790 = Some lp'" "lpPeerEnd lp' = lpThisEnd lp" by blast
  then have "map_option lpPeerEnd (?b ''c'' ''a'' 7 4790) = map_option lpThisEnd (?b ''a'' ''c'' 7 4790)"
    unfolding lp by (simp only: option.map)
  with e show ?thesis unfolding Let_def by (simp only:)
qed

end
