(* ===== verification/Emit.thy ===== *)
theory Emit
  imports Links
begin

text \<open>
  What one mapping asks of one node (\<open>emitMapping\<close>, \<open>resolveProgrammed\<close> and their helpers in
  \<open>reconcile/reconcile.go\<close>) and the final ordering of a State (\<open>sortState\<close>). The code appends to the
  slices of one State; the model returns what is appended, and appending is \<open>st_app\<close>.
\<close>

section \<open>The objects of one link\<close>

definition linkDevice :: "linkParams \<Rightarrow> bool \<Rightarrow> Link" where
  "linkDevice lp v6 =
     \<lparr>lnName = lpName lp, lnVNI = lpVni lp, lnPort = lpPort lp, lnLocalAddr = lpLocalAddr lp,
      lnRemoteAddr = lpRemoteAddr lp, lnLinkAddr = lpLinkAddr lp,
      lnLinkAddr6 = (if v6 \<and> lpHas6 lp then lpLinkAddr6 lp else prefixZero), lnMTU = lpMtu lp\<rparr>"

definition loopGuardRule :: "linkParams \<Rightarrow> IPRule" where
  "loopGuardRule lp =
     \<lparr>irPref = 101, irMark = lpMark lp, irTo = Some (lpPeerNode32 lp), irTable = 254,
      irFamily = FamilyIPv4, irSuppressDefault = False\<rparr>"

definition divertRule :: "linkParams \<Rightarrow> Family \<Rightarrow> IPRule" where
  "divertRule lp f =
     \<lparr>irPref = 102, irMark = lpMark lp, irTo = None, irTable = lpTable lp, irFamily = f,
      irSuppressDefault = False\<rparr>"

definition returnRoute :: "linkParams \<Rightarrow> Family \<Rightarrow> Route" where
  "returnRoute lp f =
     \<lparr>rtTable = lpTable lp, rtVia = (if f = FamilyIPv6 then lpPeerEnd6 lp else lpPeerEnd lp),
      rtDev = lpName lp, rtBlackhole = False, rtBlackholeFamily = FamilyIPv4\<rparr>"

definition peerEndFor :: "linkParams \<Rightarrow> addr \<Rightarrow> addr option" where
  "peerEndFor lp a =
     (if is4 a then Some (lpPeerEnd lp) else if lpHas6 lp then Some (lpPeerEnd6 lp) else None)"

definition thisEndFor :: "linkParams \<Rightarrow> addr \<Rightarrow> addr option" where
  "thisEndFor lp a =
     (if is4 a then Some (lpThisEnd lp) else if lpHas6 lp then Some (lpThisEnd6 lp) else None)"

section \<open>The objects of one mapping\<close>

text \<open>The empty list for a mapping with no endpoint, where the code would dereference nil.\<close>

definition podAddrs :: "Inputs \<Rightarrow> mapping \<Rightarrow> addr list" where
  "podAddrs inp m =
     (case mpEndpoint m of
        None \<Rightarrow> []
      | Some e \<Rightarrow>
          (case parseAddr (ceAddr e) of
             None \<Rightarrow> []
           | Some a \<Rightarrow>
               if \<not> inIPv6Forwarding inp \<or> ceAddr6 e = [] then [a]
               else (case parseAddr (ceAddr6 e) of
                       None \<Rightarrow> [a]
                     | Some a6 \<Rightarrow> if is6 a6 \<and> \<not> is4In6 a6 then [a, a6] else [a])))"

text \<open>The link between this node and another, once its claim has landed and both addresses parse.\<close>

definition landedLink ::
  "Inputs \<Rightarrow> index \<Rightarrow> PortMapClass \<Rightarrow> mapping \<Rightarrow> linkAlloc \<Rightarrow> string \<Rightarrow> string \<Rightarrow> string \<Rightarrow> linkParams option" where
  "landedLink inp idx c m alloc programmer this peer =
     (case landedSlotFor alloc m programmer of
        None \<Rightarrow> None
      | Some slot \<Rightarrow> buildLinkParams idx (classUnderlay c) this peer slot (linkPort inp))"

text \<open>The accepting half for one pod address: nothing when the link has no way on for its family.\<close>

definition acceptPod ::
  "string list \<Rightarrow> PortSel \<Rightarrow> PortSel \<Rightarrow> 16 word \<Rightarrow> linkParams option \<Rightarrow> addr \<Rightarrow> State" where
  "acceptPod ifaces sel podSel toPort link pod =
     (case (case link of
              None \<Rightarrow> Some (pod, ''cilium_host'', toPort, podSel)
            | Some lp \<Rightarrow> map_option (\<lambda>end. (end, lpName lp, 0, sel)) (peerEndFor lp pod)) of
        None \<Rightarrow> emptyState
      | Some (target, oif, targetPort, exemptSel) \<Rightarrow>
          emptyState
            \<lparr>stDNAT := map (\<lambda>iface. \<lparr>dnIface = iface, dnPort = sel, dnToAddr = target,
                                     dnToPort = targetPort, dnDstAddr = None\<rparr>) ifaces,
             stExempt := [\<lparr>exOifName = oif, exNegate = False, exDstAddr = Some target,
                           exSrcAddr = None, exPort = exemptSel, exPortIsSrc = False\<rparr>]\<rparr>)"

definition emitAccepting ::
  "Inputs \<Rightarrow> index \<Rightarrow> PortMapClass \<Rightarrow> mapping \<Rightarrow> chosenEndpoint \<Rightarrow> linkAlloc \<Rightarrow> addr list \<Rightarrow> State" where
  "emitAccepting inp idx c m e alloc pods =
     (let this = inNodeName inp; sel = portSel (mpPm m); podSel = fst (podPort m); toPort = snd (podPort m);
          link = (if this \<noteq> ceNode e then landedLink inp idx c m alloc this this (ceNode e) else None)
      in if this \<notin> set (mpProgrammers m) then emptyState
         else st_app
           (st_concat (map (acceptPod (interfacesFor c this (mpPm m)) sel podSel toPort link) pods))
           (emptyState\<lparr>stLinks := (case link of None \<Rightarrow> [] | Some lp \<Rightarrow> [linkDevice lp (1 < length pods)])\<rparr>))"

text \<open>The target half for one link to a remote programmer.\<close>

definition targetPod ::
  "PortSel \<Rightarrow> PortSel \<Rightarrow> 16 word \<Rightarrow> bool \<Rightarrow> linkParams \<Rightarrow> addr \<Rightarrow> State" where
  "targetPod sel podSel toPort multi lp pod =
     (case thisEndFor lp pod of
        None \<Rightarrow> emptyState
      | Some linkDst \<Rightarrow>
          emptyState
            \<lparr>stDNAT := [\<lparr>dnIface = lpName lp, dnPort = sel, dnToAddr = pod, dnToPort = toPort,
                         dnDstAddr = Some linkDst\<rparr>],
             stMark := (if multi then [] else [\<lparr>mkSrcAddr = pod, mkPort = podSel, mkMark = lpMark lp\<rparr>])\<rparr>)"

definition targetLink ::
  "PortSel \<Rightarrow> PortSel \<Rightarrow> 16 word \<Rightarrow> bool \<Rightarrow> bool \<Rightarrow> addr list \<Rightarrow> linkParams \<Rightarrow> State" where
  "targetLink sel podSel toPort multi dual targetPods lp =
     st_app (st_concat (map (targetPod sel podSel toPort multi lp) targetPods))
       (emptyState
          \<lparr>stCtSave := (if multi then [\<lparr>csvIface = lpName lp, csvMark = lpMark lp\<rparr>] else []),
           stLinks := [linkDevice lp dual],
           stRules := [loopGuardRule lp, divertRule lp FamilyIPv4] @
                      (if dual \<and> lpHas6 lp then [divertRule lp FamilyIPv6] else []),
           stRoutes := [returnRoute lp FamilyIPv4] @
                       (if dual \<and> lpHas6 lp then [returnRoute lp FamilyIPv6] else [])\<rparr>)"

text \<open>The landed links of the pod's node, one per remote programmer.\<close>

definition targetLinks ::
  "Inputs \<Rightarrow> index \<Rightarrow> PortMapClass \<Rightarrow> mapping \<Rightarrow> linkAlloc \<Rightarrow> linkParams list" where
  "targetLinks inp idx c m alloc =
     (let this = inNodeName inp
      in List.map_filter (\<lambda>peer. landedLink inp idx c m alloc peer this peer) (remoteProgrammers m this))"

text \<open>The pod's replies are handled in IPv6 only when some link can carry them back.\<close>

definition targetPods :: "linkParams list \<Rightarrow> addr list \<Rightarrow> addr list" where
  "targetPods links pods = (if list_ex (\<lambda>lp. 1 < length pods \<and> lpHas6 lp) links then pods else take 1 pods)"

definition targetRules :: "PortSel \<Rightarrow> bool \<Rightarrow> addr list \<Rightarrow> State" where
  "targetRules podSel multi pods =
     emptyState
       \<lparr>stExempt := map (\<lambda>pod. \<lparr>exOifName = ''cilium_*'', exNegate = True, exDstAddr = None,
                               exSrcAddr = Some pod, exPort = podSel, exPortIsSrc = True\<rparr>) pods,
        stCtLoad := (if multi then map (\<lambda>pod. \<lparr>cldSrcAddr = pod, cldPort = podSel\<rparr>) pods else [])\<rparr>"

definition emitTarget ::
  "Inputs \<Rightarrow> index \<Rightarrow> PortMapClass \<Rightarrow> mapping \<Rightarrow> chosenEndpoint \<Rightarrow> linkAlloc \<Rightarrow> addr list \<Rightarrow> State" where
  "emitTarget inp idx c m e alloc pods =
     (let this = inNodeName inp; sel = portSel (mpPm m); podSel = fst (podPort m); toPort = snd (podPort m);
          links = targetLinks inp idx c m alloc; tpods = targetPods links pods;
          multi = (servingModeOf c = ServingMulti)
      in if this \<noteq> ceNode e \<or> remoteProgrammers m this = [] then emptyState
         else st_app (targetRules podSel multi tpods)
                (st_concat (map (targetLink sel podSel toPort multi (1 < length pods) tpods) links)))"

text \<open>The first two branches are the nil dereferences a mapping that reaches this call excludes.\<close>

definition emitMapping :: "Inputs \<Rightarrow> index \<Rightarrow> linkAlloc \<Rightarrow> mapping \<Rightarrow> State" where
  "emitMapping inp idx alloc m =
     (case (mpEndpoint m, mpClass m) of
        (Some e, Some c) \<Rightarrow>
          (let pods = podAddrs inp m
           in if pods = [] then emptyState
              else st_app (emitAccepting inp idx c m e alloc pods) (emitTarget inp idx c m e alloc pods))
      | _ \<Rightarrow> emptyState)"

section \<open>The Programmed condition\<close>

text \<open>\<^term>\<open>None\<close> when the serving node's row is there and ready, else the message.\<close>

definition servingRowReady :: "PortMapClass \<Rightarrow> mapping \<Rightarrow> string option" where
  "servingRowReady c m =
     (case classNodeRow c (mpServing m) of
        None \<Rightarrow> Some (''serving node '' @ mpServing m @ '' has not reported a class status row'')
      | Some row \<Rightarrow>
          if \<not> nsReady row then Some (''serving node '' @ mpServing m @ '' is not ready: '' @ nsMessage row)
          else None)"

text \<open>The message of the first remote programmer whose return link is not there, if any.\<close>

fun stalledAt ::
  "Inputs \<Rightarrow> index \<Rightarrow> PortMapClass \<Rightarrow> mapping \<Rightarrow> chosenEndpoint \<Rightarrow> linkAlloc \<Rightarrow> string list \<Rightarrow> string option" where
  "stalledAt inp idx c m e alloc [] = None"
| "stalledAt inp idx c m e alloc (peer # peers) =
     (case landedSlotFor alloc m peer of
        None \<Rightarrow> Some (''return link for '' @ pairKey peer (ceNode e) @ '' is not claimed yet'')
      | Some slot \<Rightarrow>
          if buildLinkParams idx (classUnderlay c) peer (ceNode e) slot (linkPort inp) = None
          then Some (''node '' @ peer @ '' on the return path has no usable address'')
          else stalledAt inp idx c m e alloc peers)"

definition programmedOf :: "Inputs \<Rightarrow> index \<Rightarrow> linkAlloc \<Rightarrow> PortMapClass \<Rightarrow> chosenEndpoint \<Rightarrow> mapping \<Rightarrow> mapping" where
  "programmedOf inp idx alloc c e m =
     (case servingRowReady c m of
        Some msg \<Rightarrow> setProgrammed CondFalse ReasonNodeNotReady msg (inNow inp) m
      | None \<Rightarrow>
          if interfacesFor c (mpServing m) (mpPm m) = [] then
            setProgrammed CondFalse ReasonNoInterfaceOnNode
              (''none of the requested interfaces ('' @ joinText '', '' (spInterfaces (pmSpec (mpPm m)))
               @ '') are on serving node '' @ mpServing m @ '', which class '' @ quote (className c)
               @ '' gives '' @ joinText '', '' (classInterfacesOn c (mpServing m)))
              (inNow inp) m
          else (case (if mpRemote m then stalledAt inp idx c m e alloc (remoteProgrammers m (ceNode e))
                      else None) of
                  Some msg \<Rightarrow> setProgrammed CondFalse ReasonReturnPathUnavailable msg (inNow inp) m
                | None \<Rightarrow> setProgrammed CondTrue ReasonAllNodesReady [] (inNow inp) m))"

definition resolveProgrammed :: "Inputs \<Rightarrow> index \<Rightarrow> linkAlloc \<Rightarrow> mapping list \<Rightarrow> mapping list" where
  "resolveProgrammed inp idx alloc ms =
     map (\<lambda>m. if \<not> mpGated m then m
              else (case (mpClass m, mpEndpoint m) of
                      (Some c, Some e) \<Rightarrow> programmedOf inp idx alloc c e m
                    | _ \<Rightarrow> m)) ms"

section \<open>Ordering a State\<close>

fun dropRepeats :: "('a \<Rightarrow> string) \<Rightarrow> 'a list \<Rightarrow> 'a list" where
  "dropRepeats key (x # y # ys) =
     (if key y = key x then dropRepeats key (x # ys) else x # dropRepeats key (y # ys))"
| "dropRepeats key xs = xs"

definition sortUnique :: "('a \<Rightarrow> string) \<Rightarrow> 'a list \<Rightarrow> 'a list" where
  "sortUnique key xs = dropRepeats key (sortBy (\<lambda>a b. key a < key b) xs)"

definition selKey :: "PortSel \<Rightarrow> string" where
  "selKey p = selProto p @ ''/'' @ padDec 5 (unat (selFirst p)) @ ''/'' @ padDec 5 (unat (selLast p))"

definition addrPtrKey :: "addr option \<Rightarrow> string" where
  "addrPtrKey a = (case a of None \<Rightarrow> ''-'' | Some x \<Rightarrow> addrText x)"

definition dnatKey :: "DNATRule \<Rightarrow> string" where
  "dnatKey r = dnIface r @ ''|'' @ selKey (dnPort r) @ ''|'' @ addrText (dnToAddr r) @ ''|''
     @ itoa (uint (dnToPort r))"

definition exemptKey :: "ExemptRule \<Rightarrow> string" where
  "exemptKey r = exOifName r @ ''|'' @ boolText (exNegate r) @ ''|'' @ addrPtrKey (exDstAddr r) @ ''|''
     @ addrPtrKey (exSrcAddr r) @ ''|'' @ selKey (exPort r) @ ''|'' @ boolText (exPortIsSrc r)"

definition markKey :: "MarkRule \<Rightarrow> string" where
  "markKey r = addrText (mkSrcAddr r) @ ''|'' @ selKey (mkPort r) @ ''|'' @ padDec 10 (unat (mkMark r))"

definition ctSaveKey :: "CtSaveRule \<Rightarrow> string" where
  "ctSaveKey r = csvIface r @ ''|'' @ padDec 10 (unat (csvMark r))"

definition ctLoadKey :: "CtLoadRule \<Rightarrow> string" where
  "ctLoadKey r = addrText (cldSrcAddr r) @ ''|'' @ selKey (cldPort r)"

definition linkKey :: "Link \<Rightarrow> string" where
  "linkKey l = lnName l @ ''|'' @ prefixText (lnLinkAddr l)"

definition ruleKey :: "IPRule \<Rightarrow> string" where
  "ruleKey r = padDec 10 (unat (irPref r)) @ ''|'' @ padDec 10 (unat (irMark r)) @ ''|''
     @ (case irTo r of None \<Rightarrow> [] | Some p \<Rightarrow> prefixText p) @ ''|'' @ padDec 10 (unat (irTable r)) @ ''|''
     @ itoa_nat (familyNum (irFamily r)) @ ''|'' @ boolText (irSuppressDefault r)"

definition routeKey :: "Route \<Rightarrow> string" where
  "routeKey r = padDec 10 (unat (rtTable r)) @ ''|'' @ addrText (rtVia r) @ ''|'' @ rtDev r @ ''|''
     @ boolText (rtBlackhole r) @ ''|'' @ itoa_nat (familyNum (rtBlackholeFamily r))"

definition egressKey :: "EgressRule \<Rightarrow> string" where
  "egressKey r = addrText (erSrcAddr r) @ ''|'' @ padDec 10 (unat (erMark r))"

definition gatewayKey :: "EgressGatewayRule \<Rightarrow> string" where
  "gatewayKey r = egwIface r @ ''|'' @ padDec 10 (unat (egwMark r))"

definition sortState :: "State \<Rightarrow> State" where
  "sortState st =
     st\<lparr>stDNAT := sortUnique dnatKey (stDNAT st), stExempt := sortUnique exemptKey (stExempt st),
        stMark := sortUnique markKey (stMark st), stCtSave := sortUnique ctSaveKey (stCtSave st),
        stCtLoad := sortUnique ctLoadKey (stCtLoad st), stLinks := sortUnique linkKey (stLinks st),
        stRules := sortUnique ruleKey (stRules st), stRoutes := sortUnique routeKey (stRoutes st),
        stEgress := sortUnique egressKey (stEgress st),
        stEgressGateway := sortUnique gatewayKey (stEgressGateway st),
        stClusterCIDRs := sortUnique prefixText (stClusterCIDRs st)\<rparr>"

text \<open>The last copy of a link with a valid IPv6 address gives it to every copy of that name.\<close>

definition unifyLinkAddr6 :: "State \<Rightarrow> State" where
  "unifyLinkAddr6 st =
     (let v6 = index_by lnName (filter (\<lambda>l. prefixIsValid (lnLinkAddr6 l)) (stLinks st))
      in st\<lparr>stLinks := map (\<lambda>l. case v6 (lnName l) of
                                  Some w \<Rightarrow> l\<lparr>lnLinkAddr6 := lnLinkAddr6 w\<rparr>
                                | None \<Rightarrow> l) (stLinks st)\<rparr>)"

definition sortedAddrs :: "addr list \<Rightarrow> addr list" where
  "sortedAddrs as = sortBy addrLess (rev (remdups (rev as)))"

section \<open>Lemmas: ordering\<close>

lemma dropRepeats_set: "set (dropRepeats key xs) \<subseteq> set xs"
  by (induction key xs rule: dropRepeats.induct) auto

lemma dropRepeats_keys: "key ` set (dropRepeats key xs) = key ` set xs"
  by (induction key xs rule: dropRepeats.induct) auto

lemma dropRepeats_strict: "sorted (map key xs) \<Longrightarrow> sorted_wrt (<) (map key (dropRepeats key xs))"
proof (induction key xs rule: dropRepeats.induct)
  case (1 key x y ys)
  show ?case
  proof (cases "key y = key x")
    case False
    with 1 have "\<forall>z \<in> set (y # ys). key x < key z" by (auto simp: less_le dest: antisym)
    moreover have "set (dropRepeats key (y # ys)) \<subseteq> set (y # ys)" by (rule dropRepeats_set)
    ultimately show ?thesis using 1 False by auto
  qed (use 1 in auto)
qed auto

interpretation text_key: keyed_less "\<lambda>a b. key a < key b" key for key :: "'a \<Rightarrow> string"
  by unfold_locales (rule refl)

lemma sortUnique_strict: "sorted_wrt (<) (map key (sortUnique key xs))"
  unfolding sortUnique_def by (rule dropRepeats_strict) (rule text_key.sort_sorted)

lemma sortUnique_subset: "set (sortUnique key xs) \<subseteq> set xs"
  unfolding sortUnique_def using dropRepeats_set by fastforce

lemma sortUnique_keys: "key ` set (sortUnique key xs) = key ` set xs"
  by (simp add: sortUnique_def dropRepeats_keys)

lemma sortUnique_distinct: "distinct (map key (sortUnique key xs))"
  using sortUnique_strict [of key xs] strict_sorted_iff by blast

text \<open>When equal keys mean equal entries nothing is lost, and the order of the input is forgotten.\<close>

lemma sortUnique_set: "inj_on key (set xs) \<Longrightarrow> set (sortUnique key xs) = set xs"
  using sortUnique_subset [of key xs] sortUnique_keys [of key xs] by (metis inj_on_image_eq_iff subset_refl)

lemma sortUnique_cong:
  assumes "set xs = set ys" and "inj_on key (set xs)"
  shows "sortUnique key xs = sortUnique key ys"
proof -
  have s: "set (sortUnique key xs) = set (sortUnique key ys)" using assms by (simp add: sortUnique_set)
  then have "map key (sortUnique key xs) = map key (sortUnique key ys)"
    using sortUnique_strict [of key xs] sortUnique_strict [of key ys]
    by (intro strict_sorted_equal) simp_all
  then show ?thesis
    by (rule map_inj_on) (use assms s in \<open>simp add: sortUnique_set\<close>)
qed

lemma dropRepeats_id: "distinct (map key xs) \<Longrightarrow> dropRepeats key xs = xs"
  by (induction key xs rule: dropRepeats.induct) auto

lemma sortUnique_idem: "sortUnique key (sortUnique key xs) = sortUnique key xs"
proof -
  let ?s = "sortUnique key xs"
  have "sorted (map key ?s)" using sortUnique_strict strict_sorted_iff by blast
  then have "sortBy (\<lambda>a b. key a < key b) ?s = ?s"
    by (simp add: text_key.sort_is_sort_key sort_key_id_if_sorted)
  then show ?thesis
    by (simp add: sortUnique_def [of key ?s] dropRepeats_id sortUnique_distinct)
qed

section \<open>Lemmas: one mapping on one node\<close>

lemma podAddrs_cases:
  assumes "mpEndpoint m = Some e" and "parseAddr (ceAddr e) = Some pod"
  obtains rest where "podAddrs inp m = pod # rest"
proof -
  have "\<exists>rest. podAddrs inp m = pod # rest" using assms by (simp add: podAddrs_def split: option.split)
  then show ?thesis using that by blast
qed

lemma emitMapping_split:
  assumes "mpEndpoint m = Some e" and "mpClass m = Some c" and "podAddrs inp m \<noteq> []"
  shows "emitMapping inp idx alloc m =
    st_app (emitAccepting inp idx c m e alloc (podAddrs inp m)) (emitTarget inp idx c m e alloc (podAddrs inp m))"
  using assms by (simp add: emitMapping_def Let_def)

lemma targetPods_hd: "pods \<noteq> [] \<Longrightarrow> hd pods \<in> set (targetPods links pods)"
  by (cases pods) (auto simp: targetPods_def)

lemma in_targetLinks:
  "lp \<in> set (targetLinks inp idx c m alloc) \<longleftrightarrow>
   (\<exists>peer \<in> set (mpProgrammers m) - {inNodeName inp}.
      landedLink inp idx c m alloc peer (inNodeName inp) peer = Some lp)"
  by (force simp: targetLinks_def Let_def map_filter_def)

text \<open>What the pod's node holds for a landed link, for an address the link has an end for.\<close>

lemma emitTarget_link:
  assumes "inNodeName inp = ceNode e" and lp: "lp \<in> set (targetLinks inp idx c m alloc)"
    and pod: "pod \<in> set (targetPods (targetLinks inp idx c m alloc) pods)" and "thisEndFor lp pod = Some dst"
  shows "\<lparr>dnIface = lpName lp, dnPort = portSel (mpPm m), dnToAddr = pod, dnToPort = snd (podPort m),
           dnDstAddr = Some dst\<rparr> \<in> set (stDNAT (emitTarget inp idx c m e alloc pods))"
    and "servingModeOf c \<noteq> ServingMulti \<Longrightarrow>
         \<lparr>mkSrcAddr = pod, mkPort = fst (podPort m), mkMark = lpMark lp\<rparr> \<in> set (stMark (emitTarget inp idx c m e alloc pods))"
    and "servingModeOf c = ServingMulti \<Longrightarrow>
         \<lparr>csvIface = lpName lp, csvMark = lpMark lp\<rparr> \<in> set (stCtSave (emitTarget inp idx c m e alloc pods)) \<and>
         \<lparr>cldSrcAddr = pod, cldPort = fst (podPort m)\<rparr> \<in> set (stCtLoad (emitTarget inp idx c m e alloc pods))"
    and "linkDevice lp (1 < length pods) \<in> set (stLinks (emitTarget inp idx c m e alloc pods))"
    and "loopGuardRule lp \<in> set (stRules (emitTarget inp idx c m e alloc pods))"
    and "divertRule lp FamilyIPv4 \<in> set (stRules (emitTarget inp idx c m e alloc pods))"
    and "returnRoute lp FamilyIPv4 \<in> set (stRoutes (emitTarget inp idx c m e alloc pods))"
    and "1 < length pods \<Longrightarrow> lpHas6 lp \<Longrightarrow>
         divertRule lp FamilyIPv6 \<in> set (stRules (emitTarget inp idx c m e alloc pods)) \<and>
         returnRoute lp FamilyIPv6 \<in> set (stRoutes (emitTarget inp idx c m e alloc pods))"
proof -
  have "remoteProgrammers m (inNodeName inp) \<noteq> []"
    using lp by (auto simp: targetLinks_def Let_def map_filter_def simp del: set_remoteProgrammers)
  note e = emitTarget_def [of inp idx c m e alloc pods, unfolded Let_def]
  note defs = e targetLink_def targetPod_def targetRules_def
  note side = \<open>remoteProgrammers m (inNodeName inp) \<noteq> []\<close> assms(1)
  show "\<lparr>dnIface = lpName lp, dnPort = portSel (mpPm m), dnToAddr = pod, dnToPort = snd (podPort m),
           dnDstAddr = Some dst\<rparr> \<in> set (stDNAT (emitTarget inp idx c m e alloc pods))"
    using side lp pod assms(4) by (force simp: defs)
  show "servingModeOf c \<noteq> ServingMulti \<Longrightarrow>
         \<lparr>mkSrcAddr = pod, mkPort = fst (podPort m), mkMark = lpMark lp\<rparr> \<in> set (stMark (emitTarget inp idx c m e alloc pods))"
    using side lp pod assms(4) by (force simp: defs)
  show "servingModeOf c = ServingMulti \<Longrightarrow>
         \<lparr>csvIface = lpName lp, csvMark = lpMark lp\<rparr> \<in> set (stCtSave (emitTarget inp idx c m e alloc pods)) \<and>
         \<lparr>cldSrcAddr = pod, cldPort = fst (podPort m)\<rparr> \<in> set (stCtLoad (emitTarget inp idx c m e alloc pods))"
    using side lp pod by (force simp: defs)
  show "linkDevice lp (1 < length pods) \<in> set (stLinks (emitTarget inp idx c m e alloc pods))"
    "loopGuardRule lp \<in> set (stRules (emitTarget inp idx c m e alloc pods))"
    "divertRule lp FamilyIPv4 \<in> set (stRules (emitTarget inp idx c m e alloc pods))"
    "returnRoute lp FamilyIPv4 \<in> set (stRoutes (emitTarget inp idx c m e alloc pods))"
    using side lp by (force simp: defs)+
  show "1 < length pods \<Longrightarrow> lpHas6 lp \<Longrightarrow>
         divertRule lp FamilyIPv6 \<in> set (stRules (emitTarget inp idx c m e alloc pods)) \<and>
         returnRoute lp FamilyIPv6 \<in> set (stRoutes (emitTarget inp idx c m e alloc pods))"
    using side lp by (force simp: defs)
qed

text \<open>What an accepting node holds for a pod elsewhere, for an address the link has an end for.\<close>

lemma emitAccepting_link:
  assumes "inNodeName inp \<in> set (mpProgrammers m)" and "inNodeName inp \<noteq> ceNode e"
    and "landedLink inp idx c m alloc (inNodeName inp) (inNodeName inp) (ceNode e) = Some lp"
    and "pod \<in> set pods" and "peerEndFor lp pod = Some target"
  shows "iface \<in> set (interfacesFor c (inNodeName inp) (mpPm m)) \<Longrightarrow>
         \<lparr>dnIface = iface, dnPort = portSel (mpPm m), dnToAddr = target, dnToPort = 0, dnDstAddr = None\<rparr>
           \<in> set (stDNAT (emitAccepting inp idx c m e alloc pods))"
    and "\<lparr>exOifName = lpName lp, exNegate = False, exDstAddr = Some target, exSrcAddr = None,
          exPort = portSel (mpPm m), exPortIsSrc = False\<rparr> \<in> set (stExempt (emitAccepting inp idx c m e alloc pods))"
    and "linkDevice lp (1 < length pods) \<in> set (stLinks (emitAccepting inp idx c m e alloc pods))"
  using assms by (force simp: emitAccepting_def Let_def acceptPod_def)+

section \<open>Lemmas: only landed slots reach the host\<close>

definition landedParams :: "Inputs \<Rightarrow> index \<Rightarrow> linkAlloc \<Rightarrow> mapping \<Rightarrow> linkParams set" where
  "landedParams inp idx alloc m =
     {lp. \<exists>c programmer this peer. mpClass m = Some c \<and> landedLink inp idx c m alloc programmer this peer = Some lp}"

lemma landedLink_slot:
  assumes "landedLink inp idx c m alloc programmer this peer = Some lp"
  shows "landedSlotFor alloc m programmer = Some (lpSlot lp) \<and> lpName lp = linkName (lpSlot lp) \<and>
    lpMark lp = linkMark (lpSlot lp) \<and> lpTable lp = tableBase + of_nat (lpSlot lp) \<and>
    lpVni lp = vniBase + of_nat (lpSlot lp)"
  using assms
  by (auto simp: landedLink_def buildLinkParams_def Let_def split: option.splits prod.splits)

lemma acceptPod_sel [simp]:
  "stMark (acceptPod ifs sel ps tp link pod) = []" "stCtSave (acceptPod ifs sel ps tp link pod) = []"
  "stRules (acceptPod ifs sel ps tp link pod) = []" "stRoutes (acceptPod ifs sel ps tp link pod) = []"
  "stLinks (acceptPod ifs sel ps tp link pod) = []" "stCtLoad (acceptPod ifs sel ps tp link pod) = []"
  by (simp_all add: acceptPod_def split: option.split)

lemma targetPod_sel [simp]:
  "stCtSave (targetPod sel ps tp mu lp pod) = []" "stRules (targetPod sel ps tp mu lp pod) = []"
  "stRoutes (targetPod sel ps tp mu lp pod) = []" "stLinks (targetPod sel ps tp mu lp pod) = []"
  "r \<in> set (stMark (targetPod sel ps tp mu lp pod)) \<Longrightarrow> mkMark r = lpMark lp"
  by (auto simp: targetPod_def split: option.splits if_splits)

lemma emitTarget_landed:
  assumes "mpClass m = Some c"
  shows "r \<in> set (stMark (emitTarget inp idx c m e alloc pods)) \<Longrightarrow> \<exists>lp \<in> landedParams inp idx alloc m. mkMark r = lpMark lp"
    and "s \<in> set (stCtSave (emitTarget inp idx c m e alloc pods)) \<Longrightarrow>
      \<exists>lp \<in> landedParams inp idx alloc m. csvIface s = lpName lp \<and> csvMark s = lpMark lp"
    and "l \<in> set (stLinks (emitTarget inp idx c m e alloc pods)) \<Longrightarrow>
      \<exists>lp \<in> landedParams inp idx alloc m. \<exists>v6. l = linkDevice lp v6"
    and "rule \<in> set (stRules (emitTarget inp idx c m e alloc pods)) \<Longrightarrow>
      \<exists>lp \<in> landedParams inp idx alloc m. rule = loopGuardRule lp \<or> (\<exists>f. rule = divertRule lp f)"
    and "route \<in> set (stRoutes (emitTarget inp idx c m e alloc pods)) \<Longrightarrow>
      \<exists>lp \<in> landedParams inp idx alloc m. \<exists>f. route = returnRoute lp f"
proof -
  have sub: "set (targetLinks inp idx c m alloc) \<subseteq> landedParams inp idx alloc m"
    using assms by (auto simp: in_targetLinks landedParams_def)
  note defs = emitTarget_def Let_def targetLink_def targetRules_def
  show "r \<in> set (stMark (emitTarget inp idx c m e alloc pods)) \<Longrightarrow> \<exists>lp \<in> landedParams inp idx alloc m. mkMark r = lpMark lp"
    using sub by (fastforce simp: defs split: if_splits)
  show "s \<in> set (stCtSave (emitTarget inp idx c m e alloc pods)) \<Longrightarrow>
      \<exists>lp \<in> landedParams inp idx alloc m. csvIface s = lpName lp \<and> csvMark s = lpMark lp"
    using sub by (fastforce simp: defs split: if_splits)
  show "l \<in> set (stLinks (emitTarget inp idx c m e alloc pods)) \<Longrightarrow>
      \<exists>lp \<in> landedParams inp idx alloc m. \<exists>v6. l = linkDevice lp v6"
    using sub by (fastforce simp: defs split: if_splits)
  show "rule \<in> set (stRules (emitTarget inp idx c m e alloc pods)) \<Longrightarrow>
      \<exists>lp \<in> landedParams inp idx alloc m. rule = loopGuardRule lp \<or> (\<exists>f. rule = divertRule lp f)"
    using sub by (fastforce simp: defs split: if_splits)
  show "route \<in> set (stRoutes (emitTarget inp idx c m e alloc pods)) \<Longrightarrow>
      \<exists>lp \<in> landedParams inp idx alloc m. \<exists>f. route = returnRoute lp f"
    using sub by (fastforce simp: defs split: if_splits)
qed

lemma emitAccepting_landed:
  assumes "mpClass m = Some c"
  shows "stMark (emitAccepting inp idx c m e alloc pods) = []"
    and "stCtSave (emitAccepting inp idx c m e alloc pods) = []"
    and "stRules (emitAccepting inp idx c m e alloc pods) = []"
    and "stRoutes (emitAccepting inp idx c m e alloc pods) = []"
    and "l \<in> set (stLinks (emitAccepting inp idx c m e alloc pods)) \<Longrightarrow>
      \<exists>lp \<in> landedParams inp idx alloc m. \<exists>v6. l = linkDevice lp v6"
proof -
  show "stMark (emitAccepting inp idx c m e alloc pods) = []"
    "stCtSave (emitAccepting inp idx c m e alloc pods) = []"
    "stRules (emitAccepting inp idx c m e alloc pods) = []"
    "stRoutes (emitAccepting inp idx c m e alloc pods) = []"
    by (simp_all add: emitAccepting_def Let_def)
  show "l \<in> set (stLinks (emitAccepting inp idx c m e alloc pods)) \<Longrightarrow>
      \<exists>lp \<in> landedParams inp idx alloc m. \<exists>v6. l = linkDevice lp v6"
    using assms
    by (auto simp: emitAccepting_def Let_def landedParams_def split: if_splits option.splits) metis
qed

section \<open>Lemmas: the Programmed condition\<close>

lemma stalledAt_None:
  "stalledAt inp idx c m e alloc peers = None \<longleftrightarrow>
   (\<forall>peer \<in> set peers. landedLink inp idx c m alloc peer peer (ceNode e) \<noteq> None)"
  by (induction peers) (auto simp: landedLink_def split: option.splits)

lemma programmedOf_sel [simp]:
  "mpPm (programmedOf inp idx alloc c e m) = mpPm m"
  "mpClass (programmedOf inp idx alloc c e m) = mpClass m"
  "mpAccepted (programmedOf inp idx alloc c e m) = mpAccepted m"
  "mpAcceptedCond (programmedOf inp idx alloc c e m) = mpAcceptedCond m"
  "mpEndpoint (programmedOf inp idx alloc c e m) = mpEndpoint m"
  "mpServing (programmedOf inp idx alloc c e m) = mpServing m"
  "mpEffAccepting (programmedOf inp idx alloc c e m) = mpEffAccepting m"
  "mpAcceptingNodes (programmedOf inp idx alloc c e m) = mpAcceptingNodes m"
  "mpProgrammers (programmedOf inp idx alloc c e m) = mpProgrammers m"
  "mpRemote (programmedOf inp idx alloc c e m) = mpRemote m"
  "mpGated (programmedOf inp idx alloc c e m) = mpGated m"
  by (simp_all add: programmedOf_def split: option.split)

section \<open>Lemmas: the role of a resolved mapping\<close>

lemma admit_unset [simp]:
  "mpGated (admit asSel inp idx held (newMapping idx pm)) = False"
  "mpProgrammedCond (admit asSel inp idx held (newMapping idx pm)) = None"
  "mpProgrammers (admit asSel inp idx held (newMapping idx pm)) = []"
  "mpServing (admit asSel inp idx held (newMapping idx pm)) = []"
  "mpEffAccepting (admit asSel inp idx held (newMapping idx pm)) = []"
  "mpEndpoint (admit asSel inp idx held (newMapping idx pm)) = None"
  by (simp_all add: admit_def Let_def split: prod.split option.split)

text \<open>What \<open>decideRole\<close> makes of an accepted mapping: served by some node, or not with the reason set.\<close>

lemma decideRole_gated:
  assumes "\<not> mpGated m" and "mpGated (decideRole inp m)"
  shows "\<exists>e c. mpEndpoint m = Some e \<and> mpClass m = Some c \<and> mpAcceptingNodes m \<noteq> [] \<and>
    mpProgrammers (decideRole inp m) =
      (if servingModeOf c = ServingMulti then mpAcceptingNodes m else [mpServing (decideRole inp m)]) \<and>
    mpRemote (decideRole inp m) = (\<exists>p \<in> set (mpProgrammers (decideRole inp m)). p \<noteq> ceNode e) \<and>
    (mpRemote (decideRole inp m) \<longrightarrow> returnPathMode c \<noteq> ReturnPathNone) \<and>
    mpEffAccepting (decideRole inp m) = mpServing (decideRole inp m)"
  using assms by (auto simp: decideRole_def Let_def list_ex_iff split: option.splits if_splits)

lemma decideRole_ungated:
  assumes "mpProgrammers m = []" and "mpEffAccepting m = []" and "\<not> mpGated (decideRole inp m)"
  shows "mpProgrammers (decideRole inp m) = [] \<and> mpEffAccepting (decideRole inp m) = []"
  using assms by (auto simp: decideRole_def Let_def split: option.splits if_splits)

lemma decideRole_cond:
  "mpProgrammedCond m = None \<Longrightarrow> mpProgrammedCond (decideRole inp m) = Some cond \<Longrightarrow> cdStatus cond = CondFalse"
  by (auto simp: decideRole_def Let_def setProgrammed_def mkCondition_def split: option.splits if_splits)

lemma resolved_role:
  assumes "uniquePortMaps inp" and "m \<in> set (resolveMappings asSel inp idx)"
  obtains d where "m = settle inp d" and "mpPm d = mpPm m" and "mpAccepted d = mpAccepted m"
    and "\<not> mpGated d" and "mpProgrammedCond d = None" and "mpProgrammers d = []" and "mpEffAccepting d = []"
    and "mpServing d = []" and "mpEndpoint d = None"
    and "mpClass d = mpClass m" and "mpAcceptingNodes d = mpAcceptingNodes m"
proof -
  from assms obtain held where m: "m = settle inp (admit asSel inp idx held (newMapping idx (mpPm m)))"
    by (rule resolveMappings_decision)
  let ?d = "admit asSel inp idx held (newMapping idx (mpPm m))"
  have "mpAccepted m = mpAccepted ?d" "mpClass m = mpClass ?d" "mpAcceptingNodes m = mpAcceptingNodes ?d"
    by (subst m, simp)+
  then show ?thesis using that [of ?d] m by simp
qed

lemma resolved_gated:
  assumes "uniquePortMaps inp" and "m \<in> set (resolveMappings asSel inp idx)" and "mpGated m"
  shows "mpAccepted m \<and> (\<exists>e c. mpEndpoint m = Some e \<and> mpClass m = Some c \<and> mpAcceptingNodes m \<noteq> [] \<and>
    mpServing m \<in> set (mpAcceptingNodes m) \<and> mpServing m = servingOf (mpAcceptingNodes m) (Some e) \<and>
    mpProgrammers m = (if servingModeOf c = ServingMulti then mpAcceptingNodes m else [mpServing m]) \<and>
    mpRemote m = (\<exists>p \<in> set (mpProgrammers m). p \<noteq> ceNode e) \<and>
    (mpRemote m \<longrightarrow> returnPathMode c \<noteq> ReturnPathNone) \<and> mpEffAccepting m = mpServing m)"
proof -
  from assms(1,2) obtain d where d: "m = settle inp d" "mpAccepted d = mpAccepted m" "\<not> mpGated d"
    by (rule resolved_role)
  then have acc: "mpAccepted d" using assms(3) by (auto simp: settle_def split: if_splits)
  let ?d = "d\<lparr>mpEndpoint := chooseEndpoint inp d\<rparr>"
  have m: "m = decideRole inp ?d" using d(1) acc by (simp add: settle_def)
  have g: "\<not> mpGated ?d" "mpGated (decideRole inp ?d)" using d(3) assms(3) m by simp_all
  from decideRole_gated [OF g] show ?thesis
    unfolding m [symmetric] using acc d(2) servingOf_in by (fastforce simp: m)
qed

lemma resolved_ungated:
  assumes "uniquePortMaps inp" and "m \<in> set (resolveMappings asSel inp idx)" and "\<not> mpGated m"
  shows "mpProgrammers m = [] \<and> mpEffAccepting m = []"
proof -
  from assms(1,2) obtain d where d: "m = settle inp d" "mpProgrammers d = []" "mpEffAccepting d = []"
    by (rule resolved_role)
  then show ?thesis
    using assms(3) decideRole_ungated [of "d\<lparr>mpEndpoint := chooseEndpoint inp d\<rparr>" inp]
    by (auto simp: settle_def split: if_splits)
qed

lemma resolved_cond:
  assumes "uniquePortMaps inp" and "m \<in> set (resolveMappings asSel inp idx)" and "mpProgrammedCond m = Some cond"
  shows "cdStatus cond = CondFalse"
proof -
  from assms(1,2) obtain d where d: "m = settle inp d" "mpProgrammedCond d = None" by (rule resolved_role)
  then show ?thesis
    using assms(3) decideRole_cond [of "d\<lparr>mpEndpoint := chooseEndpoint inp d\<rparr>" inp cond]
    by (auto simp: settle_def split: if_splits)
qed

section \<open>Lemmas: nodes with no part in a mapping\<close>

lemma emitTarget_nothing:
  "set (mpProgrammers m) \<subseteq> {inNodeName inp} \<Longrightarrow> emitTarget inp idx c m e alloc pods = emptyState"
proof -
  assume "set (mpProgrammers m) \<subseteq> {inNodeName inp}"
  then have "remoteProgrammers m (inNodeName inp) = []"
    using set_remoteProgrammers [of m "inNodeName inp"] by (metis Diff_eq_empty_iff set_empty)
  then show ?thesis unfolding emitTarget_def Let_def by (auto simp del: set_remoteProgrammers)
qed

lemma emitAccepting_local:
  assumes "inNodeName inp = ceNode e"
  shows "stLinks (emitAccepting inp idx c m e alloc pods) = []" and "stCtLoad (emitAccepting inp idx c m e alloc pods) = []"
  using assms by (simp_all add: emitAccepting_def Let_def)

lemma emitAccepting_nothing:
  "inNodeName inp \<notin> set (mpProgrammers m) \<Longrightarrow> emitAccepting inp idx c m e alloc pods = emptyState"
  by (simp add: emitAccepting_def Let_def)

section \<open>Properties\<close>

text \<open>
  C5. A request reaches the pod and its reply finds the way back. For a mapping whose pod runs on
  another node than a programmer, once the pair's link has landed: the programmer translates the
  request, on each of its interfaces and on the mapping's ports, to an address of the link's far
  end; the pod's node translates exactly that address, arriving on the same device, to the pod;
  it marks the pod's replies with the link's mark (under Multi, through the flow's conntrack mark),
  routes that mark to the link's table, and the table's route leads back over the device to the
  programmer's own end. The two devices are the two ends of one tunnel.
\<close>

theorem remote_delivery:
  assumes "mpEndpoint m = Some e" and "mpClass m = Some c"
    and "inNodeName acceptor \<in> set (mpProgrammers m)" and "inNodeName target = ceNode e"
    and "inNodeName acceptor \<noteq> ceNode e" and "inLinkPort acceptor = inLinkPort target"
    and "parseAddr (ceAddr e) = Some pod" and "is4 pod"
    and "0 < classUnderlay c (inNodeName acceptor)" and "0 < classUnderlay c (ceNode e)"
    and link: "landedLink acceptor idx c m alloc (inNodeName acceptor) (inNodeName acceptor) (ceNode e) = Some lp"
  defines "A \<equiv> emitMapping acceptor idx alloc m" and "T \<equiv> emitMapping target idx alloc m"
  shows "\<exists>far near.
    (\<forall>iface \<in> set (interfacesFor c (inNodeName acceptor) (mpPm m)).
       \<lparr>dnIface = iface, dnPort = portSel (mpPm m), dnToAddr = far, dnToPort = 0, dnDstAddr = None\<rparr> \<in> set (stDNAT A)) \<and>
    \<lparr>dnIface = lpName lp, dnPort = portSel (mpPm m), dnToAddr = pod, dnToPort = snd (podPort m),
     dnDstAddr = Some far\<rparr> \<in> set (stDNAT T) \<and>
    (if servingModeOf c = ServingMulti
     then \<lparr>csvIface = lpName lp, csvMark = lpMark lp\<rparr> \<in> set (stCtSave T) \<and>
          \<lparr>cldSrcAddr = pod, cldPort = fst (podPort m)\<rparr> \<in> set (stCtLoad T)
     else \<lparr>mkSrcAddr = pod, mkPort = fst (podPort m), mkMark = lpMark lp\<rparr> \<in> set (stMark T)) \<and>
    \<lparr>irPref = 102, irMark = lpMark lp, irTo = None, irTable = lpTable lp, irFamily = FamilyIPv4,
     irSuppressDefault = False\<rparr> \<in> set (stRules T) \<and>
    \<lparr>rtTable = lpTable lp, rtVia = near, rtDev = lpName lp, rtBlackhole = False,
     rtBlackholeFamily = FamilyIPv4\<rparr> \<in> set (stRoutes T) \<and>
    (\<exists>a \<in> set (stLinks A). \<exists>t \<in> set (stLinks T).
       lnName a = lpName lp \<and> lnName t = lpName lp \<and> lnVNI a = lnVNI t \<and> lnPort a = lnPort t \<and>
       lnMTU a = lnMTU t \<and> lnLocalAddr a = lnRemoteAddr t \<and> lnRemoteAddr a = lnLocalAddr t \<and>
       lnLinkAddr a = prefixFrom near 31 \<and> lnLinkAddr t = prefixFrom far 31)"
proof -
  let ?a = "inNodeName acceptor" and ?t = "ceNode e"
  obtain slot where slot: "landedSlotFor alloc m ?a = Some slot"
    and lpA: "buildLinkParams idx (classUnderlay c) ?a ?t slot (linkPort acceptor) = Some lp"
    using link by (auto simp: landedLink_def split: option.splits)
  obtain lt where lpT: "buildLinkParams idx (classUnderlay c) ?t ?a slot (linkPort acceptor) = Some lt"
    and eq: "lpName lt = lpName lp" "lpVni lt = lpVni lp" "lpPort lt = lpPort lp" "lpMark lt = lpMark lp"
      "lpTable lt = lpTable lp" "lpMtu lt = lpMtu lp" "lpLocalAddr lt = lpRemoteAddr lp"
      "lpRemoteAddr lt = lpLocalAddr lp" "lpThisEnd lt = lpPeerEnd lp" "lpPeerEnd lt = lpThisEnd lp"
    by (rule buildLinkParams_mirror [OF assms(5,9,10) lpA])
  have port: "linkPort acceptor = linkPort target" using assms(6) by (simp add: linkPort_def)
  have addrs: "lpLinkAddr lp = prefixFrom (lpThisEnd lp) 31" "lpLinkAddr lt = prefixFrom (lpThisEnd lt) 31"
    using lpA lpT by (auto simp: buildLinkParams_def Let_def case_prod_beta split: option.splits)
  obtain ra rt where pods: "podAddrs acceptor m = pod # ra" "podAddrs target m = pod # rt"
    using podAddrs_cases [OF assms(1,7)] by metis
  have split: "A = st_app (emitAccepting acceptor idx c m e alloc (pod # ra)) (emitTarget acceptor idx c m e alloc (pod # ra))"
    "T = st_app (emitAccepting target idx c m e alloc (pod # rt)) (emitTarget target idx c m e alloc (pod # rt))"
    using emitMapping_split [OF assms(1,2)] pods by (simp_all add: A_def T_def)
  have "landedLink target idx c m alloc ?a (inNodeName target) ?a = Some lt"
    using slot lpT by (simp add: landedLink_def assms(4) port)
  then have lt: "lt \<in> set (targetLinks target idx c m alloc)"
    using assms(3,4,5) by (auto simp: in_targetLinks)
  have pt: "pod \<in> set (targetPods (targetLinks target idx c m alloc) (pod # rt))"
    using targetPods_hd [of "pod # rt"] by simp
  have "thisEndFor lt pod = Some (lpPeerEnd lp)" "peerEndFor lp pod = Some (lpPeerEnd lp)"
    using assms(8) eq by (simp_all add: thisEndFor_def peerEndFor_def)
  note T = emitTarget_link [OF assms(4) lt pt this(1)] and A = emitAccepting_link [OF assms(3,5) link _ this(2)]
  have "\<exists>a \<in> set (stLinks A). \<exists>t \<in> set (stLinks T).
       lnName a = lpName lp \<and> lnName t = lpName lp \<and> lnVNI a = lnVNI t \<and> lnPort a = lnPort t \<and>
       lnMTU a = lnMTU t \<and> lnLocalAddr a = lnRemoteAddr t \<and> lnRemoteAddr a = lnLocalAddr t \<and>
       lnLinkAddr a = prefixFrom (lpThisEnd lp) 31 \<and> lnLinkAddr t = prefixFrom (lpPeerEnd lp) 31"
    by (rule bexI [of _ "linkDevice lp (1 < length (pod # ra))"],
        rule bexI [of _ "linkDevice lt (1 < length (pod # rt))"])
      (use T(4) A(3) [of "pod # ra"] in \<open>simp_all add: split, simp_all add: linkDevice_def eq addrs\<close>)
  moreover have "divertRule lt FamilyIPv4 = \<lparr>irPref = 102, irMark = lpMark lp, irTo = None, irTable = lpTable lp,
      irFamily = FamilyIPv4, irSuppressDefault = False\<rparr>"
    "returnRoute lt FamilyIPv4 = \<lparr>rtTable = lpTable lp, rtVia = lpThisEnd lp, rtDev = lpName lp,
      rtBlackhole = False, rtBlackholeFamily = FamilyIPv4\<rparr>"
    by (simp_all add: divertRule_def returnRoute_def eq)
  ultimately show ?thesis
    using T(1-3,6,7) A(1) [of "pod # ra"] unfolding split
    by (intro exI [of _ "lpPeerEnd lp"] exI [of _ "lpThisEnd lp"]) (simp add: eq)
qed

text \<open>Mapping \<open>g\<close> of the example alone: node \<open>a\<close> accepts, the pod runs on \<open>c\<close>, and their link holds slot 0.\<close>

definition exAlloc :: linkAlloc where
  "exAlloc = allocateLinks (inLinks (exInputs ''a'')) []"

definition exOne :: Inputs where
  "exOne = (exInputs ''a'')\<lparr>inPortMaps := [exPM ''g'' 1 ''s'' ProtocolUDP 70 (Some 72) ''v'']\<rparr>"

abbreviation exG :: mapping where
  "exG \<equiv> exResolved exOne ! 0"

lemma remote_delivery_witness:
  "\<exists>far near lp.
     lp = the (landedLink (exInputs ''a'') (newIndex (exInputs ''a'')) (exClass ''s'' ServingSingle ReturnPathVxlan)
                 exG exAlloc ''a'' ''a'' ''c'') \<and> lpName lp = ''kup-0'' \<and>
     \<lparr>dnIface = ''e'', dnPort = portSel (mpPm exG), dnToAddr = far, dnToPort = 0, dnDstAddr = None\<rparr>
       \<in> set (stDNAT (emitMapping (exInputs ''a'') (newIndex (exInputs ''a'')) exAlloc exG)) \<and>
     \<lparr>dnIface = ''kup-0'', dnPort = portSel (mpPm exG), dnToAddr = V4 0x0a010309, dnToPort = snd (podPort exG),
      dnDstAddr = Some far\<rparr>
       \<in> set (stDNAT (emitMapping (exInputs ''c'') (newIndex (exInputs ''a'')) exAlloc exG)) \<and>
     \<lparr>rtTable = lpTable lp, rtVia = near, rtDev = ''kup-0'', rtBlackhole = False, rtBlackholeFamily = FamilyIPv4\<rparr>
       \<in> set (stRoutes (emitMapping (exInputs ''c'') (newIndex (exInputs ''a'')) exAlloc exG))"
proof -
  let ?c = "exClass ''s'' ServingSingle ReturnPathVxlan" and ?i = "newIndex (exInputs ''a'')"
  let ?l = "landedLink (exInputs ''a'') ?i ?c exG exAlloc ''a'' ''a'' ''c''"
  have n: "inNodeName (exInputs ''a'') = ''a''" "inNodeName (exInputs ''c'') = ''c''"
    "inLinkPort (exInputs ''a'') = inLinkPort (exInputs ''c'')" by (simp_all add: exInputs_def)
  have ep: "map_option (\<lambda>e. (ceNode e, parseAddr (ceAddr e))) (mpEndpoint exG) = Some (''c'', Some (V4 0x0a010309))"
    and c: "mpClass exG = Some ?c" and p: "''a'' \<in> set (mpProgrammers exG)"
    and u: "0 < classUnderlay ?c ''a''" "0 < classUnderlay ?c ''c''"
    and i: "''e'' \<in> set (interfacesFor ?c ''a'' (mpPm exG))"
    and "landedSlotFor exAlloc exG ''a'' = Some 0"
    and "map_option lpName (buildLinkParams ?i (classUnderlay ?c) ''a'' ''c'' 0 (linkPort (exInputs ''a''))) = Some ''kup-0''"
    by code_simp+
  then have l: "map_option lpName ?l = Some ''kup-0''" by (simp only: landedLink_def option.case)
  obtain e lp where e: "mpEndpoint exG = Some e" "ceNode e = ''c''" "parseAddr (ceAddr e) = Some (V4 0x0a010309)"
    and lp: "?l = Some lp" "lpName lp = ''kup-0''" using l ep by auto
  have link: "landedLink (exInputs ''a'') ?i ?c exG exAlloc (inNodeName (exInputs ''a'')) (inNodeName (exInputs ''a''))
      (ceNode e) = Some lp" by (simp only: n e lp)
  have "inNodeName (exInputs ''a'') \<noteq> ceNode e" by (simp add: n e)
  with remote_delivery [OF e(1) c _ _ _ n(3) e(3) _ _ _ link] i p u show ?thesis
    unfolding lp(1) option.sel n e(2) by (auto simp: lp(2) simp del: One_nat_def)
qed

text \<open>
  Nothing of a mapping reaches a host on a slot that has not landed. Every mark, conntrack
  save rule, device, policy rule and route a mapping emits carries the number of a slot that a
  Link in the cache holds for the mapping's class between one of its programmers and the pod's
  node; a proposed slot appears nowhere.
\<close>

theorem only_landed_slots:
  defines "slots \<equiv> \<lambda>alloc m. {s. \<exists>programmer. landedSlotFor alloc m programmer = Some s}"
  shows "mkMark ` set (stMark (emitMapping inp idx alloc m)) \<subseteq> linkMark ` slots alloc m \<and>
    csvMark ` set (stCtSave (emitMapping inp idx alloc m)) \<subseteq> linkMark ` slots alloc m \<and>
    lnName ` set (stLinks (emitMapping inp idx alloc m)) \<subseteq> linkName ` slots alloc m \<and>
    irMark ` set (stRules (emitMapping inp idx alloc m)) \<subseteq> linkMark ` slots alloc m \<and>
    rtTable ` set (stRoutes (emitMapping inp idx alloc m)) \<subseteq> (\<lambda>s. tableBase + of_nat s) ` slots alloc m"
proof (cases "\<exists>e c. mpEndpoint m = Some e \<and> mpClass m = Some c \<and> podAddrs inp m \<noteq> []")
  case False
  then have "emitMapping inp idx alloc m = emptyState"
    by (auto simp: emitMapping_def Let_def split: option.splits)
  then show ?thesis by simp
next
  case True
  then obtain e c where e: "mpEndpoint m = Some e" "mpClass m = Some c" "podAddrs inp m \<noteq> []" by blast
  have lp: "lpMark lp \<in> linkMark ` slots alloc m \<and> lpName lp \<in> linkName ` slots alloc m \<and>
      lpTable lp \<in> (\<lambda>s. tableBase + of_nat s) ` slots alloc m" if "lp \<in> landedParams inp idx alloc m" for lp
    using that landedLink_slot by (fastforce simp: landedParams_def slots_def)
  note T = emitTarget_landed [OF e(2), where inp = inp and idx = idx and e = e and alloc = alloc and pods = "podAddrs inp m"]
  note A = emitAccepting_landed [OF e(2), where inp = inp and idx = idx and e = e and alloc = alloc and pods = "podAddrs inp m"]
  show ?thesis
    unfolding emitMapping_split [OF e]
    by (auto simp: A(1-4) loopGuardRule_def divertRule_def returnRoute_def linkDevice_def
        dest!: T A(5) lp)
qed

text \<open>
  A node that neither programs a mapping nor runs its pod holds nothing of it.
\<close>

theorem bystander_holds_nothing:
  assumes "inNodeName inp \<notin> set (mpProgrammers m)" and "map_option ceNode (mpEndpoint m) \<noteq> Some (inNodeName inp)"
  shows "emitMapping inp idx alloc m = emptyState"
  using assms emitAccepting_nothing [OF assms(1)]
  by (auto simp: emitMapping_def Let_def emitTarget_def split: option.splits)

lemma bystander_holds_nothing_witness:
  "emitMapping (exInputs ''b'') (newIndex (exInputs ''b'')) exAlloc exG = emptyState"
proof (rule bystander_holds_nothing)
  show "inNodeName (exInputs ''b'') \<notin> set (mpProgrammers exG)" by code_simp
  show "map_option ceNode (mpEndpoint exG) \<noteq> Some (inNodeName (exInputs ''b''))" by code_simp
qed

text \<open>
  A class with no return path never reaches across nodes: whatever node computes, a resolved
  mapping of such a class puts no link, mark, conntrack rule, policy rule or route on it.
\<close>

theorem no_return_path_no_link:
  assumes "uniquePortMaps world" and "m \<in> set (resolveMappings asSel world widx)"
    and "mpClass m = Some c" and "returnPathMode c = ReturnPathNone"
  shows "let st = emitMapping inp idx alloc m in
    stLinks st = [] \<and> stMark st = [] \<and> stCtSave st = [] \<and> stCtLoad st = [] \<and> stRules st = [] \<and> stRoutes st = []"
proof (cases "mpEndpoint m = None \<or> podAddrs inp m = []")
  case True
  then have "emitMapping inp idx alloc m = emptyState"
    by (auto simp: emitMapping_def Let_def split: option.splits)
  then show ?thesis by simp
next
  case False
  then obtain e where e: "mpEndpoint m = Some e" "podAddrs inp m \<noteq> []" by auto
  have progs: "set (mpProgrammers m) \<subseteq> {ceNode e}"
  proof (cases "mpGated m")
    case True
    from resolved_gated [OF assms(1,2) True] assms(3,4) e(1) show ?thesis by auto
  next
    case False
    from resolved_ungated [OF assms(1,2) False] show ?thesis by simp
  qed
  have "emitTarget inp idx c m e alloc (podAddrs inp m) = emptyState"
  proof (cases "inNodeName inp = ceNode e")
    case True
    with progs show ?thesis by (intro emitTarget_nothing) simp
  qed (simp add: emitTarget_def Let_def)
  moreover have "stLinks (emitAccepting inp idx c m e alloc (podAddrs inp m)) = [] \<and>
      stCtLoad (emitAccepting inp idx c m e alloc (podAddrs inp m)) = []"
  proof (cases "inNodeName inp = ceNode e")
    case False
    with progs show ?thesis by (subst (1 2) emitAccepting_nothing) auto
  qed (simp add: emitAccepting_local)
  ultimately show ?thesis
    unfolding emitMapping_split [OF e(1) assms(3) e(2)] Let_def
    by (simp add: emitAccepting_landed [OF assms(3)])
qed

text \<open>The example's mapping \<open>w\<close> with a class that has no return path, its pod on the serving node.\<close>

definition exNoReturn :: Inputs where
  "exNoReturn = (exInputs ''a'')\<lparr>inClasses := [exClass ''m'' ServingSingle ReturnPathNone],
     inPortMaps := [exPM ''w'' 4 ''m'' ProtocolTCP 80 None ''w'']\<rparr>"

lemma no_return_path_no_link_witness:
  "let st = emitMapping exNoReturn (newIndex exNoReturn) exAlloc (exResolved exNoReturn ! 0) in
     stDNAT st \<noteq> [] \<and> stLinks st = [] \<and> stMark st = [] \<and> stRules st = []"
proof -
  have l: "length (exResolved exNoReturn) = 1" and u: "uniquePortMaps exNoReturn"
    and c: "mpClass (exResolved exNoReturn ! 0) = Some (exClass ''m'' ServingSingle ReturnPathNone)"
    and n: "returnPathMode (exClass ''m'' ServingSingle ReturnPathNone) = ReturnPathNone"
    and d: "stDNAT (emitMapping exNoReturn (newIndex exNoReturn) exAlloc (exResolved exNoReturn ! 0)) \<noteq> []"
    by code_simp+
  have "exResolved exNoReturn ! 0 \<in> set (exResolved exNoReturn)" by (simp add: l)
  from no_return_path_no_link [OF u this c n, of exNoReturn "newIndex exNoReturn" exAlloc] d
  show ?thesis unfolding Let_def by blast
qed

text \<open>
  C15. Programmed=True is honest. A mapping that reports it is accepted and has an endpoint, its
  serving node has written a ready row and has an interface the mapping asks for, and every
  programmer away from the pod has its return link landed with both node addresses usable.
\<close>

theorem programmed_true_honest:
  assumes "uniquePortMaps inp"
    and m: "m \<in> set (resolveProgrammed inp idx alloc (resolveMappings asSel inp idx))"
    and "mpProgrammedCond m = Some cond" and "cdStatus cond = CondTrue"
  shows "mpAccepted m \<and> (\<exists>e c row. mpEndpoint m = Some e \<and> mpClass m = Some c \<and>
    mpServing m \<in> set (mpAcceptingNodes m) \<and>
    classNodeRow c (mpServing m) = Some row \<and> nsReady row \<and>
    interfacesFor c (mpServing m) (mpPm m) \<noteq> [] \<and>
    (\<forall>p \<in> set (mpProgrammers m). p \<noteq> ceNode e \<longrightarrow>
       (\<exists>lp. landedLink inp idx c m alloc p p (ceNode e) = Some lp)))"
proof -
  obtain m0 where m0: "m0 \<in> set (resolveMappings asSel inp idx)"
    and eq: "m = (if \<not> mpGated m0 then m0 else (case (mpClass m0, mpEndpoint m0) of
        (Some c, Some e) \<Rightarrow> programmedOf inp idx alloc c e m0 | _ \<Rightarrow> m0))"
    using m by (auto simp: resolveProgrammed_def)
  have g: "mpGated m0" using eq assms(3,4) resolved_cond [OF assms(1) m0] by (cases "mpGated m0") auto
  from resolved_gated [OF assms(1) m0 g] obtain e c where e: "mpEndpoint m0 = Some e" and c: "mpClass m0 = Some c"
    and acc: "mpAccepted m0" and serv: "mpServing m0 \<in> set (mpAcceptingNodes m0)"
    and rem: "mpRemote m0 = (\<exists>p \<in> set (mpProgrammers m0). p \<noteq> ceNode e)" by auto
  have m': "m = programmedOf inp idx alloc c e m0" using eq g e c by simp
  then have st: "servingRowReady c m0 = None" "interfacesFor c (mpServing m0) (mpPm m0) \<noteq> []"
    "mpRemote m0 \<Longrightarrow> stalledAt inp idx c m0 e alloc (remoteProgrammers m0 (ceNode e)) = None"
    using assms(3,4) by (auto simp: programmedOf_def setProgrammed_def mkCondition_def split: option.splits if_splits)
  have ll: "landedLink inp idx c m alloc p q r = landedLink inp idx c m0 alloc p q r" for p q r
    unfolding m' landedLink_def landedSlotFor_def mappingLinkClass_def programmedOf_sel ..
  have "landedLink inp idx c m0 alloc p p (ceNode e) \<noteq> None" if "p \<in> set (mpProgrammers m0)" "p \<noteq> ceNode e" for p
  proof -
    have "mpRemote m0" using that rem by blast
    then show ?thesis using st(3) that by (simp add: stalledAt_None)
  qed
  moreover obtain row where "classNodeRow c (mpServing m0) = Some row" "nsReady row"
    using st(1) by (auto simp: servingRowReady_def split: option.splits if_splits)
  ultimately show ?thesis
    using acc serv st(2) e c by (simp add: m' ll [unfolded m'])
qed

lemma programmed_true_honest_witness:
  "\<exists>m \<in> set (resolveProgrammed exOne (newIndex exOne) exAlloc (exResolved exOne)).
     map_option cdStatus (mpProgrammedCond m) = Some CondTrue \<and> mpAccepted m \<and>
     (\<exists>e c. mpEndpoint m = Some e \<and> mpClass m = Some c \<and> interfacesFor c (mpServing m) (mpPm m) \<noteq> [])"
proof -
  let ?i = "newIndex exOne" and ?c = "exClass ''s'' ServingSingle ReturnPathVxlan"
  let ?m = "programmedOf exOne ?i exAlloc ?c (the (mpEndpoint exG)) exG"
  have "length (exResolved exOne) = 1" and u: "uniquePortMaps exOne"
    and g: "mpGated exG" "mpClass exG = Some ?c" "mpEndpoint exG \<noteq> None"
    and s: "map_option cdStatus (mpProgrammedCond ?m) = Some CondTrue" by code_simp+
  then have "exG \<in> set (exResolved exOne)" by simp
  then have m: "?m \<in> set (resolveProgrammed exOne ?i exAlloc (exResolved exOne))"
    unfolding resolveProgrammed_def set_map by (rule image_eqI [rotated]) (use g in auto)
  obtain cond where "mpProgrammedCond ?m = Some cond" "cdStatus cond = CondTrue" using s by blast
  from programmed_true_honest [OF u m this] m s show ?thesis by blast
qed

text \<open>
  The order of a State carries no trace of the order its entries were emitted in. The sorted
  slice has strictly increasing keys, holds only entries that were emitted and one for each key,
  sorting again changes nothing, and two emissions of the same entries in any order and number
  give the same slice when the key tells the entries apart.
\<close>

theorem sortUnique_canonical:
  "sorted_wrt (<) (map key (sortUnique key xs)) \<and> set (sortUnique key xs) \<subseteq> set xs \<and>
   key ` set (sortUnique key xs) = key ` set xs \<and>
   sortUnique key (sortUnique key xs) = sortUnique key xs \<and>
   (inj_on key (set xs) \<and> set xs = set ys \<longrightarrow> sortUnique key xs = sortUnique key ys)"
  using sortUnique_strict [of key xs] sortUnique_subset [of key xs] sortUnique_keys [of key xs]
    sortUnique_idem [of key xs] sortUnique_cong [of xs ys key] by blast

lemma sortUnique_canonical_witness:
  "sortUnique ctSaveKey [\<lparr>csvIface = ''b'', csvMark = 2\<rparr>, \<lparr>csvIface = ''a'', csvMark = 1\<rparr>] =
   sortUnique ctSaveKey [\<lparr>csvIface = ''a'', csvMark = 1\<rparr>, \<lparr>csvIface = ''b'', csvMark = 2\<rparr>, \<lparr>csvIface = ''a'', csvMark = 1\<rparr>]"
proof -
  have "inj_on ctSaveKey (set [\<lparr>csvIface = ''b'', csvMark = 2\<rparr>, \<lparr>csvIface = ''a'', csvMark = 1\<rparr>])"
    by (simp add: ctSaveKey_def)
  then show ?thesis
    using sortUnique_canonical [of ctSaveKey "[\<lparr>csvIface = ''b'', csvMark = 2\<rparr>, \<lparr>csvIface = ''a'', csvMark = 1\<rparr>]"
      "[\<lparr>csvIface = ''a'', csvMark = 1\<rparr>, \<lparr>csvIface = ''b'', csvMark = 2\<rparr>, \<lparr>csvIface = ''a'', csvMark = 1\<rparr>]"]
    by (simp add: insert_commute)
qed

end
