(* ===== verification/EgressRules.thy ===== *)
theory EgressRules
  imports Emit
begin

text \<open>
  Egress (\<open>reconcile/egress.go\<close>): which Egress decides which pod, the path of each pod in each family,
  the objects the pod's node and the egress node hold for it, and the state an agent leaves behind
  so that a fail-closed pod stays blocked.
\<close>

section \<open>Decisions\<close>

definition egressLoopGuardPref :: "32 word" where [const_defs]: "egressLoopGuardPref = 32763"
definition egressSuppressPref :: "32 word" where [const_defs]: "egressSuppressPref = 32764"
definition egressDivertPref :: "32 word" where [const_defs]: "egressDivertPref = 32765"
definition mainTable :: "32 word" where [const_defs]: "mainTable = 254"

text \<open>
  The code stores in each pod the function that reads a node's underlay MTU from the class status;
  the model reads the same class from the decision.
\<close>

record egressPod =
  xpName :: string
  xpNode :: string
  xpAddr :: addr
  xpAddr6 :: addr
  xpPath :: EgressPath
  xpPath6 :: EgressPath
  xpSlot :: nat
  xpLinked :: bool
  xpHas6 :: bool
  xpFailClosed :: bool

record egressDecision =
  edEg :: Egress
  edClass :: "EgressClass option"
  edAccepted :: Condition
  edOk :: bool
  edNode :: string
  edPods :: "egressPod list"
  edConflicts :: "string list"

definition egressClassKey :: "string \<Rightarrow> linkClass" where
  "egressClassKey name = \<lparr>lcKind = ClassKindEgressClass, lcName = name\<rparr>"

abbreviation egName :: "Egress \<Rightarrow> string" where "egName g \<equiv> omName (egMeta g)"
abbreviation egNamespace :: "Egress \<Rightarrow> string" where "egNamespace g \<equiv> omNamespace (egMeta g)"

definition egKey :: "Egress \<Rightarrow> string" where
  "egKey g = egNamespace g @ ''/'' @ egName g"

definition earlierEgress :: "Egress \<Rightarrow> Egress \<Rightarrow> bool" where
  "earlierEgress a b =
     (let at = omCreationTimestamp (egMeta a); bt = omCreationTimestamp (egMeta b)
      in if at \<noteq> bt then at < bt else egKey a < egKey b)"

definition selectorSelectsNamespace ::
  "selector_fn \<Rightarrow> index \<Rightarrow> LabelSelector option \<Rightarrow> string \<Rightarrow> bool" where
  "selectorSelectsNamespace asSel idx s namespace =
     (case s of
        None \<Rightarrow> True
      | Some ls \<Rightarrow>
          (case asSel ls of
             None \<Rightarrow> False
           | Some sel \<Rightarrow>
               if selEmpty sel then True
               else (case nsByName idx namespace of
                       None \<Rightarrow> False
                     | Some ns \<Rightarrow> selMatches sel (omLabels (nmMeta ns)))))"

definition selectedPods :: "selector_fn \<Rightarrow> Inputs \<Rightarrow> Egress \<Rightarrow> Pod list" where
  "selectedPods asSel inp g =
     (case asSel (egPodSelector (egSpec g)) of
        None \<Rightarrow> []
      | Some sel \<Rightarrow>
          if selEmpty sel then []
          else sortBy (\<lambda>a b. omName (pdMeta a) < omName (pdMeta b))
                 (filter (\<lambda>p. omNamespace (pdMeta p) = egNamespace g \<and> pdNodeName p \<noteq> [] \<and> pdPodIPs p \<noteq> []
                              \<and> pdPhase p \<noteq> PodSucceeded \<and> pdPhase p \<noteq> PodFailed
                              \<and> selMatches sel (omLabels (pdMeta p))) (inPods inp)))"

text \<open>One address of the pod: the first IPv4 and the first IPv6 that is not IPv4-mapped are kept.\<close>

definition takeIP :: "egressPod \<Rightarrow> string \<Rightarrow> egressPod" where
  "takeIP ep ip =
     (case parseAddr ip of
        None \<Rightarrow> ep
      | Some a \<Rightarrow>
          if is4 a \<and> \<not> addrIsValid (xpAddr ep) then ep\<lparr>xpAddr := a\<rparr>
          else if is6 a \<and> \<not> is4In6 a \<and> \<not> addrIsValid (xpAddr6 ep) then ep\<lparr>xpAddr6 := a\<rparr>
          else ep)"

definition newEgressPod :: "Pod \<Rightarrow> egressPod" where
  "newEgressPod p =
     foldl takeIP
       \<lparr>xpName = omName (pdMeta p), xpNode = pdNodeName p, xpAddr = AddrZero, xpAddr6 = AddrZero,
        xpPath = EgressPathUnset, xpPath6 = EgressPathUnset, xpSlot = 0, xpLinked = False,
        xpHas6 = False, xpFailClosed = False\<rparr> (pdPodIPs p)"

definition podKey :: "Pod \<Rightarrow> string" where
  "podKey p = omNamespace (pdMeta p) @ ''/'' @ omName (pdMeta p)"

text \<open>The loop over the selected pods: those already claimed are conflicts, the others are claimed.\<close>

fun claimPods :: "Pod list \<Rightarrow> string set \<Rightarrow> egressPod list \<times> string list \<times> string set" where
  "claimPods [] claimed = ([], [], claimed)"
| "claimPods (p # ps) claimed =
     (if podKey p \<in> claimed
      then (let (pods, conflicts, cl) = claimPods ps claimed in (pods, omName (pdMeta p) # conflicts, cl))
      else (let (pods, conflicts, cl) = claimPods ps (insert (podKey p) claimed)
            in (newEgressPod p # pods, conflicts, cl)))"

definition validateEgress :: "selector_fn \<Rightarrow> index \<Rightarrow> EgressClass option \<Rightarrow> Egress \<Rightarrow> Reason \<times> string" where
  "validateEgress asSel idx c g =
     (case c of
        None \<Rightarrow> (ReasonClassNotFound, ''EgressClass '' @ quote (egClassName (egSpec g)) @ '' does not exist'')
      | Some ec \<Rightarrow>
          if \<not> selectorSelectsNamespace asSel idx (ecNamespaceSelector (ecSpec ec)) (egNamespace g) then
            (ReasonNamespaceNotSelected,
             ''EgressClass '' @ quote (egressClassName ec) @ '' does not select namespace '' @ quote (egNamespace g))
          else (ReasonValid, []))"

definition decideEgress ::
  "selector_fn \<Rightarrow> Inputs \<Rightarrow> index \<Rightarrow> (string \<rightharpoonup> EgressClass) \<Rightarrow> string set \<Rightarrow> Egress \<Rightarrow> egressDecision \<times> string set" where
  "decideEgress asSel inp idx classes claimed g =
     (let c = classes (egClassName (egSpec g));
          (reason, msg) = validateEgress asSel idx c g;
          ok = (reason = ReasonValid);
          node = (case c of
                    Some ec \<Rightarrow> if ok \<and> nodesByName idx (ecNode (ecSpec ec)) \<noteq> None then ecNode (ecSpec ec) else []
                  | None \<Rightarrow> []);
          (pods, conflicts, claimed') =
            (if ok then claimPods (selectedPods asSel inp g) claimed else ([], [], claimed))
      in (\<lparr>edEg = g, edClass = c,
           edAccepted = mkCondition ConditionAccepted (if ok then CondTrue else CondFalse) reason msg
                          (inNow inp) (omGeneration (egMeta g)),
           edOk = ok, edNode = node, edPods = pods, edConflicts = conflicts\<rparr>, claimed'))"

fun decideEgresses ::
  "selector_fn \<Rightarrow> Inputs \<Rightarrow> index \<Rightarrow> (string \<rightharpoonup> EgressClass) \<Rightarrow> string set \<Rightarrow> Egress list \<Rightarrow> egressDecision list" where
  "decideEgresses asSel inp idx classes claimed [] = []"
| "decideEgresses asSel inp idx classes claimed (g # gs) =
     (let (d, claimed') = decideEgress asSel inp idx classes claimed g
      in d # decideEgresses asSel inp idx classes claimed' gs)"

definition resolveEgresses :: "selector_fn \<Rightarrow> Inputs \<Rightarrow> index \<Rightarrow> egressDecision list" where
  "resolveEgresses asSel inp idx =
     decideEgresses asSel inp idx (index_by egressClassName (inEgressClasses inp)) {}
       (sortBy earlierEgress (inEgresses inp))"

section \<open>Links and paths\<close>

definition egressNeeds :: "egressDecision \<Rightarrow> (string, neededPair) gomap \<Rightarrow> (string, neededPair) gomap" where
  "egressNeeds d out =
     (case edClass d of
        None \<Rightarrow> out
      | Some c \<Rightarrow>
          if \<not> edOk d \<or> edNode d = [] then out
          else foldl (\<lambda>o' p. if xpNode p \<noteq> edNode d \<and> addrIsValid (xpAddr p)
                             then addNeeded (egressClassKey (egressClassName c)) (edNode d) (xpNode p) o'
                             else o') out (edPods d))"

definition addEgressNeeds ::
  "egressDecision list \<Rightarrow> (string, neededPair) gomap \<Rightarrow> (string, neededPair) gomap" where
  "addEgressNeeds ds needed = foldl (\<lambda>out d. egressNeeds d out) needed ds"

definition podCIDRsKnown :: "Inputs \<Rightarrow> bool" where
  "podCIDRsKnown inp \<longleftrightarrow> list_all (\<lambda>n. ndPodCIDRs n \<noteq> []) (inNodes inp) \<and> inNodes inp \<noteq> []"

definition nodeReady :: "index \<Rightarrow> string \<Rightarrow> bool" where
  "nodeReady idx name =
     (case nodesByName idx name of
        None \<Rightarrow> False
      | Some n \<Rightarrow>
          (case find (\<lambda>(t, _). t = NodeReady) (ndConditions n) of
             Some (_, st) \<Rightarrow> st = CondTrue
           | None \<Rightarrow> True))"

definition egressClassRow :: "EgressClass \<Rightarrow> string \<Rightarrow> NodeStatus option" where
  "egressClassRow c name = find (\<lambda>r. nsName r = name) (ecNodes (ecStatus c))"

definition egressRowReady :: "EgressClass \<Rightarrow> string \<Rightarrow> bool" where
  "egressRowReady c name = (case egressClassRow c name of Some r \<Rightarrow> nsReady r | None \<Rightarrow> False)"

definition egressRow6 :: "EgressClass \<Rightarrow> string \<Rightarrow> bool" where
  "egressRow6 c name = (case egressClassRow c name of Some r \<Rightarrow> nsIPv6Unavailable r = [] | None \<Rightarrow> False)"

definition egressClassUnderlay :: "EgressClass \<Rightarrow> string \<Rightarrow> int" where
  "egressClassUnderlay c name = (case egressClassRow c name of Some r \<Rightarrow> nsUnderlayMTU r | None \<Rightarrow> 0)"

definition decidePath ::
  "Inputs \<Rightarrow> index \<Rightarrow> linkAlloc \<Rightarrow> bool \<Rightarrow> EgressClass \<Rightarrow> egressDecision \<Rightarrow> egressPod \<Rightarrow> egressPod" where
  "decidePath inp idx alloc cidrsKnown c d p0 =
     (let failClosed = egFailClosed (egSpec (edEg d));
          down = (if failClosed then EgressPathBlocked else EgressPathDirect);
          p = p0\<lparr>xpFailClosed := failClosed, xpPath := down,
                 xpPath6 := (if addrIsValid (xpAddr6 p0) then down else EgressPathUnset)\<rparr>;
          nd = edNode d
      in if nd \<noteq> [] \<and> xpNode p = nd then
           p\<lparr>xpPath := EgressPathLocal,
             xpPath6 := (if addrIsValid (xpAddr6 p) then EgressPathLocal else xpPath6 p)\<rparr>
         else if nd = [] \<or> \<not> cidrsKnown \<or> \<not> addrIsValid (xpAddr p) then p
         else if \<not> nodeReady idx nd \<or> \<not> nodeReady idx (xpNode p) then p
         else (case slotFor alloc (egressClassKey (egressClassName c)) nd (xpNode p) of
           None \<Rightarrow> p
         | Some slot \<Rightarrow>
             if \<not> egressRowReady c nd \<or> \<not> egressRowReady c (xpNode p) then p
             else (case buildLinkParams idx (egressClassUnderlay c) (xpNode p) nd slot (linkPort inp) of
               None \<Rightarrow> p
             | Some lp \<Rightarrow>
                 (let p' = p\<lparr>xpSlot := slot, xpLinked := True, xpPath := EgressPathLink\<rparr>
                  in if addrIsValid (xpAddr6 p) \<and> lpHas6 lp \<and> egressRow6 c nd \<and> egressRow6 c (xpNode p)
                     then p'\<lparr>xpHas6 := True, xpPath6 := EgressPathLink\<rparr> else p'))))"

definition decidePaths :: "Inputs \<Rightarrow> index \<Rightarrow> linkAlloc \<Rightarrow> egressDecision list \<Rightarrow> egressDecision list" where
  "decidePaths inp idx alloc ds =
     map (\<lambda>d. case edClass d of
                Some c \<Rightarrow> if edOk d
                          then d\<lparr>edPods := map (decidePath inp idx alloc (podCIDRsKnown inp) c d) (edPods d)\<rparr>
                          else d
              | None \<Rightarrow> d) ds"

section \<open>Objects on the host\<close>

text \<open>
  The pod's node, with the families it blocked. Where \<open>buildLinkParams\<close> fails the code would go on
  with zero parameters; a linked pod is one for which it has succeeded, so the model emits nothing.
\<close>

definition podFamilies :: "Inputs \<Rightarrow> egressPod \<Rightarrow> (addr \<times> EgressPath \<times> Family) list" where
  "podFamilies inp p =
     (if addrIsValid (xpAddr p) then [(xpAddr p, xpPath p, FamilyIPv4)] else []) @
     (if addrIsValid (xpAddr6 p) \<and> inIPv6Forwarding inp then [(xpAddr6 p, xpPath6 p, FamilyIPv6)] else [])"

definition suppressRule :: "32 word \<Rightarrow> Family \<Rightarrow> IPRule" where
  "suppressRule mark f =
     \<lparr>irPref = egressSuppressPref, irMark = mark, irTo = None, irTable = mainTable, irFamily = f,
      irSuppressDefault = True\<rparr>"

definition egressDivertRule :: "32 word \<Rightarrow> 32 word \<Rightarrow> Family \<Rightarrow> IPRule" where
  "egressDivertRule mark table f =
     \<lparr>irPref = egressDivertPref, irMark = mark, irTo = None, irTable = table, irFamily = f,
      irSuppressDefault = False\<rparr>"

definition podLinkParams :: "Inputs \<Rightarrow> index \<Rightarrow> egressDecision \<Rightarrow> egressPod \<Rightarrow> linkParams option" where
  "podLinkParams inp idx d p =
     (case edClass d of
        Some c \<Rightarrow> if xpLinked p
                  then buildLinkParams idx (egressClassUnderlay c) (xpNode p) (edNode d) (xpSlot p) (linkPort inp)
                  else None
      | None \<Rightarrow> None)"

definition emitFamily :: "linkParams \<Rightarrow> addr \<times> EgressPath \<times> Family \<Rightarrow> State" where
  "emitFamily lp fam =
     (case fam of (a, path, f) \<Rightarrow>
        (case path of
           EgressPathLink \<Rightarrow>
             emptyState
               \<lparr>stEgress := [\<lparr>erSrcAddr = a, erMark = lpMark lp\<rparr>],
                stExempt := [\<lparr>exOifName = lpName lp, exNegate = False, exDstAddr = None, exSrcAddr = Some a,
                              exPort = \<lparr>selProto = [], selFirst = 0, selLast = 0\<rparr>, exPortIsSrc = False\<rparr>],
                stRules := [suppressRule (lpMark lp) f, egressDivertRule (lpMark lp) (lpTable lp) f],
                stRoutes := [returnRoute lp f]\<rparr>
         | EgressPathBlocked \<Rightarrow>
             emptyState\<lparr>stEgress := [\<lparr>erSrcAddr = a, erMark = EgressBlockedMark\<rparr>]\<rparr>
         | _ \<Rightarrow> emptyState))"

definition blockedOf :: "Inputs \<Rightarrow> egressPod \<Rightarrow> Family list" where
  "blockedOf inp p = map (snd \<circ> snd) (filter (\<lambda>(_, path, _). path = EgressPathBlocked) (podFamilies inp p))"

text \<open>Parameters that cannot be built stay zero, as the code ignores that answer of \<open>buildLinkParams\<close>.\<close>

definition emitEgressPodNode :: "Inputs \<Rightarrow> index \<Rightarrow> egressDecision \<Rightarrow> egressPod \<Rightarrow> State" where
  "emitEgressPodNode inp idx d p =
     (let lp = (case podLinkParams inp idx d p of Some lp \<Rightarrow> lp | None \<Rightarrow> linkParamsZero)
      in st_app
        (if xpLinked p then
           emptyState
             \<lparr>stLinks := [linkDevice lp (xpHas6 p \<and> inIPv6Forwarding inp)],
              stRules := [\<lparr>irPref = egressLoopGuardPref, irMark = lpMark lp, irTo = Some (lpPeerNode32 lp),
                           irTable = mainTable, irFamily = FamilyIPv4, irSuppressDefault = False\<rparr>]\<rparr>
         else emptyState)
        (st_concat (map (emitFamily lp) (podFamilies inp p))))"

definition emitBlocked :: "Family set \<Rightarrow> State" where
  "emitBlocked fams =
     st_concat (map (\<lambda>f.
       emptyState
         \<lparr>stRules := [suppressRule EgressBlockedMark f, egressDivertRule EgressBlockedMark EgressBlockedTable f],
          stRoutes := [\<lparr>rtTable = EgressBlockedTable, rtVia = AddrZero, rtDev = [], rtBlackhole = True,
                        rtBlackholeFamily = f\<rparr>]\<rparr>)
       (filter (\<lambda>f. f \<in> fams) [FamilyIPv4, FamilyIPv6]))"

definition emitEgressGateway :: "Inputs \<Rightarrow> index \<Rightarrow> egressDecision \<Rightarrow> egressPod \<Rightarrow> State" where
  "emitEgressGateway inp idx d p =
     (case edClass d of
        None \<Rightarrow> emptyState
      | Some c \<Rightarrow>
          (case buildLinkParams idx (egressClassUnderlay c) (edNode d) (xpNode p) (xpSlot p) (linkPort inp) of
             None \<Rightarrow> emptyState
           | Some lp \<Rightarrow>
               (let v6 = (xpHas6 p \<and> inIPv6Forwarding inp)
                in emptyState
                  \<lparr>stLinks := [linkDevice lp v6],
                   stEgressGateway := [\<lparr>egwIface = lpName lp, egwMark = lpMark lp\<rparr>],
                   stRules := [loopGuardRule lp, divertRule lp FamilyIPv4] @
                              (if v6 then [divertRule lp FamilyIPv6] else []),
                   stRoutes := [returnRoute lp FamilyIPv4] @
                               (if v6 then [returnRoute lp FamilyIPv6] else [])\<rparr>)))"

definition clusterCIDRs :: "Inputs \<Rightarrow> prefix list" where
  "clusterCIDRs inp =
     concat (map (\<lambda>n.
       map masked (List.map_filter parsePrefix (ndPodCIDRs n)) @
       map (\<lambda>ip. prefixFrom (unmapAddr ip) (int (bitLen (unmapAddr ip))))
         (List.map_filter (\<lambda>(t, a). if t = NodeInternalIP then parseAddr a else None) (ndAddresses n)))
       (inNodes inp))"

definition emitPod :: "Inputs \<Rightarrow> index \<Rightarrow> egressDecision \<Rightarrow> egressPod \<Rightarrow> State" where
  "emitPod inp idx d p =
     (if xpPath p = EgressPathLocal then emptyState
      else st_app
        (if xpNode p = inNodeName inp then emitEgressPodNode inp idx d p else emptyState)
        (if edNode d = inNodeName inp \<and> xpLinked p then emitEgressGateway inp idx d p else emptyState))"

definition blockedFamilies :: "Inputs \<Rightarrow> egressDecision list \<Rightarrow> Family set" where
  "blockedFamilies inp ds =
     set (concat (map (\<lambda>d. if edOk d
            then concat (map (\<lambda>p. if xpPath p \<noteq> EgressPathLocal \<and> xpNode p = inNodeName inp
                                  then blockedOf inp p else []) (edPods d))
            else []) ds))"

text \<open>\<open>st.Egress\<close> is empty before this call: no mapping emits into it.\<close>

definition emitEgress :: "Inputs \<Rightarrow> index \<Rightarrow> egressDecision list \<Rightarrow> State" where
  "emitEgress inp idx ds =
     (let st = st_concat (map (\<lambda>d. if edOk d then st_concat (map (emitPod inp idx d) (edPods d)) else emptyState) ds);
          st' = st_app st (emitBlocked (blockedFamilies inp ds))
      in if stEgress st' = [] then st' else st'\<lparr>stClusterCIDRs := clusterCIDRs inp\<rparr>)"

section \<open>What stays when the agent stops\<close>

definition keptFamilies :: "Inputs \<Rightarrow> egressDecision list \<Rightarrow> (addr \<times> Family) list" where
  "keptFamilies inp ds =
     concat (map (\<lambda>d. if \<not> edOk d then [] else
       concat (map (\<lambda>p.
         if xpNode p \<noteq> inNodeName inp \<or> \<not> xpFailClosed p \<or> xpPath p = EgressPathLocal then []
         else (if addrIsValid (xpAddr p) then [(xpAddr p, FamilyIPv4)] else []) @
              (if addrIsValid (xpAddr6 p) \<and> inIPv6Forwarding inp then [(xpAddr6 p, FamilyIPv6)] else []))
         (edPods d))) ds)"

definition keepState :: "Inputs \<Rightarrow> egressDecision list \<Rightarrow> State" where
  "keepState inp ds =
     (let kept = keptFamilies inp ds
      in if kept = [] then emptyState
         else sortState
           ((st_app
              (emptyState\<lparr>stEgress := map (\<lambda>(a, _). \<lparr>erSrcAddr = a, erMark = EgressBlockedMark\<rparr>) kept\<rparr>)
              (emitBlocked (set (map snd kept))))\<lparr>stClusterCIDRs := clusterCIDRs inp\<rparr>))"

section \<open>Status\<close>

definition ipv6ForwardingOff :: string where [const_defs]:
  "ipv6ForwardingOff =
     ''net.ipv6.conf.all.forwarding is 0 on this node, so it delivers no mapping over IPv6''"

definition poolFullMessage :: string where [const_defs]:
  "poolFullMessage = ''all '' @ itoa (int linkSlots) @ '' slots of the cluster-wide link pool are taken''"

record EgressClassContribution =
  xcNode :: NodeStatus
  xcConditions :: "Condition list"

definition readyRow :: "string \<Rightarrow> NodeStatus" where
  "readyRow name =
     \<lparr>nsName = name, nsReady = True, nsMessage = [], nsUnderlayMTU = 0, nsLinkMTU = 0,
      nsAddresses = [], nsAddresses6 = [], nsIPv6Unavailable = []\<rparr>"

definition takesPart :: "Inputs \<Rightarrow> egressDecision list \<Rightarrow> string set" where
  "takesPart inp ds =
     set (map egressClassName (filter (\<lambda>c. ecNode (ecSpec c) = inNodeName inp) (inEgressClasses inp))) \<union>
     set (concat (map (\<lambda>d. case edClass d of
            Some c \<Rightarrow> if edOk d \<and> list_ex (\<lambda>p. xpNode p = inNodeName inp) (edPods d)
                      then [egressClassName c] else []
          | None \<Rightarrow> []) ds))"

definition egressClassContribution :: "Inputs \<Rightarrow> linkAlloc \<Rightarrow> EgressClass \<Rightarrow> EgressClassContribution" where
  "egressClassContribution inp alloc c =
     (let full = (egressClassKey (egressClassName c) \<in> alExhausted alloc)
      in \<lparr>xcNode = (readyRow (inNodeName inp))
                    \<lparr>nsIPv6Unavailable := (if inIPv6Forwarding inp then [] else ipv6ForwardingOff)\<rparr>,
          xcConditions = [mkCondition ConditionReady (if full then CondFalse else CondTrue)
                            (if full then ReasonSubnetExhausted else ReasonValid)
                            (if full then poolFullMessage else []) (inNow inp) (omGeneration (ecMeta c))]\<rparr>)"

definition buildEgressClassStatus ::
  "Inputs \<Rightarrow> egressDecision list \<Rightarrow> linkAlloc \<Rightarrow> (string, EgressClassContribution) gomap" where
  "buildEgressClassStatus inp ds alloc =
     foldl (\<lambda>out c. if egressClassName c \<in> takesPart inp ds
                    then mput (egressClassName c) (egressClassContribution inp alloc c) out else out)
       [] (inEgressClasses inp)"

definition egressProgrammed :: "Inputs \<Rightarrow> egressDecision \<Rightarrow> EgressClass \<Rightarrow> linkAlloc \<Rightarrow> bool \<Rightarrow> Condition" where
  "egressProgrammed inp d c alloc cidrsKnown =
     (let down = map xpName (filter (\<lambda>p. xpPath p \<noteq> EgressPathLink \<and> xpPath p \<noteq> EgressPathLocal) (edPods d));
          mk = (\<lambda>st reason msg. mkCondition ConditionProgrammed st reason msg (inNow inp)
                  (omGeneration (egMeta (edEg d))))
      in if edNode d = [] then
           mk CondFalse ReasonEgressNodeNotFound
             (''EgressClass '' @ quote (egressClassName c) @ '' names node '' @ quote (ecNode (ecSpec c))
              @ '', which does not exist'')
         else if edConflicts d \<noteq> [] then
           mk CondFalse ReasonEgressConflict (''an earlier Egress selects '' @ joinText '', '' (edConflicts d))
         else if \<not> cidrsKnown then
           mk CondFalse ReasonPodCIDRsUnknown
             (''a Node has no spec.podCIDRs, so the cluster'' @ [CHR 0x27] @
              ''s own destinations cannot be left alone'')
         else if egressClassKey (egressClassName c) \<in> alExhausted alloc then
           mk CondFalse ReasonSubnetExhausted poolFullMessage
         else if down \<noteq> [] then
           mk CondFalse ReasonReturnPathUnavailable
             (''the path to '' @ edNode d @ '' is down for '' @ joinText '', '' down
              @ '': no Link yet, a node not ready, or a class row missing or not ready'')
         else mk CondTrue ReasonAllPodsRouted [])"

definition sortConditions :: "Condition list \<Rightarrow> Condition list" where
  "sortConditions cs = sortBy (\<lambda>a b. condTypeText (cdType a) < condTypeText (cdType b)) cs"

definition firstNode :: "Inputs \<Rightarrow> string" where
  "firstNode inp =
     foldl (\<lambda>first n. if first = [] \<or> nodeName n < first then nodeName n else first) [] (inNodes inp)"

definition statusPod :: "egressPod \<Rightarrow> EgressPod" where
  "statusPod p =
     \<lparr>epName = xpName p, epNode = xpNode p,
      epAddress = (if addrIsValid (xpAddr p) then addrText (xpAddr p) else []),
      epPath = xpPath p,
      epAddress6 = (if addrIsValid (xpAddr6 p) then addrText (xpAddr6 p) else []),
      epPath6 = (if addrIsValid (xpAddr6 p) then xpPath6 p else EgressPathUnset)\<rparr>"

definition egressOwner :: "Inputs \<Rightarrow> egressDecision \<Rightarrow> string" where
  "egressOwner inp d = (if edNode d = [] then firstNode inp else edNode d)"

definition egressStatusOf :: "Inputs \<Rightarrow> linkAlloc \<Rightarrow> egressDecision \<Rightarrow> EgressStatus" where
  "egressStatusOf inp alloc d =
     \<lparr>esNode = edNode d, esPods = map statusPod (edPods d),
      esObservedGeneration = omGeneration (egMeta (edEg d)),
      esConditions = sortConditions
        (edAccepted d #
         (case edClass d of
            Some c \<Rightarrow> if edOk d then [egressProgrammed inp d c alloc (podCIDRsKnown inp)] else []
          | None \<Rightarrow> []))\<rparr>"

definition buildEgressStatus ::
  "Inputs \<Rightarrow> egressDecision list \<Rightarrow> linkAlloc \<Rightarrow> (string \<times> string, EgressStatus) gomap" where
  "buildEgressStatus inp ds alloc =
     foldl (\<lambda>out d. if egressOwner inp d = inNodeName inp
                    then mput (egNamespace (edEg d), egName (edEg d)) (egressStatusOf inp alloc d) out
                    else out) [] ds"

section \<open>Lemmas: claiming pods\<close>

definition egressOrder :: "Egress \<Rightarrow> int \<times> string" where
  "egressOrder g = (omCreationTimestamp (egMeta g), egKey g)"

interpretation egress_creation: keyed_less earlierEgress egressOrder
  by unfold_locales (auto simp: earlierEgress_def egressOrder_def Let_def less_prod_def)

lemma claimPods_distinct:
  assumes "distinct (map podKey ps)"
  shows "claimPods ps claimed =
    (map newEgressPod (filter (\<lambda>p. podKey p \<notin> claimed) ps),
     map (omName \<circ> pdMeta) (filter (\<lambda>p. podKey p \<in> claimed) ps), claimed \<union> podKey ` set ps)"
  using assms
proof (induction ps arbitrary: claimed)
  case (Cons p ps)
  have "filter (\<lambda>q. podKey q \<noteq> podKey p \<and> podKey q \<notin> claimed) ps = filter (\<lambda>q. podKey q \<notin> claimed) ps"
    and "filter (\<lambda>q. podKey q = podKey p \<or> podKey q \<in> claimed) ps = filter (\<lambda>q. podKey q \<in> claimed) ps"
    using Cons.prems by (auto intro!: filter_cong simp: image_iff)
  with Cons show ?case by auto
qed simp

text \<open>Kubernetes names are unique in a kind: no two Pods, and no two Egresses, share a key.\<close>

definition uniquePods :: "Inputs \<Rightarrow> bool" where
  "uniquePods inp \<longleftrightarrow> distinct (map podKey (inPods inp))"

definition uniqueEgresses :: "Inputs \<Rightarrow> bool" where
  "uniqueEgresses inp \<longleftrightarrow> distinct (map egKey (inEgresses inp))"

lemma distinct_selectedPods:
  assumes "uniquePods inp"
  shows "distinct (map podKey (selectedPods asSel inp g))"
proof -
  have "distinct (map podKey (sortBy lt (filter P (inPods inp))))" for lt P
    using assms by (simp add: uniquePods_def distinct_map inj_on_def)
  then show ?thesis by (simp add: selectedPods_def split: option.split)
qed

definition egressValid :: "selector_fn \<Rightarrow> index \<Rightarrow> (string \<rightharpoonup> EgressClass) \<Rightarrow> Egress \<Rightarrow> bool" where
  "egressValid asSel idx classes g \<longleftrightarrow>
     fst (validateEgress asSel idx (classes (egClassName (egSpec g))) g) = ReasonValid"

definition claims :: "selector_fn \<Rightarrow> Inputs \<Rightarrow> index \<Rightarrow> (string \<rightharpoonup> EgressClass) \<Rightarrow> Egress \<Rightarrow> string set" where
  "claims asSel inp idx classes g =
     (if egressValid asSel idx classes g then podKey ` set (selectedPods asSel inp g) else {})"

lemma decideEgress_spec:
  assumes "uniquePods inp"
  shows "snd (decideEgress asSel inp idx classes claimed g) = claimed \<union> claims asSel inp idx classes g"
    and "edEg (fst (decideEgress asSel inp idx classes claimed g)) = g"
    and "edOk (fst (decideEgress asSel inp idx classes claimed g)) = egressValid asSel idx classes g"
    and "edClass (fst (decideEgress asSel inp idx classes claimed g)) = classes (egClassName (egSpec g))"
    and "edPods (fst (decideEgress asSel inp idx classes claimed g)) =
      (if egressValid asSel idx classes g
       then map newEgressPod (filter (\<lambda>p. podKey p \<notin> claimed) (selectedPods asSel inp g)) else [])"
  using claimPods_distinct [OF distinct_selectedPods [OF assms], of asSel g claimed]
  by (auto simp: decideEgress_def Let_def egressValid_def claims_def case_prod_beta)

lemma decideEgresses_nth:
  assumes "uniquePods inp" and "i < length gs"
  shows "decideEgresses asSel inp idx classes claimed gs ! i =
    fst (decideEgress asSel inp idx classes (claimed \<union> (\<Union>g \<in> set (take i gs). claims asSel inp idx classes g)) (gs ! i))"
  using assms(2)
proof (induction gs arbitrary: claimed i)
  case (Cons g gs)
  show ?case
  proof (cases i)
    case (Suc j)
    with Cons show ?thesis
      by (simp add: decideEgress_spec [OF assms(1)] case_prod_beta Let_def Un_assoc)
  qed (simp add: case_prod_beta Let_def)
qed simp

lemma length_decideEgresses [simp]: "length (decideEgresses asSel inp idx classes claimed gs) = length gs"
  by (induction gs arbitrary: claimed) (simp_all add: Let_def case_prod_beta)

lemma resolveEgresses_decision:
  assumes "uniquePods inp" and "uniqueEgresses inp" and "d \<in> set (resolveEgresses asSel inp idx)"
  defines "classes \<equiv> index_by egressClassName (inEgressClasses inp)"
  obtains claimed where "d = fst (decideEgress asSel inp idx classes claimed (edEg d))"
    and "edEg d \<in> set (inEgresses inp)"
    and "claimed = (\<Union>g \<in> {g \<in> set (inEgresses inp). earlierEgress g (edEg d)}. claims asSel inp idx classes g)"
proof -
  let ?gs = "sortBy earlierEgress (inEgresses inp)"
  obtain i where i: "i < length ?gs" "d = decideEgresses asSel inp idx classes {} ?gs ! i"
    using assms(3) by (auto simp: resolveEgresses_def classes_def in_set_conv_nth)
  let ?cl = "\<Union>g \<in> set (take i ?gs). claims asSel inp idx classes g"
  have d: "d = fst (decideEgress asSel inp idx classes ?cl (?gs ! i))"
    using decideEgresses_nth [OF assms(1) i(1), of asSel idx classes "{}"] i(2) by simp
  then have g: "edEg d = ?gs ! i" by (simp add: decideEgress_spec [OF assms(1)])
  have k: "inj_on egKey (set (inEgresses inp))" and dist: "distinct (inEgresses inp)"
    using assms(2) by (simp_all add: uniqueEgresses_def distinct_map)
  have "inj_on egressOrder (set (inEgresses inp))"
    by (rule inj_onI) (use k in \<open>auto simp: egressOrder_def dest: inj_onD\<close>)
  then have "sorted_wrt earlierEgress ?gs" by (rule egress_creation.sort_strict) (rule dist)
  from take_strict [OF this _ i(1)]
  have "set (take i ?gs) = {h \<in> set (inEgresses inp). earlierEgress h (edEg d)}"
    unfolding g by (auto simp: egress_creation.less_key)
  then have "?cl = (\<Union>g \<in> {g \<in> set (inEgresses inp). earlierEgress g (edEg d)}. claims asSel inp idx classes g)"
    by (simp only:)
  moreover have "edEg d \<in> set (inEgresses inp)" unfolding g using nth_mem [OF i(1)] by simp
  moreover have "d = fst (decideEgress asSel inp idx classes ?cl (edEg d))" unfolding g by (rule d)
  ultimately show ?thesis by (intro that)
qed

lemma selectedPods_in: "p \<in> set (selectedPods asSel inp g) \<Longrightarrow> p \<in> set (inPods inp)"
  by (auto simp: selectedPods_def split: option.splits if_splits)

lemma podKey_eq: "uniquePods inp \<Longrightarrow> p \<in> set (inPods inp) \<Longrightarrow> q \<in> set (inPods inp) \<Longrightarrow> podKey p = podKey q \<Longrightarrow> p = q"
  by (auto simp: uniquePods_def distinct_map dest: inj_onD)

lemma ok_has_class: "d \<in> set (decideEgresses asSel inp idx classes claimed gs) \<Longrightarrow> edOk d \<Longrightarrow> \<exists>c. edClass d = Some c"
proof (induction gs arbitrary: claimed)
  case (Cons g gs)
  have "edOk (fst (decideEgress asSel inp idx classes claimed g)) \<Longrightarrow>
      edClass (fst (decideEgress asSel inp idx classes claimed g)) \<noteq> None"
    by (auto simp: decideEgress_def validateEgress_def Let_def case_prod_beta split: option.splits)
  with Cons show ?case by (auto simp: Let_def case_prod_beta)
qed simp

section \<open>Lemmas: paths and what they emit\<close>

lemma decidePath_keep [simp]:
  "xpName (decidePath inp idx alloc k c d p) = xpName p" "xpNode (decidePath inp idx alloc k c d p) = xpNode p"
  "xpAddr (decidePath inp idx alloc k c d p) = xpAddr p" "xpAddr6 (decidePath inp idx alloc k c d p) = xpAddr6 p"
  "xpFailClosed (decidePath inp idx alloc k c d p) = egFailClosed (egSpec (edEg d))"
  by (simp_all add: decidePath_def Let_def split: option.split)

text \<open>The path of a pod with an address, on a node other than the egress node: linked, or down.\<close>

lemma decidePath_path:
  fixes d :: egressDecision
  defines "down \<equiv> (if egFailClosed (egSpec (edEg d)) then EgressPathBlocked else EgressPathDirect)"
  assumes "xpPath (decidePath inp idx alloc k c d p) \<noteq> EgressPathLocal"
  shows "xpPath (decidePath inp idx alloc k c d p) = EgressPathLink \<or> xpPath (decidePath inp idx alloc k c d p) = down"
    and "addrIsValid (xpAddr6 p) \<Longrightarrow>
      xpPath6 (decidePath inp idx alloc k c d p) = EgressPathLink \<or> xpPath6 (decidePath inp idx alloc k c d p) = down"
  using assms by (auto simp: decidePath_def Let_def split: option.splits if_splits)

lemma decidePath_link:
  assumes "xpPath (decidePath inp idx alloc k c d p) = EgressPathLink \<or>
      xpPath6 (decidePath inp idx alloc k c d p) = EgressPathLink"
  shows "xpLinked (decidePath inp idx alloc k c d p) \<and>
    (\<exists>lp. buildLinkParams idx (egressClassUnderlay c) (xpNode p) (edNode d)
       (xpSlot (decidePath inp idx alloc k c d p)) (linkPort inp) = Some lp)"
  using assms by (auto simp: decidePath_def Let_def split: option.splits if_splits)

lemma podFamilies_cases:
  assumes "(a, path, f) \<in> set (podFamilies inp p)"
  shows "(f = FamilyIPv4 \<and> a = xpAddr p \<and> path = xpPath p \<and> addrIsValid (xpAddr p)) \<or>
    (f = FamilyIPv6 \<and> a = xpAddr6 p \<and> path = xpPath6 p \<and> addrIsValid (xpAddr6 p) \<and> inIPv6Forwarding inp)"
  using assms by (auto simp: podFamilies_def split: if_splits)

text \<open>Everything a pod emits, and the routing of blocked pods, is part of the whole.\<close>

lemma emitEgress_parts:
  assumes "sel emptyState = []" and "\<And>a b. sel (st_app a b) = sel a @ sel b"
    and "\<And>xs. sel (st_concat xs) = concat (map sel xs)" and "\<And>st cidrs. sel (st\<lparr>stClusterCIDRs := cidrs\<rparr>) = sel st"
  shows "d \<in> set ds \<Longrightarrow> edOk d \<Longrightarrow> p \<in> set (edPods d) \<Longrightarrow>
      set (sel (emitPod inp idx d p)) \<subseteq> set (sel (emitEgress inp idx ds))"
    and "set (sel (emitBlocked (blockedFamilies inp ds))) \<subseteq> set (sel (emitEgress inp idx ds))"
  by (auto simp: emitEgress_def Let_def assms) blast+

lemma emitEgress_pod:
  assumes "d \<in> set ds" and "edOk d" and "p \<in> set (edPods d)"
  shows "set (stEgress (emitPod inp idx d p)) \<subseteq> set (stEgress (emitEgress inp idx ds))"
    and "set (stRules (emitPod inp idx d p)) \<subseteq> set (stRules (emitEgress inp idx ds))"
    and "set (stRoutes (emitPod inp idx d p)) \<subseteq> set (stRoutes (emitEgress inp idx ds))"
    and "set (stLinks (emitPod inp idx d p)) \<subseteq> set (stLinks (emitEgress inp idx ds))"
    and "set (stEgressGateway (emitPod inp idx d p)) \<subseteq> set (stEgressGateway (emitEgress inp idx ds))"
  by (rule emitEgress_parts(1) [OF _ _ _ _ assms]; simp)+

lemma emitEgress_blocked:
  "set (stRules (emitBlocked (blockedFamilies inp ds))) \<subseteq> set (stRules (emitEgress inp idx ds))"
  "set (stRoutes (emitBlocked (blockedFamilies inp ds))) \<subseteq> set (stRoutes (emitEgress inp idx ds))"
  by (rule emitEgress_parts(2); simp)+

definition blackhole :: "Family \<Rightarrow> Route" where
  "blackhole f = \<lparr>rtTable = EgressBlockedTable, rtVia = AddrZero, rtDev = [], rtBlackhole = True, rtBlackholeFamily = f\<rparr>"

lemma emitBlocked_in:
  "f \<in> F \<Longrightarrow> suppressRule EgressBlockedMark f \<in> set (stRules (emitBlocked F))"
  "f \<in> F \<Longrightarrow> egressDivertRule EgressBlockedMark EgressBlockedTable f \<in> set (stRules (emitBlocked F))"
  "f \<in> F \<Longrightarrow> blackhole f \<in> set (stRoutes (emitBlocked F))"
  by (cases f; auto simp: emitBlocked_def blackhole_def)+

lemma emitPodNode_family:
  assumes "(a, path, f) \<in> set (podFamilies inp p)"
    and "x \<in> set (sel (emitFamily (case podLinkParams inp idx d p of Some lp \<Rightarrow> lp | None \<Rightarrow> linkParamsZero) (a, path, f)))"
    and "\<And>a b. sel (st_app a b) = sel a @ sel b" and "\<And>xs. sel (st_concat xs) = concat (map sel xs)"
  shows "x \<in> set (sel (emitEgressPodNode inp idx d p))"
  using assms(1,2) by (force simp: emitEgressPodNode_def Let_def assms(3,4))

lemma in_decidePaths:
  assumes "d \<in> set (decidePaths inp idx alloc ds)" and "\<And>d. d \<in> set ds \<Longrightarrow> edOk d \<Longrightarrow> \<exists>c. edClass d = Some c"
    and "edOk d" and "p \<in> set (edPods d)"
  obtains d0 c p0 where "d0 \<in> set ds" and "edClass d = Some c" and "edEg d = edEg d0" and "edNode d = edNode d0"
    and "p0 \<in> set (edPods d0)" and "p = decidePath inp idx alloc (podCIDRsKnown inp) c d0 p0"
proof -
  obtain d0 where d0: "d0 \<in> set ds" and d: "d = (case edClass d0 of
      Some c \<Rightarrow> if edOk d0 then d0\<lparr>edPods := map (decidePath inp idx alloc (podCIDRsKnown inp) c d0) (edPods d0)\<rparr> else d0
    | None \<Rightarrow> d0)"
    using assms(1) by (auto simp: decidePaths_def)
  then have ok: "edOk d0" using assms(3) by (auto split: option.splits if_splits)
  then obtain c where "edClass d0 = Some c" using assms(2) d0 by blast
  then show ?thesis using d d0 ok assms(4) that by auto
qed

text \<open>What a fail-closed pod's node holds for it in one family: the link's routing, or the blackhole.\<close>

definition diverted :: "State \<Rightarrow> addr \<Rightarrow> Family \<Rightarrow> (Route \<Rightarrow> bool) \<Rightarrow> bool" where
  "diverted st a f ok \<longleftrightarrow>
     (\<exists>mark table. \<lparr>erSrcAddr = a, erMark = mark\<rparr> \<in> set (stEgress st) \<and>
        suppressRule mark f \<in> set (stRules st) \<and> egressDivertRule mark table f \<in> set (stRules st) \<and>
        (\<exists>r \<in> set (stRoutes st). rtTable r = table \<and> ok r))"

lemma diverted_mono: "diverted st a f P \<Longrightarrow> (\<And>r. P r \<Longrightarrow> Q r) \<Longrightarrow> diverted st a f Q"
  unfolding diverted_def by blast

lemma diverted_link:
  assumes "d \<in> set ds" and "edOk d" and "p \<in> set (edPods d)" and "xpNode p = inNodeName inp"
    and "xpPath p \<noteq> EgressPathLocal" and "(a, EgressPathLink, f) \<in> set (podFamilies inp p)"
    and lp: "podLinkParams inp idx d p = Some lp"
  shows "diverted (emitEgress inp idx ds) a f (\<lambda>r. r = returnRoute lp f)"
proof -
  have e: "emitPod inp idx d p = st_app (emitEgressPodNode inp idx d p)
      (if edNode d = inNodeName inp \<and> xpLinked p then emitEgressGateway inp idx d p else emptyState)"
    using assms(4,5) by (simp add: emitPod_def)
  note fam = emitPodNode_family [OF assms(6)]
  have "\<lparr>erSrcAddr = a, erMark = lpMark lp\<rparr> \<in> set (stEgress (emitPod inp idx d p))"
    "suppressRule (lpMark lp) f \<in> set (stRules (emitPod inp idx d p))"
    "egressDivertRule (lpMark lp) (lpTable lp) f \<in> set (stRules (emitPod inp idx d p))"
    "returnRoute lp f \<in> set (stRoutes (emitPod inp idx d p))"
    unfolding e by (simp_all add: fam [of _ stEgress] fam [of _ stRules] fam [of _ stRoutes] emitFamily_def lp)
  moreover have "rtTable (returnRoute lp f) = lpTable lp" by (simp add: returnRoute_def)
  ultimately show ?thesis
    using emitEgress_pod [OF assms(1-3), of inp idx] unfolding diverted_def by blast
qed

lemma diverted_blocked:
  assumes "d \<in> set ds" and "edOk d" and "p \<in> set (edPods d)" and "xpNode p = inNodeName inp"
    and "xpPath p \<noteq> EgressPathLocal" and "(a, EgressPathBlocked, f) \<in> set (podFamilies inp p)"
  shows "diverted (emitEgress inp idx ds) a f (\<lambda>r. r = blackhole f)"
proof -
  have e: "emitPod inp idx d p = st_app (emitEgressPodNode inp idx d p)
      (if edNode d = inNodeName inp \<and> xpLinked p then emitEgressGateway inp idx d p else emptyState)"
    using assms(4,5) by (simp add: emitPod_def)
  have "\<lparr>erSrcAddr = a, erMark = EgressBlockedMark\<rparr> \<in> set (stEgress (emitPod inp idx d p))"
    unfolding e by (simp add: emitPodNode_family [OF assms(6), of _ stEgress] emitFamily_def)
  moreover have "f \<in> blockedFamilies inp ds"
    using assms by (force simp: blockedFamilies_def blockedOf_def)
  moreover have "rtTable (blackhole f) = EgressBlockedTable" by (simp add: blackhole_def)
  ultimately show ?thesis
    using emitEgress_pod(1) [OF assms(1-3), of inp idx] emitEgress_blocked [of inp ds idx]
      emitBlocked_in [of f "blockedFamilies inp ds"]
    unfolding diverted_def by blast
qed

section \<open>Lemmas: the kept state\<close>

text \<open>The keys of the blocking rules and routes are all different, so sorting loses none of them.\<close>

definition blockedRules :: "IPRule list" where
  "blockedRules = concat (map (\<lambda>f. [suppressRule EgressBlockedMark f, egressDivertRule EgressBlockedMark EgressBlockedTable f])
     [FamilyIPv4, FamilyIPv6])"

lemma true_not_false: "X @ ''true'' \<noteq> Y @ ''false''"
proof
  assume "X @ ''true'' = Y @ ''false''"
  then have "rev (X @ ''true'') = rev (Y @ ''false'')" by (rule arg_cong)
  then show False by simp
qed

lemma ruleKey_suffix: "\<exists>X. ruleKey r = X @ boolText (irSuppressDefault r)"
  by (auto simp: ruleKey_def intro: append_assoc [symmetric])

lemma ruleKey_suppress: "irSuppressDefault r \<noteq> irSuppressDefault r' \<Longrightarrow> ruleKey r \<noteq> ruleKey r'"
  using ruleKey_suffix [of r] ruleKey_suffix [of r'] true_not_false
  by (auto simp: boolText_def split: if_splits)

lemma blocked_keys:
  "inj_on ruleKey (set blockedRules)" "inj_on routeKey {blackhole FamilyIPv4, blackhole FamilyIPv6}"
proof -
  have "ruleKey (suppressRule m f) = ruleKey (suppressRule m g) \<longleftrightarrow> f = g"
    and "ruleKey (egressDivertRule m t f) = ruleKey (egressDivertRule m t g) \<longleftrightarrow> f = g" for m t f g
    by (cases f; cases g; simp add: ruleKey_def suppressRule_def egressDivertRule_def)+
  moreover have "ruleKey (suppressRule m f) \<noteq> ruleKey (egressDivertRule m t g)" for m t f g
    by (rule ruleKey_suppress) (simp add: suppressRule_def egressDivertRule_def)
  ultimately show "inj_on ruleKey (set blockedRules)" by (auto simp: blockedRules_def inj_on_def dest: sym)
  show "inj_on routeKey {blackhole FamilyIPv4, blackhole FamilyIPv6}" by (simp add: routeKey_def blackhole_def)
qed

lemma sortUnique_blocked:
  "set (sortUnique ruleKey (stRules (emitBlocked F))) = set (stRules (emitBlocked F))"
  "set (sortUnique routeKey (stRoutes (emitBlocked F))) = set (stRoutes (emitBlocked F))"
proof -
  have "set (stRules (emitBlocked F)) \<subseteq> set blockedRules"
    "set (stRoutes (emitBlocked F)) \<subseteq> {blackhole FamilyIPv4, blackhole FamilyIPv6}"
    by (auto simp: emitBlocked_def blockedRules_def blackhole_def)
  then show "set (sortUnique ruleKey (stRules (emitBlocked F))) = set (stRules (emitBlocked F))"
    "set (sortUnique routeKey (stRoutes (emitBlocked F))) = set (stRoutes (emitBlocked F))"
    using blocked_keys by (meson inj_on_subset sortUnique_set)+
qed

lemma keepState_sel:
  assumes "keptFamilies inp ds \<noteq> []"
  shows "stEgress (keepState inp ds) =
      sortUnique egressKey (map (\<lambda>(a, _). \<lparr>erSrcAddr = a, erMark = EgressBlockedMark\<rparr>) (keptFamilies inp ds))"
    and "stRules (keepState inp ds) = sortUnique ruleKey (stRules (emitBlocked (set (map snd (keptFamilies inp ds)))))"
    and "stRoutes (keepState inp ds) = sortUnique routeKey (stRoutes (emitBlocked (set (map snd (keptFamilies inp ds)))))"
proof -
  have "stEgress (emitBlocked F) = []" for F by (auto simp: emitBlocked_def)
  then show "stEgress (keepState inp ds) =
      sortUnique egressKey (map (\<lambda>(a, _). \<lparr>erSrcAddr = a, erMark = EgressBlockedMark\<rparr>) (keptFamilies inp ds))"
    "stRules (keepState inp ds) = sortUnique ruleKey (stRules (emitBlocked (set (map snd (keptFamilies inp ds)))))"
    "stRoutes (keepState inp ds) = sortUnique routeKey (stRoutes (emitBlocked (set (map snd (keptFamilies inp ds)))))"
    using assms by (simp_all add: keepState_def Let_def sortState_def)
qed

lemma keepState_blocks:
  assumes "(a, f) \<in> set (keptFamilies inp ds)"
  shows "\<exists>r \<in> set (stEgress (keepState inp ds)). addrText (erSrcAddr r) = addrText a \<and> erMark r = EgressBlockedMark"
    and "suppressRule EgressBlockedMark f \<in> set (stRules (keepState inp ds))"
    and "egressDivertRule EgressBlockedMark EgressBlockedTable f \<in> set (stRules (keepState inp ds))"
    and "blackhole f \<in> set (stRoutes (keepState inp ds))"
proof -
  let ?k = "keptFamilies inp ds"
  let ?es = "map (\<lambda>(a, _). \<lparr>erSrcAddr = a, erMark = EgressBlockedMark\<rparr>) ?k"
  have ne: "?k \<noteq> []" using assms by auto
  have "\<lparr>erSrcAddr = a, erMark = EgressBlockedMark\<rparr> \<in> set ?es" using assms by force
  then have "egressKey \<lparr>erSrcAddr = a, erMark = EgressBlockedMark\<rparr> \<in> egressKey ` set (sortUnique egressKey ?es)"
    unfolding sortUnique_keys by (rule imageI)
  then obtain r where k: "egressKey \<lparr>erSrcAddr = a, erMark = EgressBlockedMark\<rparr> = egressKey r"
    and r: "r \<in> set (sortUnique egressKey ?es)" by (rule imageE)
  have "r \<in> set ?es" using r sortUnique_subset [of egressKey ?es] by (rule rev_subsetD)
  then have "erMark r = EgressBlockedMark" by auto
  with k r show "\<exists>r \<in> set (stEgress (keepState inp ds)). addrText (erSrcAddr r) = addrText a \<and> erMark r = EgressBlockedMark"
    unfolding keepState_sel(1) [OF ne] by (intro bexI [of _ r]) (simp_all add: egressKey_def)
  have "f \<in> set (map snd ?k)" using assms by force
  from emitBlocked_in [OF this]
  show "suppressRule EgressBlockedMark f \<in> set (stRules (keepState inp ds))"
    "egressDivertRule EgressBlockedMark EgressBlockedTable f \<in> set (stRules (keepState inp ds))"
    "blackhole f \<in> set (stRoutes (keepState inp ds))"
    unfolding keepState_sel [OF ne] sortUnique_blocked by simp_all
qed

section \<open>Properties\<close>

text \<open>
  C13. Each pod belongs to the earliest Egress that selects it. The pods an accepted Egress decides
  are exactly those its selector picks, less those that an accepted Egress created earlier picks
  too; so no pod is decided twice and none that is selected is lost.
\<close>

theorem egress_first_come:
  assumes "uniquePods inp" and "uniqueEgresses inp" and "d \<in> set (resolveEgresses asSel inp idx)" and "edOk d"
  shows "edEg d \<in> set (inEgresses inp) \<and>
    edPods d = map newEgressPod (filter (\<lambda>p.
      \<not> (\<exists>g \<in> set (inEgresses inp). earlierEgress g (edEg d) \<and>
           egressValid asSel idx (index_by egressClassName (inEgressClasses inp)) g \<and>
           p \<in> set (selectedPods asSel inp g))) (selectedPods asSel inp (edEg d)))"
proof -
  let ?cs = "index_by egressClassName (inEgressClasses inp)"
  obtain claimed where d: "d = fst (decideEgress asSel inp idx ?cs claimed (edEg d))"
    and g: "edEg d \<in> set (inEgresses inp)"
    and cl: "claimed = (\<Union>g \<in> {g \<in> set (inEgresses inp). earlierEgress g (edEg d)}. claims asSel inp idx ?cs g)"
    by (rule resolveEgresses_decision [OF assms(1-3)])
  have "egressValid asSel idx ?cs (edEg d)" using assms(4) d decideEgress_spec(3) [OF assms(1)] by metis
  then have "edPods d = map newEgressPod (filter (\<lambda>p. podKey p \<notin> claimed) (selectedPods asSel inp (edEg d)))"
    using d decideEgress_spec(5) [OF assms(1)] by metis
  moreover have "podKey p \<in> podKey ` set (selectedPods asSel inp g) \<longleftrightarrow> p \<in> set (selectedPods asSel inp g)"
    if "p \<in> set (selectedPods asSel inp (edEg d))" for p g
    using that podKey_eq [OF assms(1)] selectedPods_in by blast
  then have "filter (\<lambda>p. podKey p \<notin> claimed) (selectedPods asSel inp (edEg d)) =
      filter (\<lambda>p. \<not> (\<exists>g \<in> set (inEgresses inp). earlierEgress g (edEg d) \<and> egressValid asSel idx ?cs g \<and>
           p \<in> set (selectedPods asSel inp g))) (selectedPods asSel inp (edEg d))"
    unfolding cl by (intro filter_cong refl) (auto simp: claims_def split: if_splits)
  ultimately show ?thesis using g by simp
qed

text \<open>The example's pod is selected by two Egresses; the earlier one decides it.\<close>

abbreviation exEgresses :: "egressDecision list" where
  "exEgresses \<equiv> resolveEgresses exSel (exInputs ''c'') (newIndex (exInputs ''c''))"

lemma egress_first_come_witness:
  "map (egName \<circ> edEg) exEgresses = [''d'', ''f''] \<and>
   map xpName (edPods (exEgresses ! 0)) = [''z''] \<and> edPods (exEgresses ! 1) = [] \<and>
   edPods (exEgresses ! 1) = map newEgressPod (filter (\<lambda>p.
      \<not> (\<exists>g \<in> set (inEgresses (exInputs ''c'')). earlierEgress g (edEg (exEgresses ! 1)) \<and>
           egressValid exSel (newIndex (exInputs ''c'')) (index_by egressClassName (inEgressClasses (exInputs ''c''))) g \<and>
           p \<in> set (selectedPods exSel (exInputs ''c'') g)))
        (selectedPods exSel (exInputs ''c'') (edEg (exEgresses ! 1))))"
proof -
  have n: "map (egName \<circ> edEg) exEgresses = [''d'', ''f'']" "map xpName (edPods (exEgresses ! 0)) = [''z'']"
    "edPods (exEgresses ! 1) = []" and u: "uniquePods (exInputs ''c'')" "uniqueEgresses (exInputs ''c'')"
    and ok: "edOk (exEgresses ! 1)" by code_simp+
  have "length exEgresses = 2" using arg_cong [OF n(1), of length] by simp
  then have "exEgresses ! 1 \<in> set exEgresses" by simp
  from egress_first_come [OF u this ok] n show ?thesis by blast
qed

text \<open>
  C7. A fail-closed pod never leaves from its own node. On the pod's node, in every family the pod
  has an address in and the node forwards, the State marks the pod's traffic, lets only routes
  more specific than the default answer from the main table, and diverts the rest to a table
  whose route is the link to the egress node or a blackhole. The pod's path is then Link or Blocked,
  never Direct.
\<close>

theorem fail_closed_diverted:
  assumes d: "d \<in> set (decidePaths inp idx alloc (resolveEgresses asSel inp idx))" "edOk d"
    and p: "p \<in> set (edPods d)" "xpNode p = inNodeName inp" "xpPath p \<noteq> EgressPathLocal"
    and "egFailClosed (egSpec (edEg d))" and fam: "(a, path, f) \<in> set (podFamilies inp p)"
  defines "st \<equiv> emitEgress inp idx (decidePaths inp idx alloc (resolveEgresses asSel inp idx))"
  shows "(path = EgressPathLink \<and> (\<exists>lp. podLinkParams inp idx d p = Some lp \<and> diverted st a f (\<lambda>r. r = returnRoute lp f))) \<or>
    (path = EgressPathBlocked \<and> diverted st a f (\<lambda>r. r = blackhole f))"
proof -
  have cls: "edOk d \<Longrightarrow> \<exists>c. edClass d = Some c" if "d \<in> set (resolveEgresses asSel inp idx)" for d
    using that ok_has_class by (auto simp: resolveEgresses_def)
  obtain d0 c p0 where c: "edClass d = Some c" "edEg d = edEg d0" "edNode d = edNode d0"
    and p0: "p = decidePath inp idx alloc (podCIDRsKnown inp) c d0 p0"
    by (rule in_decidePaths [OF d(1) cls d(2) p(1)])
  have "path = EgressPathLink \<or> path = EgressPathBlocked"
    using podFamilies_cases [OF fam] decidePath_path [of inp idx alloc "podCIDRsKnown inp" c d0 p0] p(3) assms(6) c(2)
    by (auto simp: p0)
  then show ?thesis
  proof
    assume "path = EgressPathBlocked"
    with diverted_blocked [OF d p] fam show ?thesis by (simp add: st_def)
  next
    assume link: "path = EgressPathLink"
    then have "xpPath p = EgressPathLink \<or> xpPath6 p = EgressPathLink" using podFamilies_cases [OF fam] by auto
    from decidePath_link [OF this [unfolded p0]] obtain lp where "podLinkParams inp idx d p = Some lp"
      by (auto simp: podLinkParams_def c p0)
    with diverted_link [OF d p _ this] fam link show ?thesis by (simp add: st_def)
  qed
qed

lemma fail_closed_diverted_witness:
  "let ds = decidePaths (exInputs ''c'') (newIndex (exInputs ''c'')) exAlloc exEgresses; p = edPods (ds ! 0) ! 0 in
     xpPath p = EgressPathLink \<and>
     (\<exists>lp. diverted (emitEgress (exInputs ''c'') (newIndex (exInputs ''c'')) ds) (xpAddr p) FamilyIPv4
             (\<lambda>r. r = returnRoute lp FamilyIPv4))"
proof -
  let ?i = "exInputs ''c''" and ?x = "newIndex (exInputs ''c'')"
  let ?ds = "decidePaths ?i ?x exAlloc exEgresses"
  let ?d = "?ds ! 0" let ?p = "edPods ?d ! 0"
  have l: "length ?ds = 2" "length (edPods ?d) = 1"
    and f: "edOk ?d" "xpNode ?p = inNodeName ?i" "egFailClosed (egSpec (edEg ?d))" "xpPath ?p = EgressPathLink"
      "addrIsValid (xpAddr ?p)" by code_simp+
  have d: "?d \<in> set ?ds" and p: "?p \<in> set (edPods ?d)" by (rule nth_mem; simp only: l; simp)+
  have "(xpAddr ?p, EgressPathLink, FamilyIPv4) \<in> set (podFamilies ?i ?p)" using f(4,5) by (simp add: podFamilies_def)
  from fail_closed_diverted [OF d f(1) p f(2) _ f(3) this] f(4) show ?thesis unfolding Let_def by auto
qed

text \<open>
  Stopping the agent opens no window. The state it leaves on the node holds, for every
  fail-closed pod of this node whose path is not local and in every family, an entry for the
  pod's address with the blocking mark, and the rules and the blackhole route that mark needs.
\<close>

theorem keep_blocks_fail_closed:
  assumes "d \<in> set (decidePaths inp idx alloc (resolveEgresses asSel inp idx))" and "edOk d"
    and "p \<in> set (edPods d)" and "xpNode p = inNodeName inp" and "xpPath p \<noteq> EgressPathLocal"
    and "egFailClosed (egSpec (edEg d))" and "(a, path, f) \<in> set (podFamilies inp p)"
  defines "st \<equiv> keepState inp (decidePaths inp idx alloc (resolveEgresses asSel inp idx))"
  shows "(\<exists>r \<in> set (stEgress st). addrText (erSrcAddr r) = addrText a \<and> erMark r = EgressBlockedMark) \<and>
    suppressRule EgressBlockedMark f \<in> set (stRules st) \<and>
    egressDivertRule EgressBlockedMark EgressBlockedTable f \<in> set (stRules st) \<and>
    blackhole f \<in> set (stRoutes st)"
proof -
  have cls: "edOk d \<Longrightarrow> \<exists>c. edClass d = Some c" if "d \<in> set (resolveEgresses asSel inp idx)" for d
    using that ok_has_class by (auto simp: resolveEgresses_def)
  obtain d0 c p0 where "edEg d = edEg d0" and "p = decidePath inp idx alloc (podCIDRsKnown inp) c d0 p0"
    by (rule in_decidePaths [OF assms(1) cls assms(2,3)])
  then have "xpFailClosed p" using assms(6) by simp
  then have "(a, f) \<in> set (keptFamilies inp (decidePaths inp idx alloc (resolveEgresses asSel inp idx)))"
    using assms(1-5) podFamilies_cases [OF assms(7)] unfolding keptFamilies_def by force
  from keepState_blocks [OF this] show ?thesis by (simp add: st_def)
qed

lemma keep_blocks_fail_closed_witness:
  "let ds = decidePaths (exInputs ''c'') (newIndex (exInputs ''c'')) exAlloc exEgresses; st = keepState (exInputs ''c'') ds in
     blackhole FamilyIPv4 \<in> set (stRoutes st) \<and>
     (\<exists>r \<in> set (stEgress st). addrText (erSrcAddr r) = addrText (xpAddr (edPods (ds ! 0) ! 0)) \<and> erMark r = EgressBlockedMark)"
proof -
  let ?i = "exInputs ''c''" and ?x = "newIndex (exInputs ''c'')"
  let ?ds = "decidePaths ?i ?x exAlloc exEgresses"
  let ?d = "?ds ! 0" let ?p = "edPods ?d ! 0"
  have l: "length ?ds = 2" "length (edPods ?d) = 1"
    and f: "edOk ?d" "xpNode ?p = inNodeName ?i" "egFailClosed (egSpec (edEg ?d))" "xpPath ?p = EgressPathLink"
      "addrIsValid (xpAddr ?p)" by code_simp+
  have d: "?d \<in> set ?ds" and p: "?p \<in> set (edPods ?d)" by (rule nth_mem; simp only: l; simp)+
  have "(xpAddr ?p, EgressPathLink, FamilyIPv4) \<in> set (podFamilies ?i ?p)" using f(4,5) by (simp add: podFamilies_def)
  from keep_blocks_fail_closed [OF d f(1) p f(2) _ f(3) this] f(4) show ?thesis unfolding Let_def by auto
qed

text \<open>
  C14. A linked pod's traffic leaves from the egress node and its replies come back. The pod's node
  diverts the pod's marked traffic into the link's table, whose route leads to the egress node's
  end of the link; the egress node gives flows that arrive on that device the same mark, diverts
  that mark at the return-path preference into its own table of the same number, and that table's
  route leads back to the pod's node's end. The two devices are the two ends of one tunnel.
\<close>

theorem egress_round_trip:
  assumes "d \<in> set ds" and "edOk d" and "edClass d = Some c" and "p \<in> set (edPods d)"
    and "xpPath p = EgressPathLink" and "xpLinked p" and "addrIsValid (xpAddr p)"
    and "inNodeName home = xpNode p" and "inNodeName gate = edNode d" and "xpNode p \<noteq> edNode d"
    and "inLinkPort home = inLinkPort gate"
    and "0 < egressClassUnderlay c (xpNode p)" and "0 < egressClassUnderlay c (edNode d)"
    and lp: "podLinkParams home idx d p = Some lp"
  defines "H \<equiv> emitEgress home idx ds" and "G \<equiv> emitEgress gate idx ds"
  shows "diverted H (xpAddr p) FamilyIPv4 (\<lambda>r. rtVia r = lpPeerEnd lp \<and> rtDev r = lpName lp) \<and>
    \<lparr>egwIface = lpName lp, egwMark = lpMark lp\<rparr> \<in> set (stEgressGateway G) \<and>
    \<lparr>irPref = 102, irMark = lpMark lp, irTo = None, irTable = lpTable lp, irFamily = FamilyIPv4,
     irSuppressDefault = False\<rparr> \<in> set (stRules G) \<and>
    \<lparr>rtTable = lpTable lp, rtVia = lpThisEnd lp, rtDev = lpName lp, rtBlackhole = False,
     rtBlackholeFamily = FamilyIPv4\<rparr> \<in> set (stRoutes G) \<and>
    (\<exists>h \<in> set (stLinks H). \<exists>g \<in> set (stLinks G).
       lnName h = lpName lp \<and> lnName g = lpName lp \<and> lnVNI h = lnVNI g \<and> lnPort h = lnPort g \<and>
       lnLocalAddr h = lnRemoteAddr g \<and> lnRemoteAddr h = lnLocalAddr g)"
proof -
  have port: "linkPort home = linkPort gate" using assms(11) by (simp add: linkPort_def)
  have blp: "buildLinkParams idx (egressClassUnderlay c) (xpNode p) (edNode d) (xpSlot p) (linkPort home) = Some lp"
    using lp assms(3,6) by (simp add: podLinkParams_def)
  obtain lg where lg: "buildLinkParams idx (egressClassUnderlay c) (edNode d) (xpNode p) (xpSlot p) (linkPort home) = Some lg"
    and eq: "lpName lg = lpName lp" "lpVni lg = lpVni lp" "lpPort lg = lpPort lp" "lpMark lg = lpMark lp"
      "lpTable lg = lpTable lp" "lpLocalAddr lg = lpRemoteAddr lp" "lpRemoteAddr lg = lpLocalAddr lp"
      "lpPeerEnd lg = lpThisEnd lp"
    by (rule buildLinkParams_mirror [OF assms(10,12,13) blp])
  have nl: "xpPath p \<noteq> EgressPathLocal" using assms(5) by simp
  have "(xpAddr p, EgressPathLink, FamilyIPv4) \<in> set (podFamilies home p)" using assms(5,7) by (simp add: podFamilies_def)
  from diverted_link [OF assms(1,2,4) assms(8) [symmetric] nl this lp]
  have "diverted H (xpAddr p) FamilyIPv4 (\<lambda>r. rtVia r = lpPeerEnd lp \<and> rtDev r = lpName lp)"
    unfolding H_def by (rule diverted_mono) (simp add: returnRoute_def)
  moreover
  let ?g = "linkDevice lg (xpHas6 p \<and> inIPv6Forwarding gate)" and ?h = "linkDevice lp (xpHas6 p \<and> inIPv6Forwarding home)"
  have g: "emitPod gate idx d p = emitEgressGateway gate idx d p"
    using nl assms(6,8,9,10) by (simp add: emitPod_def)
  have gate: "\<lparr>egwIface = lpName lp, egwMark = lpMark lp\<rparr> \<in> set (stEgressGateway G)"
      "divertRule lg FamilyIPv4 \<in> set (stRules G)" "returnRoute lg FamilyIPv4 \<in> set (stRoutes G)" "?g \<in> set (stLinks G)"
    using emitEgress_pod [OF assms(1,2,4), of gate idx] lg
    unfolding G_def g by (auto simp: emitEgressGateway_def assms(3) port Let_def eq)
  moreover have "?h \<in> set (stLinks H)"
    using emitEgress_pod(4) [OF assms(1,2,4), of home idx] nl assms(8)
    unfolding H_def by (auto simp: emitPod_def emitEgressPodNode_def Let_def lp assms(6))
  then have "\<exists>h \<in> set (stLinks H). \<exists>g \<in> set (stLinks G).
       lnName h = lpName lp \<and> lnName g = lpName lp \<and> lnVNI h = lnVNI g \<and> lnPort h = lnPort g \<and>
       lnLocalAddr h = lnRemoteAddr g \<and> lnRemoteAddr h = lnLocalAddr g"
    by (rule bexI [rotated]) (rule bexI [OF _ gate(4)], simp add: linkDevice_def eq)
  ultimately show ?thesis
    by (simp add: divertRule_def returnRoute_def eq)
qed

lemma egress_round_trip_witness:
  "let ds = decidePaths (exInputs ''c'') (newIndex (exInputs ''c'')) exAlloc exEgresses; d = ds ! 0; p = edPods d ! 0;
       G = emitEgress (exInputs ''a'') (newIndex (exInputs ''c'')) ds in
     xpNode p = ''c'' \<and> edNode d = ''a'' \<and>
     (\<exists>lp. podLinkParams (exInputs ''c'') (newIndex (exInputs ''c'')) d p = Some lp \<and>
        \<lparr>egwIface = lpName lp, egwMark = lpMark lp\<rparr> \<in> set (stEgressGateway G))"
proof -
  let ?i = "exInputs ''c''" and ?j = "exInputs ''a''" and ?x = "newIndex (exInputs ''c'')"
  let ?ds = "decidePaths ?i ?x exAlloc exEgresses"
  let ?d = "?ds ! 0" let ?p = "edPods ?d ! 0"
  let ?c = "the (edClass ?d)" let ?lp = "the (podLinkParams ?i ?x ?d ?p)"
  have l: "length ?ds = 2" "length (edPods ?d) = 1" by code_simp+
  have d: "?d \<in> set ?ds" and p: "?p \<in> set (edPods ?d)" by (rule nth_mem; simp only: l; simp)+
  have f: "edOk ?d" "edClass ?d \<noteq> None" "xpPath ?p = EgressPathLink" "xpLinked ?p" "addrIsValid (xpAddr ?p)"
    "xpNode ?p = ''c''" "edNode ?d = ''a''" "podLinkParams ?i ?x ?d ?p \<noteq> None"
    "0 < egressClassUnderlay ?c ''c''" "0 < egressClassUnderlay ?c ''a''"
    "inNodeName ?i = ''c''" "inNodeName ?j = ''a''" "inLinkPort ?i = inLinkPort ?j"
    by code_simp+
  have c: "edClass ?d = Some ?c" and lp: "podLinkParams ?i ?x ?d ?p = Some ?lp" using f(2,8) by auto
  have "xpNode ?p \<noteq> edNode ?d" by (simp only: f; simp)
  from egress_round_trip [OF d f(1) c p f(3-5) _ _ this f(13) _ _ lp] f(6,7,9-12) lp show ?thesis
    unfolding Let_def by auto
qed

end
