(* ===== verification/Status.thy ===== *)
theory Status
  imports EgressRules
begin

text \<open>
  The status one node writes (\<open>reconcile/status.go\<close>): its row and the conditions of every class that
  accepts on it, and the status of every PortMap it owns.
\<close>

record ClassContribution =
  ccNode :: NodeStatus
  ccConditions :: "Condition list"
  ccClearLegacyLinks :: bool

definition classConditions :: "PortMapClass \<Rightarrow> linkAlloc \<Rightarrow> int \<Rightarrow> Condition list" where
  "classConditions c alloc now =
     (let full = (\<lparr>lcKind = ClassKindPortMapClass, lcName = className c\<rparr> \<in> alExhausted alloc);
          fields = deprecatedVxlanFields c; gen = omGeneration (pcMeta c);
          ready = mkCondition ConditionReady (if full then CondFalse else CondTrue)
                    (if full then ReasonSubnetExhausted else ReasonValid)
                    (if full then poolFullMessage else []) now gen;
          deprecated =
            (if fields = [] then mkCondition ConditionDeprecated CondFalse ReasonNoDeprecated [] now gen
             else mkCondition ConditionDeprecated CondTrue ReasonDeprecatedField
                    (joinText '', '' fields
                     @ '' set but ignored: every link takes its numbers from its Link object''
                     @ [CHR 0x27] @ ''s slot; remove the fields'') now gen)
      in sortConditions [deprecated, ready])"

text \<open>One interface of the row.\<close>

definition rowInterface :: "Inputs \<Rightarrow> NodeStatus \<Rightarrow> string \<Rightarrow> NodeStatus" where
  "rowInterface inp row iface =
     (let row' = (case map_of (inInterfaceAddrs6 inp) iface of
                    None \<Rightarrow> row
                  | Some a6 \<Rightarrow>
                      if \<not> inIPv6Forwarding inp then row\<lparr>nsIPv6Unavailable := ipv6ForwardingOff\<rparr>
                      else row\<lparr>nsAddresses6 := mput iface a6 (nsAddresses6 row)\<rparr>)
      in case map_of (inInterfaceAddrs inp) iface of
           None \<Rightarrow>
             row'\<lparr>nsReady := False,
                  nsMessage := (if nsMessage row' = [] then ''interface '' @ iface @ '' not present''
                                else nsMessage row')\<rparr>
         | Some a \<Rightarrow> row'\<lparr>nsAddresses := mput iface a (nsAddresses row')\<rparr>)"

definition nodeRowFor :: "Inputs \<Rightarrow> PortMapClass \<Rightarrow> NodeStatus" where
  "nodeRowFor inp c =
     foldl (rowInterface inp) (readyRow (inNodeName inp)) (classInterfacesOn c (inNodeName inp))"

definition buildClassStatus ::
  "Inputs \<Rightarrow> index \<Rightarrow> linkAlloc \<Rightarrow> (string, ClassContribution) gomap" where
  "buildClassStatus inp idx alloc =
     foldl (\<lambda>out c. if inNodeName inp \<in> set (acceptingNodesFor idx c)
                    then mput (className c)
                           \<lparr>ccNode = nodeRowFor inp c, ccConditions = classConditions c alloc (inNow inp),
                            ccClearLegacyLinks = (ctLinks (pcStatus c) \<noteq> [])\<rparr> out
                    else out) [] (inClasses inp)"

definition statusOwner :: "Inputs \<Rightarrow> mapping \<Rightarrow> string" where
  "statusOwner inp m =
     (if mpServing m \<noteq> [] then mpServing m
      else (case mpEndpoint m of
              Some e \<Rightarrow> ceNode e
            | None \<Rightarrow>
                (case mpAcceptingNodes m of
                   n # _ \<Rightarrow> n
                 | [] \<Rightarrow> (case sort (map nodeName (inNodes inp)) of n # _ \<Rightarrow> n | [] \<Rightarrow> []))))"

definition publishedLess :: "PublishedAddress \<Rightarrow> PublishedAddress \<Rightarrow> bool" where
  "publishedLess a b =
     (if paNode a \<noteq> paNode b then paNode a < paNode b else paInterface a < paInterface b)"

definition publishedRows :: "mapping \<Rightarrow> PublishedAddress list" where
  "publishedRows m =
     (case mpClass m of
        None \<Rightarrow> []
      | Some c \<Rightarrow>
          if mpServing m = [] then []
          else sortBy publishedLess
                 (concat (map (\<lambda>node. map (\<lambda>iface. \<lparr>paNode = node, paInterface = iface, paAddress = [],
                                                   paAddress6 = []\<rparr>)
                                         (interfacesFor c node (mpPm m))) (mpProgrammers m))))"

definition portMapStatusOf :: "Inputs \<Rightarrow> mapping \<Rightarrow> PortMapStatus" where
  "portMapStatusOf inp m =
     \<lparr>psEndpoint =
        map_option (\<lambda>e. \<lparr>seNode = ceNode e, seAddress = ceAddr e,
                         seAddress6 = (case podAddrs inp m of _ # a6 # _ \<Rightarrow> addrText a6 | _ \<Rightarrow> [])\<rparr>)
          (mpEndpoint m),
      psPublished = (if mpEndpoint m = None then [] else publishedRows m),
      psObservedGeneration = omGeneration (pmMeta (mpPm m)),
      psConditions = sortConditions
        ((case mpAcceptedCond m of Some c \<Rightarrow> [c] | None \<Rightarrow> []) @
         (case mpProgrammedCond m of Some c \<Rightarrow> [c] | None \<Rightarrow> []))\<rparr>"

definition buildPortMapStatus ::
  "Inputs \<Rightarrow> mapping list \<Rightarrow> (string \<times> string, PortMapStatus) gomap" where
  "buildPortMapStatus inp ms =
     foldl (\<lambda>out m. if statusOwner inp m = inNodeName inp
                    then mput (pmNamespace (mpPm m), pmName (mpPm m)) (portMapStatusOf inp m) out
                    else out) [] ms"

section \<open>Lemmas: the rows one agent writes\<close>

interpretation portmap_rows:
  row_writer "buildPortMapStatus inp" "\<lambda>m. statusOwner inp m = inNodeName inp"
    "\<lambda>m. (pmNamespace (mpPm m), pmName (mpPm m))" "portMapStatusOf inp" for inp
  by unfold_locales (simp_all add: buildPortMapStatus_def)

interpretation egress_rows:
  row_writer "\<lambda>ds. buildEgressStatus inp ds alloc" "\<lambda>d. egressOwner inp d = inNodeName inp"
    "\<lambda>d. (egNamespace (edEg d), egName (edEg d))" "egressStatusOf inp alloc" for inp alloc
  by unfold_locales (simp_all add: buildEgressStatus_def)

definition classRow :: "Inputs \<Rightarrow> linkAlloc \<Rightarrow> PortMapClass \<Rightarrow> ClassContribution" where
  "classRow inp alloc c =
     \<lparr>ccNode = nodeRowFor inp c, ccConditions = classConditions c alloc (inNow inp),
      ccClearLegacyLinks = (ctLinks (pcStatus c) \<noteq> [])\<rparr>"

lemma rowInterface_classes [simp]: "rowInterface (inp\<lparr>inClasses := cs\<rparr>) = rowInterface inp"
  by (intro ext) (simp add: rowInterface_def split: option.split)

lemma classRow_classes [simp]: "classRow (inp\<lparr>inClasses := cs\<rparr>) alloc = classRow inp alloc"
  by (intro ext) (simp add: classRow_def nodeRowFor_def)

lemma buildClassStatus_rows:
  "buildClassStatus (inp\<lparr>inClasses := cs\<rparr>) idx alloc =
     foldl (\<lambda>out c. if inNodeName inp \<in> set (acceptingNodesFor idx c)
                    then mput (className c) (classRow inp alloc c) out else out) [] cs"
  unfolding buildClassStatus_def classRow_def [symmetric] classRow_classes by simp

interpretation class_rows:
  row_writer "\<lambda>cs. buildClassStatus (inp\<lparr>inClasses := cs\<rparr>) idx alloc"
    "\<lambda>c. inNodeName inp \<in> set (acceptingNodesFor idx c)" className "classRow inp alloc" for inp idx alloc
  by unfold_locales (simp_all add: buildClassStatus_rows)

lemma sameWorld_statusOwner: "sameWorld i j \<Longrightarrow> statusOwner i = statusOwner j"
  by (intro ext) (simp add: statusOwner_def sameWorld_def split: option.split list.split)

lemma sameWorld_egressOwner: "sameWorld i j \<Longrightarrow> egressOwner i = egressOwner j"
  by (intro ext) (simp add: egressOwner_def firstNode_def sameWorld_def)

text \<open>The row is ready exactly when every interface the class gives the node has an address.\<close>

lemma rowInterface_sel:
  "nsName (rowInterface inp row iface) = nsName row"
  "nsReady (rowInterface inp row iface) \<longleftrightarrow> nsReady row \<and> map_of (inInterfaceAddrs inp) iface \<noteq> None"
  "nsMessage (rowInterface inp row iface) =
     (if nsMessage row = [] \<and> map_of (inInterfaceAddrs inp) iface = None
      then ''interface '' @ iface @ '' not present'' else nsMessage row)"
  "map_of (nsAddresses (rowInterface inp row iface)) =
     (case map_of (inInterfaceAddrs inp) iface of
        None \<Rightarrow> map_of (nsAddresses row) | Some a \<Rightarrow> (map_of (nsAddresses row))(iface \<mapsto> a))"
  by (auto simp: rowInterface_def Let_def split: option.split)

lemma foldl_rowInterface:
  fixes inp
  defines "miss \<equiv> \<lambda>iface. map_of (inInterfaceAddrs inp) iface = None"
  shows "nsReady (foldl (rowInterface inp) row ifs) \<longleftrightarrow> nsReady row \<and> \<not> list_ex miss ifs"
    and "nsMessage (foldl (rowInterface inp) row ifs) =
      (if nsMessage row \<noteq> [] then nsMessage row
       else case find miss ifs of None \<Rightarrow> [] | Some iface \<Rightarrow> ''interface '' @ iface @ '' not present'')"
    and "map_of (nsAddresses (foldl (rowInterface inp) row ifs)) =
      map_of (nsAddresses row) ++ (map_of (inInterfaceAddrs inp) |` set ifs)"
proof (induction ifs arbitrary: row)
  case (Cons i ifs)
  {
    case 1
    show ?case by (auto simp: Cons rowInterface_sel miss_def)
  next
    case 2
    show ?case by (auto simp: Cons rowInterface_sel miss_def)
  next
    case 3
    show ?case
      by (rule ext) (auto simp: Cons rowInterface_sel map_add_def restrict_map_def split: option.split)
  }
qed (simp_all add: restrict_map_def)

end
