(* ===== verification/Compute.thy ===== *)
theory Compute
  imports Status
begin

text \<open>
  The whole pass of one agent (\<open>Compute\<close> and \<open>buildState\<close> in \<open>reconcile/reconcile.go\<close>) and the index of
  owners its metrics use (\<open>reconcile/metrics.go\<close>).
\<close>

section \<open>The State\<close>

definition buildState ::
  "Inputs \<Rightarrow> index \<Rightarrow> mapping list \<Rightarrow> egressDecision list \<Rightarrow> linkAlloc \<Rightarrow> State" where
  "buildState inp idx ms ds alloc =
     (let st = st_app (st_concat (map (emitMapping inp idx alloc) (filter programmed ms)))
                 (emitEgress inp idx ds)
      in sortState ((unifyLinkAddr6 st)\<lparr>stLocalAddrs := sortedAddrs (inLocalAddrs inp)\<rparr>))"

section \<open>The metrics index\<close>

record DNATKey =
  dkIface :: string
  dkProto :: string
  dkFirst :: "16 word"
  dkLast :: "16 word"
  dkTarget :: addr

definition KeyOf :: "DNATRule \<Rightarrow> DNATKey" where
  "KeyOf d =
     \<lparr>dkIface = dnIface d, dkProto = selProto (dnPort d), dkFirst = selFirst (dnPort d),
      dkLast = selLast (dnPort d), dkTarget = unmapAddr (dnToAddr d)\<rparr>"

record Owner =
  owNamespace :: string
  owName :: string

record EgressOwner =
  eoNamespace :: string
  eoEgress :: string
  eoPod :: string
  eoBlocked :: bool

record MappingInfo =
  miNamespace :: string
  miName :: string
  miClass :: string
  miMode :: string
  miProtocol :: string
  miPort :: string
  miEndpointNode :: string

record MetricsIndex =
  mxDNAT :: "(DNATKey, Owner) gomap"
  mxEgress :: "(addr, EgressOwner) gomap"
  mxMappings :: "MappingInfo list"

definition mappingInfo :: "PortMapClass \<Rightarrow> chosenEndpoint \<Rightarrow> mapping \<Rightarrow> MappingInfo" where
  "mappingInfo c e m =
     (let sel = portSel (mpPm m)
      in \<lparr>miNamespace = pmNamespace (mpPm m), miName = pmName (mpPm m), miClass = className c,
          miMode = (if csServingMode (pcSpec c) = [] then ServingSingle else csServingMode (pcSpec c)),
          miProtocol = selProto sel,
          miPort = (if selLast sel \<noteq> selFirst sel
                    then itoa (uint (selFirst sel)) @ ''-'' @ itoa (uint (selLast sel))
                    else itoa (uint (selFirst sel))),
          miEndpointNode = ceNode e\<rparr>)"

definition putAll :: "('a \<Rightarrow> 'k) \<Rightarrow> ('a \<Rightarrow> 'v) \<Rightarrow> 'a list \<Rightarrow> ('k, 'v) gomap \<Rightarrow> ('k, 'v) gomap" where
  "putAll k v xs out = foldl (\<lambda>o' x. mput (k x) (v x) o') out xs"

definition mappingOwner :: "mapping \<Rightarrow> Owner" where
  "mappingOwner m = \<lparr>owNamespace = pmNamespace (mpPm m), owName = pmName (mpPm m)\<rparr>"

definition egressOwnerOf :: "egressDecision \<Rightarrow> egressPod \<Rightarrow> EgressRule \<Rightarrow> EgressOwner" where
  "egressOwnerOf d p r =
     \<lparr>eoNamespace = egNamespace (edEg d), eoEgress = egName (edEg d), eoPod = xpName p,
      eoBlocked = (erMark r = EgressBlockedMark)\<rparr>"

definition infoLess :: "MappingInfo \<Rightarrow> MappingInfo \<Rightarrow> bool" where
  "infoLess a b =
     (if miNamespace a \<noteq> miNamespace b then miNamespace a < miNamespace b else miName a < miName b)"

definition egressHere :: "Inputs \<Rightarrow> egressDecision list \<Rightarrow> (egressDecision \<times> egressPod) list" where
  "egressHere inp ds =
     concat (map (\<lambda>d. if edOk d
       then map (Pair d) (filter (\<lambda>p. xpPath p \<noteq> EgressPathLocal \<and> xpNode p = inNodeName inp) (edPods d))
       else []) ds)"

definition buildMetricsIndex ::
  "Inputs \<Rightarrow> index \<Rightarrow> mapping list \<Rightarrow> egressDecision list \<Rightarrow> linkAlloc \<Rightarrow> MetricsIndex" where
  "buildMetricsIndex inp idx ms ds alloc =
     (let here = filter (\<lambda>m. stDNAT (emitMapping inp idx alloc m) \<noteq> []) (filter programmed ms)
      in \<lparr>mxDNAT = foldl (\<lambda>out m. putAll KeyOf (\<lambda>_. mappingOwner m) (stDNAT (emitMapping inp idx alloc m)) out)
                     [] here,
          mxEgress = foldl (\<lambda>out (d, p). putAll erSrcAddr (egressOwnerOf d p)
                              (stEgress (emitEgressPodNode inp idx d p)) out) [] (egressHere inp ds),
          mxMappings = sortBy infoLess (List.map_filter (\<lambda>m. case (mpClass m, mpEndpoint m) of
                           (Some c, Some e) \<Rightarrow> Some (mappingInfo c e m) | _ \<Rightarrow> None) here)\<rparr>)"

section \<open>The pass\<close>

record Result =
  rsState :: State
  rsPortMapStatus :: "(string \<times> string, PortMapStatus) gomap"
  rsClassStatus :: "(string, ClassContribution) gomap"
  rsLinks :: LinkActions
  rsEgressStatus :: "(string \<times> string, EgressStatus) gomap"
  rsEgressClassStatus :: "(string, EgressClassContribution) gomap"
  rsKeep :: State
  rsMetrics :: MetricsIndex

text \<open>What every agent computes alike before it looks at its own part.\<close>

definition computeAlloc :: "selector_fn \<Rightarrow> Inputs \<Rightarrow> linkAlloc" where
  "computeAlloc asSel inp =
     (let idx = newIndex inp
      in allocateLinks (inLinks inp)
           (addEgressNeeds (resolveEgresses asSel inp idx) (neededPairs (resolveMappings asSel inp idx))))"

definition computeMappings :: "selector_fn \<Rightarrow> Inputs \<Rightarrow> mapping list" where
  "computeMappings asSel inp =
     (let idx = newIndex inp
      in resolveProgrammed inp idx (computeAlloc asSel inp) (resolveMappings asSel inp idx))"

definition computeEgresses :: "selector_fn \<Rightarrow> Inputs \<Rightarrow> egressDecision list" where
  "computeEgresses asSel inp =
     (let idx = newIndex inp
      in decidePaths inp idx (computeAlloc asSel inp) (resolveEgresses asSel inp idx))"

definition Compute :: "selector_fn \<Rightarrow> Inputs \<Rightarrow> Result" where
  "Compute asSel inp =
     (let idx = newIndex inp; alloc = computeAlloc asSel inp; ms = computeMappings asSel inp;
          ds = computeEgresses asSel inp
      in \<lparr>rsState = buildState inp idx ms ds alloc,
          rsPortMapStatus = buildPortMapStatus inp ms,
          rsClassStatus = buildClassStatus inp idx alloc,
          rsLinks = linkActions alloc (inNodeName inp) (inNow inp),
          rsEgressStatus = buildEgressStatus inp ds alloc,
          rsEgressClassStatus = buildEgressClassStatus inp ds alloc,
          rsKeep = keepState inp ds,
          rsMetrics = buildMetricsIndex inp idx ms ds alloc\<rparr>)"

section \<open>Lemmas: what every agent computes alike\<close>

lemma decideEgresses_cong:
  assumes "sameWorld i j"
  shows "decideEgresses asSel i idx classes claimed gs = decideEgresses asSel j idx classes claimed gs"
proof -
  have now: "inNow i = inNow j" and pods: "inPods i = inPods j" using assms by (simp_all add: sameWorld_def)
  moreover from pods have "selectedPods asSel i = selectedPods asSel j"
    unfolding selectedPods_def [abs_def] by (simp only:)
  ultimately have "decideEgress asSel i idx classes cl g = decideEgress asSel j idx classes cl g" for cl g
    unfolding decideEgress_def by (simp only:)
  then show ?thesis by (induction gs arbitrary: claimed) (simp_all only: decideEgresses.simps)
qed

lemma resolveEgresses_cong:
  assumes "sameWorld i j"
  shows "resolveEgresses asSel i (newIndex i) = resolveEgresses asSel j (newIndex j)"
proof -
  have "inEgressClasses i = inEgressClasses j" "inEgresses i = inEgresses j" using assms by (simp_all add: sameWorld_def)
  then show ?thesis
    unfolding resolveEgresses_def sameWorld_index [OF assms] decideEgresses_cong [OF assms] by (simp only:)
qed

interpretation alloc_view: shared_view "computeAlloc asSel" for asSel
proof
  fix i j
  assume w: "sameWorld i j" and u: "uniquePortMaps i"
  then have "inLinks i = inLinks j" by (simp add: sameWorld_def)
  then show "computeAlloc asSel i = computeAlloc asSel j"
    unfolding computeAlloc_def Let_def resolveMappings_cong [OF w u] resolveEgresses_cong [OF w] by (simp only:)
qed

lemma programmedOf_cong: "sameWorld i j \<Longrightarrow> programmedOf i = programmedOf j"
proof -
  assume w: "sameWorld i j"
  then have eq: "inNow i = inNow j" "linkPort i = linkPort j" by (simp_all add: sameWorld_def linkPort_def)
  have "stalledAt i idx c m e alloc ps = stalledAt j idx c m e alloc ps" for idx c m e alloc ps
    by (induction ps) (simp_all add: eq split: option.split)
  then show ?thesis unfolding programmedOf_def [abs_def] eq by presburger
qed

interpretation mappings_view: shared_view "computeMappings asSel" for asSel
proof
  fix i j
  assume w: "sameWorld i j" and u: "uniquePortMaps i"
  show "computeMappings asSel i = computeMappings asSel j"
    unfolding computeMappings_def Let_def resolveMappings_cong [OF w u, unfolded sameWorld_index [OF w]] alloc_view.view_agree [OF w u]
      resolveProgrammed_def programmedOf_cong [OF w] sameWorld_index [OF w] ..
qed

lemma decidePaths_cong: "sameWorld i j \<Longrightarrow> decidePaths i = decidePaths j"
proof -
  assume "sameWorld i j"
  then have "linkPort i = linkPort j" "podCIDRsKnown i = podCIDRsKnown j"
    by (simp_all add: sameWorld_def linkPort_def podCIDRsKnown_def)
  then show ?thesis unfolding decidePaths_def [abs_def] decidePath_def [abs_def] by (simp only:)
qed

interpretation egresses_view: shared_view "computeEgresses asSel" for asSel
proof
  fix i j
  assume w: "sameWorld i j" and u: "uniquePortMaps i"
  show "computeEgresses asSel i = computeEgresses asSel j"
    unfolding computeEgresses_def Let_def resolveEgresses_cong [OF w, unfolded sameWorld_index [OF w]] alloc_view.view_agree [OF w u]
      decidePaths_cong [OF w] sameWorld_index [OF w] ..
qed

section \<open>Lemmas: the mappings of a pass\<close>

text \<open>The pass changes nothing of a resolved mapping but its Programmed condition.\<close>

lemma computeMappings_nth:
  assumes "i < length (resolveMappings asSel inp (newIndex inp))"
  shows "\<exists>cond. computeMappings asSel inp ! i = (resolveMappings asSel inp (newIndex inp) ! i)\<lparr>mpProgrammedCond := cond\<rparr>"
proof -
  let ?m = "resolveMappings asSel inp (newIndex inp) ! i"
  let ?p = "programmedOf inp (newIndex inp) (computeAlloc asSel inp)"
  have "\<exists>cond. ?p c e ?m = ?m\<lparr>mpProgrammedCond := cond\<rparr>" for c e
    by (auto simp: programmedOf_def setProgrammed_def split: option.splits)
  moreover have "\<exists>cond. ?m = ?m\<lparr>mpProgrammedCond := cond\<rparr>"
    by (metis mapping.surjective mapping.update_convs(12))
  ultimately show ?thesis
    using assms by (simp add: computeMappings_def Let_def resolveProgrammed_def split: option.split)
qed

lemma length_computeMappings [simp]:
  "length (computeMappings asSel inp) = length (resolveMappings asSel inp (newIndex inp))"
  by (simp add: computeMappings_def Let_def resolveProgrammed_def)

lemma in_computeMappings:
  assumes "m \<in> set (computeMappings asSel inp)"
  obtains m0 cond where "m0 \<in> set (resolveMappings asSel inp (newIndex inp))" and "m = m0\<lparr>mpProgrammedCond := cond\<rparr>"
  using assms computeMappings_nth [of _ asSel inp] by (metis in_set_conv_nth length_computeMappings)

lemma mpPm_resolveProgrammed [simp]: "map mpPm (resolveProgrammed inp idx alloc ms) = map mpPm ms"
  by (simp add: resolveProgrammed_def split: option.split)

lemma mset_resolveMappings_keys:
  assumes "uniquePortMaps inp"
  shows "distinct (map (pmKey \<circ> mpPm) (resolveMappings asSel inp idx))"
proof -
  have "distinct (map (pmKey \<circ> mpPm) (map (settle inp) (decided asSel inp idx)))"
    using distinct_decided [OF assms, of asSel idx] by (simp add: comp_def)
  then show ?thesis unfolding resolveMappings_def by (metis mset_eq_imp_distinct_iff mset_map mset_sortBy)
qed

lemma distinct_computeMappings:
  assumes "uniquePortMaps inp"
  shows "distinct (map (\<lambda>m. (pmNamespace (mpPm m), pmName (mpPm m))) (computeMappings asSel inp))"
proof -
  let ?k = "\<lambda>m. (pmNamespace (mpPm m), pmName (mpPm m))" and ?f = "\<lambda>(ns, n). ns @ ''/'' @ n"
  have eq: "map mpPm (computeMappings asSel inp) = map mpPm (resolveMappings asSel inp (newIndex inp))"
    by (simp add: computeMappings_def Let_def)
  have "map ?f (map ?k (computeMappings asSel inp)) = map pmKey (map mpPm (computeMappings asSel inp))"
    by (simp add: pmKey_def)
  also have "\<dots> = map (pmKey \<circ> mpPm) (resolveMappings asSel inp (newIndex inp))" by (simp only: eq map_map)
  finally have "distinct (map ?f (map ?k (computeMappings asSel inp)))"
    using mset_resolveMappings_keys [OF assms] by (simp only:)
  then show ?thesis by (simp only: distinct_map)
qed

lemma sorted_resolved_accepting:
  assumes "uniquePortMaps inp" and "m \<in> set (resolveMappings asSel inp idx)"
  shows "sorted (mpAcceptingNodes m)"
proof -
  from assms obtain held where m: "m = settle inp (admit asSel inp idx held (newMapping idx (mpPm m)))"
    by (rule resolveMappings_decision)
  have "mpAcceptingNodes m = mpAcceptingNodes (newMapping idx (mpPm m))" by (subst m) simp
  then show ?thesis by (simp add: newMapping_def Let_def split: option.splits)
qed

lemma accepting_in_cluster:
  assumes "uniquePortMaps inp" and "m \<in> set (resolveMappings asSel inp (newIndex inp))"
  shows "set (mpAcceptingNodes m) \<subseteq> nodeName ` set (inNodes inp)"
proof -
  from assms obtain held where m: "m = settle inp (admit asSel inp (newIndex inp) held (newMapping (newIndex inp) (mpPm m)))"
    by (rule resolveMappings_decision)
  have "mpAcceptingNodes m = mpAcceptingNodes (newMapping (newIndex inp) (mpPm m))" by (subst m) simp
  then show ?thesis
    by (auto simp: newMapping_def Let_def set_acceptingNodesFor newIndex_def split: option.splits)
qed

lemma first_node_in:
  assumes "xs \<noteq> []"
  shows "(case sort (map nodeName xs) of n # _ \<Rightarrow> n | [] \<Rightarrow> []) \<in> nodeName ` set xs"
proof -
  obtain n ns where "sort (map nodeName xs) = n # ns"
    using assms by (metis length_0_conv length_map length_sort neq_Nil_conv)
  moreover from this have "n \<in> nodeName ` set xs" by (metis list.set_intros(1) set_map set_sort)
  ultimately show ?thesis by simp
qed

lemma statusOwner_in_cluster:
  assumes "uniquePortMaps inp" and "m \<in> set (resolveMappings asSel inp (newIndex inp))" and "inNodes inp \<noteq> []"
    and "\<And>n. n \<in> set (inNodes inp) \<Longrightarrow> nodeName n \<noteq> []"
  shows "statusOwner inp m \<in> nodeName ` set (inNodes inp) \<longleftrightarrow>
    \<not> (mpAccepted m \<and> mpAcceptingNodes m = [] \<and>
       (\<exists>e. mpEndpoint m = Some e \<and> ceNode e \<notin> nodeName ` set (inNodes inp)))"
proof -
  note acc = accepting_in_cluster [OF assms(1,2)]
  from assms(1,2) obtain d where d: "m = settle inp d" "mpAccepted d = mpAccepted m" "mpServing d = []" "mpEndpoint d = None"
    "mpAcceptingNodes d = mpAcceptingNodes m" by (rule resolved_role)
  consider (serving) "mpAccepted m" "mpAcceptingNodes m \<noteq> []" | (nowhere) "mpAccepted m" "mpAcceptingNodes m = []"
    | (refused) "\<not> mpAccepted m" by blast
  then show ?thesis
  proof cases
    case serving
    then have "mpServing (settle inp d) = servingOf (mpAcceptingNodes d) (chooseEndpoint inp d)"
      by (simp add: settle_def d(2))
    then have "mpServing m \<in> set (mpAcceptingNodes m)"
      using servingOf_in serving(2) unfolding d(1) [symmetric] d(5) by simp
    with acc have "mpServing m \<in> nodeName ` set (inNodes inp)" by blast
    moreover from this have "mpServing m \<noteq> []" using assms(4) by (metis imageE)
    ultimately show ?thesis using serving by (simp add: statusOwner_def)
  next
    case nowhere
    then have "mpServing (settle inp d) = servingOf [] (chooseEndpoint inp d)" using d(5) by (simp add: settle_def d(2))
    then have "mpServing m = []" unfolding d(1) [symmetric] by (simp add: servingOf_def)
    with nowhere first_node_in [OF assms(3)] show ?thesis by (simp add: statusOwner_def split: option.split)
  next
    case refused
    then have "settle inp d = d" using d(2) by (simp add: settle_def)
    with d(1) have "m = d" by (rule trans)
    with d(3,4) have "mpServing m = []" "mpEndpoint m = None" by simp_all
    with refused first_node_in [OF assms(3)] acc show ?thesis by (auto simp: statusOwner_def split: list.split)
  qed
qed

section \<open>Lemmas: where a DNAT rule comes from\<close>

lemma acceptPod_DNAT:
  "r \<in> set (stDNAT (acceptPod ifs sel ps tp link pod)) \<Longrightarrow> dnIface r \<in> set ifs \<and> dnPort r = sel \<and> dnDstAddr r = None"
  by (auto simp: acceptPod_def split: option.splits)

lemma emitAccepting_DNAT:
  assumes "r \<in> set (stDNAT (emitAccepting inp idx c m e alloc pods))"
  shows "inNodeName inp \<in> set (mpProgrammers m) \<and> dnIface r \<in> set (interfacesFor c (inNodeName inp) (mpPm m)) \<and>
    dnPort r = portSel (mpPm m) \<and> dnDstAddr r = None"
  using assms acceptPod_DNAT by (fastforce simp: emitAccepting_def Let_def split: if_splits)

lemma targetPod_DNAT:
  "r \<in> set (stDNAT (targetPod sel ps tp mu lp pod)) \<Longrightarrow>
   dnIface r = lpName lp \<and> dnPort r = sel \<and> dnToAddr r = pod \<and> (\<exists>dst. dnDstAddr r = Some dst \<and> thisEndFor lp pod = Some dst)"
  by (auto simp: targetPod_def split: option.splits)

lemma targetPods_subset: "set (targetPods links pods) \<subseteq> set pods"
  by (auto simp: targetPods_def dest: in_set_takeD)

lemma emitTarget_DNAT:
  assumes "r \<in> set (stDNAT (emitTarget inp idx c m e alloc pods))"
  shows "inNodeName inp = ceNode e \<and> dnPort r = portSel (mpPm m) \<and> dnToAddr r \<in> set pods \<and>
    (\<exists>peer \<in> set (mpProgrammers m) - {inNodeName inp}. \<exists>lp dst.
       landedLink inp idx c m alloc peer (inNodeName inp) peer = Some lp \<and> dnIface r = lpName lp \<and>
       dnDstAddr r = Some dst \<and> thisEndFor lp (dnToAddr r) = Some dst)"
proof -
  have e: "inNodeName inp = ceNode e" using assms by (auto simp: emitTarget_def Let_def split: if_splits)
  from assms obtain lp pod where lp: "lp \<in> set (targetLinks inp idx c m alloc)"
    and pod: "pod \<in> set (targetPods (targetLinks inp idx c m alloc) pods)"
    and r: "r \<in> set (stDNAT (targetPod (portSel (mpPm m)) (fst (podPort m)) (snd (podPort m)) (servingModeOf c = ServingMulti) lp pod))"
    by (auto simp: emitTarget_def Let_def targetRules_def targetLink_def split: if_splits)
  from targetPod_DNAT [OF r] in_targetLinks [THEN iffD1, OF lp] subsetD [OF targetPods_subset pod] e show ?thesis by blast
qed

lemma emitEgress_DNAT [simp]:
  "stDNAT (emitFamily lp fam) = []" "stDNAT (emitEgressPodNode inp idx d p) = []"
  "stDNAT (emitEgressGateway inp idx d p) = []" "stDNAT (emitEgress inp idx ds) = []"
proof -
  show f: "stDNAT (emitFamily lp fam) = []" for lp fam
    by (cases fam) (simp add: emitFamily_def split: EgressPath.split)
  show n: "stDNAT (emitEgressPodNode inp idx d p) = []" for inp idx d p
    by (simp add: emitEgressPodNode_def Let_def f)
  show g: "stDNAT (emitEgressGateway inp idx d p) = []" for inp idx d p
    by (simp add: emitEgressGateway_def Let_def split: option.split)
  show "stDNAT (emitEgress inp idx ds) = []"
    by (simp add: emitEgress_def Let_def emitPod_def n g emitBlocked_def)
qed

lemma state_DNAT:
  assumes "r \<in> set (stDNAT (rsState (Compute asSel inp)))"
  shows "\<exists>m \<in> set (computeMappings asSel inp). programmed m \<and>
    r \<in> set (stDNAT (emitMapping inp (newIndex inp) (computeAlloc asSel inp) m))"
proof -
  have "r \<in> set (stDNAT (st_concat (map (emitMapping inp (newIndex inp) (computeAlloc asSel inp))
      (filter programmed (computeMappings asSel inp)))))"
    using assms sortUnique_subset
    by (fastforce simp: Compute_def buildState_def Let_def sortState_def unifyLinkAddr6_def)
  then show ?thesis by auto
qed

lemma not_empty_member: "A \<noteq> {} \<Longrightarrow> (\<And>x. x \<in> A \<Longrightarrow> P) \<Longrightarrow> P"
  by blast

lemma state_DNAT_keys:
  "dnatKey ` set (stDNAT (rsState (Compute asSel inp))) =
   dnatKey ` (\<Union>m \<in> {m \<in> set (computeMappings asSel inp). programmed m}.
     set (stDNAT (emitMapping inp (newIndex inp) (computeAlloc asSel inp) m)))"
  by (simp add: Compute_def buildState_def Let_def sortState_def unifyLinkAddr6_def sortUnique_keys image_UN UN_simps)

text \<open>What a node that programs a mapping and runs its pod translates.\<close>

lemma emitMapping_local:
  assumes "mpEndpoint m = Some e" and "mpClass m = Some c" and "inNodeName inp = ceNode e"
    and "ceNode e \<in> set (mpProgrammers m)" and "pod \<in> set (podAddrs inp m)"
    and "iface \<in> set (interfacesFor c (inNodeName inp) (mpPm m))"
  shows "\<lparr>dnIface = iface, dnPort = portSel (mpPm m), dnToAddr = pod, dnToPort = snd (podPort m), dnDstAddr = None\<rparr>
    \<in> set (stDNAT (emitMapping inp idx alloc m))"
  using assms by (auto simp: emitMapping_def Let_def emitAccepting_def acceptPod_def)

lemma decideRole_local:
  assumes "mpEndpoint m = Some e" and "mpClass m = Some c" and "ceNode e \<in> set (mpAcceptingNodes m)"
    and "servingModeOf c \<noteq> ServingMulti"
  shows "mpProgrammers (decideRole inp m) = [ceNode e] \<and> \<not> mpRemote (decideRole inp m)"
proof -
  have "mpAcceptingNodes m \<noteq> []" using assms(3) by auto
  then show ?thesis using assms servingOf_endpoint [OF assms(3)] by (simp add: decideRole_def Let_def)
qed

lemma computed_accepted:
  assumes "uniquePortMaps inp" and "m \<in> set (computeMappings asSel inp)" and "mpAccepted m"
  obtains d c cond where "m = (decideRole inp (d\<lparr>mpEndpoint := chooseEndpoint inp d\<rparr>))\<lparr>mpProgrammedCond := cond\<rparr>"
    and "mpPm d = mpPm m" and "mpAcceptingNodes d = mpAcceptingNodes m" and "mpClass d = Some c" and "mpClass m = Some c"
    and "\<not> mpGated d"
proof -
  obtain m0 cond where m0: "m0 \<in> set (resolveMappings asSel inp (newIndex inp))" "m = m0\<lparr>mpProgrammedCond := cond\<rparr>"
    by (rule in_computeMappings [OF assms(2)])
  obtain d where d: "m0 = settle inp d" "mpPm d = mpPm m0" "mpAccepted d = mpAccepted m0" "mpClass d = mpClass m0"
    "mpAcceptingNodes d = mpAcceptingNodes m0" "\<not> mpGated d" by (rule resolved_role [OF assms(1) m0(1)])
  have acc: "mpAccepted m0" using assms(3) m0(2) by simp
  from accepted_valid [OF assms(1) m0(1) acc] obtain c where "mpClass (newMapping (newIndex inp) (mpPm m0)) = Some c"
    unfolding validateStandalone_valid by blast
  then have "mpClass m0 = Some c" using mpClass_resolveMappings [OF assms(1) m0(1)] by simp
  moreover have "settle inp d = decideRole inp (d\<lparr>mpEndpoint := chooseEndpoint inp d\<rparr>)"
    using acc d(3) by (simp add: settle_def)
  ultimately have "m = (decideRole inp (d\<lparr>mpEndpoint := chooseEndpoint inp d\<rparr>))\<lparr>mpProgrammedCond := cond\<rparr>"
    and c: "mpClass m0 = Some c" using m0(2) d(1) by simp_all
  note this(1)
  moreover from c have "mpPm d = mpPm m" "mpAcceptingNodes d = mpAcceptingNodes m" "mpClass d = Some c" "mpClass m = Some c"
    using d(2,4,5) unfolding m0(2) by simp_all
  ultimately show ?thesis using d(6) by (rule that)
qed

text \<open>A rule with no pinned destination is the accepting half of its mapping.\<close>

lemma accepting_rule:
  assumes "uniquePortMaps inp" and "m \<in> set (computeMappings asSel inp)" and "programmed m"
    and "r \<in> set (stDNAT (emitMapping inp (newIndex inp) alloc m))" and "dnDstAddr r = None"
  shows "mpAccepted m \<and> mpPm m \<in> set (inPortMaps inp) \<and> dnPort r = portSel (mpPm m) \<and>
    (\<exists>c. mpClass m = Some c \<and> c \<in> set (inClasses inp) \<and> className c = spClassName (pmSpec (mpPm m)) \<and>
       dnIface r \<in> set (classInterfacesOn c (inNodeName inp)))"
proof -
  obtain m0 cond where m0: "m0 \<in> set (resolveMappings asSel inp (newIndex inp))" "m = m0\<lparr>mpProgrammedCond := cond\<rparr>"
    by (rule in_computeMappings [OF assms(2)])
  obtain e c where ec: "mpEndpoint m = Some e" "mpClass m = Some c"
    and halves: "r \<in> set (stDNAT (emitAccepting inp (newIndex inp) c m e alloc (podAddrs inp m))) \<or>
       r \<in> set (stDNAT (emitTarget inp (newIndex inp) c m e alloc (podAddrs inp m)))"
    using assms(4) by (auto simp: emitMapping_def Let_def split: option.splits if_splits)
  from halves have r: "dnIface r \<in> set (interfacesFor c (inNodeName inp) (mpPm m)) \<and> dnPort r = portSel (mpPm m)"
  proof
    assume "r \<in> set (stDNAT (emitAccepting inp (newIndex inp) c m e alloc (podAddrs inp m)))"
    from emitAccepting_DNAT [OF this] show ?thesis by blast
  next
    assume "r \<in> set (stDNAT (emitTarget inp (newIndex inp) c m e alloc (podAddrs inp m)))"
    from emitTarget_DNAT [OF this] obtain dst where "dnDstAddr r = Some dst" by blast
    with assms(5) show ?thesis by simp
  qed
  have "classByName (newIndex inp) (spClassName (pmSpec (mpPm m))) = Some c"
    using mpClass_resolveMappings [OF assms(1) m0(1)] ec(2) m0(2) by simp
  then have "index_by className (inClasses inp) (spClassName (pmSpec (mpPm m))) = Some c" by (simp add: newIndex_def)
  then have "c \<in> set (inClasses inp) \<and> className c = spClassName (pmSpec (mpPm m))" by (rule index_by_SomeD)
  moreover have "dnIface r \<in> set (classInterfacesOn c (inNodeName inp))"
    using r by (auto simp: interfacesFor_def Let_def split: if_splits)
  moreover have "mpPm m \<in> set (inPortMaps inp)"
    using imageI [OF m0(1), of mpPm] unfolding resolveMappings_pms by (simp add: m0(2))
  ultimately show ?thesis using assms(3) ec(2) r by (simp add: programmed_def)
qed

lemma portSel_proto:
  assumes "spProtocol (pmSpec a) \<in> {ProtocolTCP, ProtocolUDP}" and "spProtocol (pmSpec b) \<in> {ProtocolTCP, ProtocolUDP}"
    and "selProto (portSel a) = selProto (portSel b)"
  shows "spProtocol (pmSpec a) = spProtocol (pmSpec b)"
proof -
  have "toLower ProtocolTCP \<noteq> toLower ProtocolUDP" by code_simp
  then show ?thesis using assms by (auto simp: portSel_def split: prod.splits)
qed

lemma computed_no_overlap:
  assumes "uniquePortMaps inp" and "m \<in> set (computeMappings asSel inp)" and "mpAccepted m"
    and "n \<in> set (computeMappings asSel inp)" and "mpAccepted n" and "mpPm m \<noteq> mpPm n"
    and "spClassName (pmSpec (mpPm m)) = spClassName (pmSpec (mpPm n))"
    and "spProtocol (pmSpec (mpPm m)) = spProtocol (pmSpec (mpPm n))"
  shows "\<not> overlaps (mpPm m) (mpPm n)"
proof -
  obtain m0 cond where "m0 \<in> set (resolveMappings asSel inp (newIndex inp))" "m = m0\<lparr>mpProgrammedCond := cond\<rparr>"
    by (rule in_computeMappings [OF assms(2)])
  moreover obtain n0 cond' where "n0 \<in> set (resolveMappings asSel inp (newIndex inp))" "n = n0\<lparr>mpProgrammedCond := cond'\<rparr>"
    by (rule in_computeMappings [OF assms(4)])
  ultimately show ?thesis using accepted_no_overlap [OF assms(1), of m0 asSel "newIndex inp" n0] assms(3,5-8) by simp
qed

lemma computed_interval:
  assumes "uniquePortMaps inp" and "m \<in> set (computeMappings asSel inp)" and "mpAccepted m" and "mpClass m = Some c"
    and "\<And>b. csPorts (pcSpec c) = Some b \<Longrightarrow> 0 \<le> prMin b \<and> prMax b \<le> 65535"
  shows "interval (mpPm m) = (uint (selFirst (portSel (mpPm m))), uint (selLast (portSel (mpPm m))))"
proof -
  obtain m0 cond where "m0 \<in> set (resolveMappings asSel inp (newIndex inp))" "m = m0\<lparr>mpProgrammedCond := cond\<rparr>"
    by (rule in_computeMappings [OF assms(2)])
  then show ?thesis
    using accepted_bounds [OF assms(1), of m0 asSel c "fst (portBounds c)" "fst (snd (portBounds c))" "snd (snd (portBounds c))"]
      assms(3-5) by simp
qed

interpretation owner_rows: row_writer "\<lambda>xs. putAll k v xs []" "\<lambda>_. True" k v for k v
  by unfold_locales (simp_all add: putAll_def)

lemma putAll_concat:
  "foldl (\<lambda>out m. putAll k (\<lambda>_. v m) (f m) out) out ms =
   putAll (k \<circ> snd) (v \<circ> fst) (concat (map (\<lambda>m. map (Pair m) (f m)) ms)) out"
proof (induction ms arbitrary: out)
  case (Cons m ms)
  have "foldl (\<lambda>o' x. mput (k x) (v m) o') out xs = foldl (\<lambda>o' x. mput ((k \<circ> snd) x) ((v \<circ> fst) x) o') out (map (Pair m) xs)" for xs out
    by (induction xs arbitrary: out) simp_all
  with Cons show ?case by (simp add: putAll_def)
qed (simp add: putAll_def)

definition exOnlyM :: Inputs where
  "exOnlyM = (exInputs ''a'')\<lparr>inClasses := [exClass ''m'' ServingMulti ReturnPathVxlan],
     inPortMaps := [exPM ''w'' 4 ''m'' ProtocolTCP 80 None ''w''], inLinks := []\<rparr>"

lemma exInputs_name [simp]: "inNodeName (exInputs x) = x"
  by (simp add: exInputs_def)

section \<open>Properties\<close>

text \<open>
  C2. Every agent reaches the same decisions. Two agents that watch the same objects, in whatever
  order their caches list the PortMaps, compute the same slots and proposals, resolve every
  PortMap to the same mapping (acceptance, conditions, endpoint, serving node and programmers)
  and every Egress to the same decision and pod paths, although their node names, interface
  addresses and forwarding settings differ.
\<close>

theorem agents_agree:
  assumes "sameWorld i j" and "uniquePortMaps i"
  shows "computeAlloc asSel i = computeAlloc asSel j \<and> computeMappings asSel i = computeMappings asSel j \<and>
    computeEgresses asSel i = computeEgresses asSel j"
  using alloc_view.view_agree [OF assms] mappings_view.view_agree [OF assms] egresses_view.view_agree [OF assms]
  by simp

lemma agents_agree_witness:
  "computeMappings exSel (exInputs ''a'') =
   computeMappings exSel ((exInputs ''c'')\<lparr>inPortMaps := rev (inPortMaps (exInputs ''c'')), inIPv6Forwarding := False\<rparr>)"
proof -
  have "sameWorld (exInputs ''a'')
      ((exInputs ''c'')\<lparr>inPortMaps := rev (inPortMaps (exInputs ''c'')), inIPv6Forwarding := False\<rparr>)"
    by (simp add: sameWorld_def exInputs_def)
  moreover have "uniquePortMaps (exInputs ''a'')" by code_simp
  ultimately show ?thesis using agents_agree by blast
qed

text \<open>
  C4. No PortMap has two status writers, and it has exactly one but in one case. Of all agents that
  watch the same objects only the one on the owner's node writes the PortMap's status, and what it
  writes is that mapping's status. The owner is a node of the cluster exactly unless the mapping
  is accepted, its class has no accepting node in the cluster and the chosen endpoint's node is
  not in the cluster either; then nobody reports on it.
\<close>

theorem one_status_writer:
  assumes "uniquePortMaps inp" and "m \<in> set (computeMappings asSel inp)" and "inNodes inp \<noteq> []"
    and "\<And>n. n \<in> set (inNodes inp) \<Longrightarrow> nodeName n \<noteq> []"
  shows "\<exists>owner.
    (\<forall>j. sameWorld inp j \<longrightarrow>
       map_of (rsPortMapStatus (Compute asSel j)) (pmNamespace (mpPm m), pmName (mpPm m)) =
         (if inNodeName j = owner then Some (portMapStatusOf j m) else None)) \<and>
    (owner \<in> nodeName ` set (inNodes inp) \<longleftrightarrow>
       \<not> (mpAccepted m \<and> mpAcceptingNodes m = [] \<and>
          (\<exists>e. mpEndpoint m = Some e \<and> ceNode e \<notin> nodeName ` set (inNodes inp))))"
proof (intro exI conjI allI impI)
  fix j assume w: "sameWorld inp j"
  have "computeMappings asSel j = computeMappings asSel inp"
    by (rule mappings_view.view_agree [OF w assms(1), symmetric])
  moreover have "statusOwner j m = statusOwner inp m" using sameWorld_statusOwner [OF w] by simp
  ultimately show "map_of (rsPortMapStatus (Compute asSel j)) (pmNamespace (mpPm m), pmName (mpPm m)) =
      (if inNodeName j = statusOwner inp m then Some (portMapStatusOf j m) else None)"
    using portmap_rows.rows_lookup [OF distinct_computeMappings [OF assms(1)] assms(2), of j]
    by (auto simp: Compute_def Let_def)
next
  obtain m0 cond where m0: "m0 \<in> set (resolveMappings asSel inp (newIndex inp))" "m = m0\<lparr>mpProgrammedCond := cond\<rparr>"
    by (rule in_computeMappings [OF assms(2)])
  have "statusOwner inp m = statusOwner inp m0" by (simp add: m0(2) statusOwner_def split: option.split list.split)
  with statusOwner_in_cluster [OF assms(1) m0(1) assms(3,4)]
  show "statusOwner inp m \<in> nodeName ` set (inNodes inp) \<longleftrightarrow>
       \<not> (mpAccepted m \<and> mpAcceptingNodes m = [] \<and>
          (\<exists>e. mpEndpoint m = Some e \<and> ceNode e \<notin> nodeName ` set (inNodes inp)))"
    by (simp add: m0(2))
qed

lemma one_status_writer_witness:
  "\<exists>m \<in> set (computeMappings exSel (exInputs ''a'')). pmName (mpPm m) = ''g'' \<and>
     (\<exists>n \<in> set (inNodes (exInputs ''a'')). \<forall>x.
        map_of (rsPortMapStatus (Compute exSel (exInputs x))) (''x'', ''g'') =
          (if x = nodeName n then Some (portMapStatusOf (exInputs x) m) else None))"
proof -
  let ?r = "exResolved (exInputs ''a'') ! 0" let ?ms = "computeMappings exSel (exInputs ''a'')" let ?m = "?ms ! 0"
  have u: "uniquePortMaps (exInputs ''a'')" and l: "length (exResolved (exInputs ''a'')) = 4"
    and f: "(pmNamespace (mpPm ?r), pmName (mpPm ?r)) = (''x'', ''g'')" "mpAcceptingNodes ?r \<noteq> []" by code_simp+
  obtain cond where r: "?m = ?r\<lparr>mpProgrammedCond := cond\<rparr>"
    using computeMappings_nth [of 0 exSel "exInputs ''a''"] unfolding l by auto
  have k: "(pmNamespace (mpPm ?m), pmName (mpPm ?m)) = (''x'', ''g'')" and a: "mpAcceptingNodes ?m \<noteq> []"
    using f unfolding r by simp_all
  have m: "?m \<in> set ?ms" by (simp add: l)
  have w: "sameWorld (exInputs ''a'') (exInputs x)" for x by (simp add: sameWorld_def exInputs_def)
  have "inNodes (exInputs ''a'') \<noteq> []" and "\<And>n. n \<in> set (inNodes (exInputs ''a'')) \<Longrightarrow> nodeName n \<noteq> []"
    by (auto simp: exInputs_def exNode_def exMeta_def)
  from one_status_writer [OF u m this] a obtain n where n: "n \<in> set (inNodes (exInputs ''a''))"
    "\<forall>j. sameWorld (exInputs ''a'') j \<longrightarrow> map_of (rsPortMapStatus (Compute exSel j)) (''x'', ''g'') =
       (if inNodeName j = nodeName n then Some (portMapStatusOf j ?m) else None)"
    unfolding k by auto
  have "map_of (rsPortMapStatus (Compute exSel (exInputs x))) (''x'', ''g'') =
      (if x = nodeName n then Some (portMapStatusOf (exInputs x) ?m) else None)" for x
    using n(2) [rule_format, OF w [of x]] by simp
  with n(1) m k show ?thesis by (intro bexI [of _ ?m]) auto
qed

text \<open>
  The exception occurs: a class whose nodes have all left the cluster, and a ready endpoint whose
  slice names no node, leave an accepted PortMap with the empty owner, so no agent reports on it.
\<close>

definition exUnowned :: Inputs where
  "exUnowned =
     (let c = exClass ''s'' ServingSingle ReturnPathVxlan
      in (exInputs ''a'')
        \<lparr>inClasses := [c\<lparr>pcSpec := (pcSpec c)\<lparr>csNodes := [(''gone'', \<lparr>niInterfaces = [''e'']\<rparr>)]\<rparr>\<rparr>],
         inPortMaps := [exPM ''g'' 1 ''s'' ProtocolUDP 70 None ''v''],
         inSlices := map (\<lambda>sl. sl\<lparr>slEndpoints := map (\<lambda>ep. ep\<lparr>enNodeName := None\<rparr>) (slEndpoints sl)\<rparr>)
           [exSlice ''v'' AddressTypeIPv4 70 [(''q'', ''c'', ''10.1.3.9'')]]\<rparr>)"

lemma unowned_status:
  "(let m = exResolved exUnowned ! 0
    in mpAccepted m \<and> mpAcceptingNodes m = [] \<and> map_option ceNode (mpEndpoint m) = Some [] \<and>
       [] \<notin> nodeName ` set (inNodes exUnowned))"
  by code_simp

text \<open>
  A DNAT rule is never there without an accepted mapping behind it. Each one of the computed
  State carries exactly the ports of an accepted PortMap with a chosen endpoint; either this node
  programs that PortMap and the rule sits on one of the interfaces the class gives it here, or
  the PortMap's pod runs here, the rule translates to that pod, and it matches only what arrives
  over the landed link of a remote programmer, addressed to this node's end of that link.
\<close>

theorem dnat_provenance:
  assumes "r \<in> set (stDNAT (rsState (Compute asSel inp)))"
  shows "\<exists>m \<in> set (computeMappings asSel inp). \<exists>e c.
    mpAccepted m \<and> mpEndpoint m = Some e \<and> mpClass m = Some c \<and> dnPort r = portSel (mpPm m) \<and>
    (inNodeName inp \<in> set (mpProgrammers m) \<and> dnIface r \<in> set (interfacesFor c (inNodeName inp) (mpPm m)) \<and>
       dnDstAddr r = None \<or>
     inNodeName inp = ceNode e \<and> dnToAddr r \<in> set (podAddrs inp m) \<and>
       (\<exists>peer \<in> set (mpProgrammers m) - {inNodeName inp}. \<exists>lp dst.
          landedLink inp (newIndex inp) c m (computeAlloc asSel inp) peer (inNodeName inp) peer = Some lp \<and>
          dnIface r = lpName lp \<and> dnDstAddr r = Some dst \<and> thisEndFor lp (dnToAddr r) = Some dst))"
proof -
  from state_DNAT [OF assms] obtain m where m: "m \<in> set (computeMappings asSel inp)" "programmed m"
    and r: "r \<in> set (stDNAT (emitMapping inp (newIndex inp) (computeAlloc asSel inp) m))" by blast
  then obtain e c where ec: "mpEndpoint m = Some e" "mpClass m = Some c"
    and r: "r \<in> set (stDNAT (emitAccepting inp (newIndex inp) c m e (computeAlloc asSel inp) (podAddrs inp m))) \<or>
       r \<in> set (stDNAT (emitTarget inp (newIndex inp) c m e (computeAlloc asSel inp) (podAddrs inp m)))"
    by (auto simp: emitMapping_def Let_def split: option.splits if_splits)
  have acc: "mpAccepted m" using m(2) by (simp add: programmed_def)
  from r show ?thesis
  proof
    assume "r \<in> set (stDNAT (emitAccepting inp (newIndex inp) c m e (computeAlloc asSel inp) (podAddrs inp m)))"
    from emitAccepting_DNAT [OF this] m(1) ec acc show ?thesis by blast
  next
    assume "r \<in> set (stDNAT (emitTarget inp (newIndex inp) c m e (computeAlloc asSel inp) (podAddrs inp m)))"
    from emitTarget_DNAT [OF this] m(1) ec acc show ?thesis by blast
  qed
qed

text \<open>Mapping \<open>w\<close> of the example on node \<open>a\<close>, which programs it and runs its pod.\<close>

lemma exW:
  obtains m c e where "m \<in> set (computeMappings exSel (exInputs ''a''))" and "programmed m" and "mpAccepted m"
    and "mpEndpoint m = Some e" and "mpClass m = Some c" and "ceNode e = ''a''" and "ceNode e \<in> set (mpProgrammers m)"
    and "V4 0x0a010108 \<in> set (podAddrs (exInputs ''a'') m)" and "''e'' \<in> set (interfacesFor c ''a'' (mpPm m))"
    and "mpPm m = exPM ''w'' 4 ''m'' ProtocolTCP 80 None ''w''" and "mpAcceptingNodes m = [''a'', ''b'']"
    and "uniquePortMaps (exInputs ''a'')"
proof -
  let ?r = "exResolved (exInputs ''a'') ! 3" let ?m = "computeMappings exSel (exInputs ''a'') ! 3"
  let ?c = "exClass ''m'' ServingMulti ReturnPathVxlan"
  have l: "length (exResolved (exInputs ''a'')) = 4" and u: "uniquePortMaps (exInputs ''a'')" by code_simp+
  have f: "programmed ?r" "mpAccepted ?r" "map_option ceNode (mpEndpoint ?r) = Some ''a''" "mpClass ?r = Some ?c"
    "''a'' \<in> set (mpProgrammers ?r)" "V4 0x0a010108 \<in> set (podAddrs (exInputs ''a'') ?r)"
    "''e'' \<in> set (interfacesFor ?c ''a'' (mpPm ?r))" "mpPm ?r = exPM ''w'' 4 ''m'' ProtocolTCP 80 None ''w''"
    "mpAcceptingNodes ?r = [''a'', ''b'']" by code_simp+
  obtain cond where r: "?m = ?r\<lparr>mpProgrammedCond := cond\<rparr>"
    using computeMappings_nth [of 3 exSel "exInputs ''a''"] unfolding l by auto
  have "?m \<in> set (computeMappings exSel (exInputs ''a''))" by (simp add: l)
  moreover have "programmed ?m" "podAddrs (exInputs ''a'') ?m = podAddrs (exInputs ''a'') ?r"
    using f(1) unfolding r by (simp_all add: programmed_def podAddrs_def)
  moreover obtain e where "mpEndpoint ?m = Some e" "ceNode e = ''a''" using f(3) unfolding r by auto
  ultimately show ?thesis using that f u unfolding r by simp
qed

lemma dnat_provenance_witness:
  "\<exists>r \<in> set (stDNAT (rsState (Compute exSel (exInputs ''a'')))).
     \<exists>m \<in> set (computeMappings exSel (exInputs ''a'')). mpAccepted m \<and> dnPort r = portSel (mpPm m)"
proof -
  obtain m c e where "m \<in> set (computeMappings exSel (exInputs ''a''))" "programmed m"
    and m: "mpEndpoint m = Some e" "mpClass m = Some c" "ceNode e = ''a''" "ceNode e \<in> set (mpProgrammers m)"
    "V4 0x0a010108 \<in> set (podAddrs (exInputs ''a'') m)" "''e'' \<in> set (interfacesFor c ''a'' (mpPm m))" by (rule exW)
  moreover from m have "stDNAT (emitMapping (exInputs ''a'') idx alloc m) \<noteq> []" for idx alloc
    using emitMapping_local [OF m(1,2) _ m(4,5), of "''e''"] by (metis empty_iff exInputs_name list.set(1))
  ultimately have "dnatKey ` set (stDNAT (rsState (Compute exSel (exInputs ''a'')))) \<noteq> {}"
    unfolding state_DNAT_keys by auto
  then have "set (stDNAT (rsState (Compute exSel (exInputs ''a'')))) \<noteq> {}" unfolding image_is_empty .
  then obtain r where r: "r \<in> set (stDNAT (rsState (Compute exSel (exInputs ''a''))))" by (rule not_empty_member)
  from dnat_provenance [OF r] r show ?thesis by blast
qed

text \<open>
  The endpoint is the least candidate, and a pod on an accepting node is preferred. As soon as
  one ready endpoint of the Service runs on an accepting node, the accepted mapping's endpoint
  runs on the first such node by name, that node serves it, and under Single serving it is the
  only programmer, so the request never leaves the node.
\<close>

theorem local_pod_preferred:
  assumes "uniquePortMaps inp" and "m \<in> set (computeMappings asSel inp)" and "mpAccepted m"
    and "k \<in> set (gatherCandidates inp (mpPm m))" and "ceNode k \<in> set (mpAcceptingNodes m)"
  shows "\<exists>e c. mpEndpoint m = Some e \<and> mpClass m = Some c \<and> ceNode e \<in> set (mpAcceptingNodes m) \<and>
    ceNode e \<le> ceNode k \<and> mpServing m = ceNode e \<and>
    (servingModeOf c \<noteq> ServingMulti \<longrightarrow> mpProgrammers m = [ceNode e] \<and> \<not> mpRemote m)"
proof -
  obtain d c cond where m: "m = (decideRole inp (d\<lparr>mpEndpoint := chooseEndpoint inp d\<rparr>))\<lparr>mpProgrammedCond := cond\<rparr>"
    and d: "mpPm d = mpPm m" "mpAcceptingNodes d = mpAcceptingNodes m" "mpClass d = Some c" "mpClass m = Some c"
    by (rule computed_accepted [OF assms(1-3)])
  let ?acc = "mpAcceptingNodes m"
  obtain e where e: "chooseEndpoint inp d = Some e"
    using chooseEndpoint_None [of inp d] assms(4) d(1) by fastforce
  obtain x where x: "e = x\<lparr>ceAddr6 := pairedIPv6 inp (mpPm d) x\<rparr>"
    "candidateKey ?acc x \<le> candidateKey ?acc k"
    using chooseEndpoint_Some [OF e] assms(4) unfolding d by metis
  then have rank: "acceptingRank ?acc (ceNode e) \<le> acceptingRank ?acc (ceNode k)"
    by (auto simp: candidateKey_def less_eq_prod_def)
  then have acc: "ceNode e \<in> set ?acc"
    using acceptingRank_less [OF assms(5)] acceptingRank_miss [of "ceNode e" ?acc] by fastforce
  have "sorted ?acc"
  proof -
    obtain m0 where "m0 \<in> set (resolveMappings asSel inp (newIndex inp))" "mpAcceptingNodes m0 = ?acc"
      using in_computeMappings [OF assms(2)] by (metis mapping.select_convs(5) mapping.surjective mapping.update_convs(12))
    then show ?thesis using sorted_resolved_accepting [OF assms(1)] by metis
  qed
  then have "ceNode e \<le> ceNode k" by (rule acceptingRank_sorted [OF _ acc assms(5) rank])
  moreover have "mpServing m = ceNode e" "mpEndpoint m = Some e"
    using servingOf_endpoint [OF acc [folded d(2)]] by (simp_all add: m e)
  moreover have "servingModeOf c \<noteq> ServingMulti \<longrightarrow> mpProgrammers m = [ceNode e] \<and> \<not> mpRemote m"
  proof -
    have "ceNode e \<in> set (mpAcceptingNodes (d\<lparr>mpEndpoint := chooseEndpoint inp d\<rparr>))" using acc d(2) by simp
    from decideRole_local [OF _ _ this, of c inp] show ?thesis by (simp add: m d(3) e)
  qed
  ultimately show ?thesis using acc d(4) by blast
qed

lemma local_pod_preferred_witness:
  "\<exists>m \<in> set (computeMappings exSel (exInputs ''a'')). pmName (mpPm m) = ''w'' \<and>
     (\<exists>e. mpEndpoint m = Some e \<and> ceNode e \<le> ''a'' \<and> mpServing m = ceNode e)"
proof -
  obtain m where m: "m \<in> set (computeMappings exSel (exInputs ''a''))" "mpAccepted m"
    "mpPm m = exPM ''w'' 4 ''m'' ProtocolTCP 80 None ''w''" "mpAcceptingNodes m = [''a'', ''b'']"
    and u: "uniquePortMaps (exInputs ''a'')" by (rule exW)
  let ?ks = "gatherCandidates (exInputs ''a'') (exPM ''w'' 4 ''m'' ProtocolTCP 80 None ''w'')"
  have l: "length ?ks = 2" and k: "ceNode (?ks ! 1) = ''a''" by code_simp+
  have "?ks ! 1 \<in> set (gatherCandidates (exInputs ''a'') (mpPm m))" unfolding m(3) by (rule nth_mem) (simp add: l)
  from local_pod_preferred [OF u m(1,2) this] m(1,3,4) k show ?thesis
    by (intro bexI [of _ m]) (auto simp: exPM_def exMeta_def)
qed

text \<open>
  C3. Two rules for requests from outside (no pinned destination) that match the same port of one
  protocol on one interface were emitted for the same accepted PortMap, or for PortMaps of two
  different classes that both list that interface on this node: within a class nothing is
  ambiguous. Class bounds and protocols are those the CRD schema admits.
\<close>

theorem dnat_unambiguous:
  assumes "uniquePortMaps inp"
    and r: "r \<in> set (stDNAT (rsState (Compute asSel inp)))" "dnDstAddr r = None"
    and s: "s \<in> set (stDNAT (rsState (Compute asSel inp)))" "dnDstAddr s = None"
    and "dnIface r = dnIface s" and "selProto (dnPort r) = selProto (dnPort s)"
    and port: "selFirst (dnPort r) \<le> p" "p \<le> selLast (dnPort r)" "selFirst (dnPort s) \<le> p" "p \<le> selLast (dnPort s)"
    and bounds: "\<And>c b. c \<in> set (inClasses inp) \<Longrightarrow> csPorts (pcSpec c) = Some b \<Longrightarrow> 0 \<le> prMin b \<and> prMax b \<le> 65535"
    and protos: "\<And>pm. pm \<in> set (inPortMaps inp) \<Longrightarrow> spProtocol (pmSpec pm) \<in> {ProtocolTCP, ProtocolUDP}"
  shows "\<exists>m \<in> set (computeMappings asSel inp). \<exists>n \<in> set (computeMappings asSel inp). mpAccepted m \<and> mpAccepted n \<and>
    r \<in> set (stDNAT (emitMapping inp (newIndex inp) (computeAlloc asSel inp) m)) \<and>
    s \<in> set (stDNAT (emitMapping inp (newIndex inp) (computeAlloc asSel inp) n)) \<and>
    (m = n \<or>
     (\<exists>c \<in> set (inClasses inp). \<exists>c' \<in> set (inClasses inp). mpClass m = Some c \<and> mpClass n = Some c' \<and>
        className c \<noteq> className c' \<and> dnIface r \<in> set (classInterfacesOn c (inNodeName inp)) \<and>
        dnIface r \<in> set (classInterfacesOn c' (inNodeName inp))))"
proof -
  obtain m where m: "m \<in> set (computeMappings asSel inp)" "programmed m"
    "r \<in> set (stDNAT (emitMapping inp (newIndex inp) (computeAlloc asSel inp) m))" using state_DNAT [OF r(1)] by blast
  obtain n where n: "n \<in> set (computeMappings asSel inp)" "programmed n"
    "s \<in> set (stDNAT (emitMapping inp (newIndex inp) (computeAlloc asSel inp) n))" using state_DNAT [OF s(1)] by blast
  note A = accepting_rule [OF assms(1) m r(2)] and B = accepting_rule [OF assms(1) n s(2)]
  obtain c where c: "mpClass m = Some c" "c \<in> set (inClasses inp)" "className c = spClassName (pmSpec (mpPm m))"
    "dnIface r \<in> set (classInterfacesOn c (inNodeName inp))" using A by blast
  obtain c' where c': "mpClass n = Some c'" "c' \<in> set (inClasses inp)" "className c' = spClassName (pmSpec (mpPm n))"
    "dnIface s \<in> set (classInterfacesOn c' (inNodeName inp))" using B by blast
  have proto: "spProtocol (pmSpec (mpPm m)) = spProtocol (pmSpec (mpPm n))"
    using A B assms(7) by (intro portSel_proto protos) auto
  have "mpPm m = mpPm n" if "className c = className c'"
  proof (rule ccontr)
    assume "mpPm m \<noteq> mpPm n"
    moreover have "spClassName (pmSpec (mpPm m)) = spClassName (pmSpec (mpPm n))" using that c(3) c'(3) by simp
    ultimately have "\<not> overlaps (mpPm m) (mpPm n)"
      using computed_no_overlap [OF assms(1) m(1) _ n(1) _ _ _ proto] A B by blast
    moreover have "overlaps (mpPm m) (mpPm n)"
      using A B port computed_interval [OF assms(1) m(1) _ c(1) bounds [OF c(2)]]
        computed_interval [OF assms(1) n(1) _ c'(1) bounds [OF c'(2)]]
      by (auto simp: overlaps_def word_le_def split: prod.splits)
    ultimately show False by blast
  qed
  then have "m = n \<or> className c \<noteq> className c'"
    using distinct_computeMappings [OF assms(1)] m(1) n(1) by (auto simp: distinct_map inj_on_def)
  then show ?thesis using m n A B c c' assms(6) by metis
qed

text \<open>One class, one PortMap and no landed Link: every rule is for requests from outside.\<close>

lemma exOnlyM_DNAT:
  assumes "r \<in> set (stDNAT (rsState (Compute exSel exOnlyM)))"
  shows "dnDstAddr r = None"
proof -
  have none: "landedLink exOnlyM idx c m (computeAlloc exSel exOnlyM) p q s = None" for idx c m p q s
  proof -
    have "inLinks exOnlyM = []" "poolLinks [] = []" by (simp_all add: exOnlyM_def poolLinks_def map_filter_def)
    then have "slotFor (computeAlloc exSel exOnlyM) cls x y = None" for cls x y
      by (simp add: slotFor_def computeAlloc_def Let_def byKey_find)
    then show ?thesis by (simp add: landedLink_def landedSlotFor_def split: option.split)
  qed
  from state_DNAT [OF assms] obtain m where
    r: "r \<in> set (stDNAT (emitMapping exOnlyM (newIndex exOnlyM) (computeAlloc exSel exOnlyM) m))" by blast
  then obtain e c where "r \<in> set (stDNAT (emitAccepting exOnlyM (newIndex exOnlyM) c m e (computeAlloc exSel exOnlyM) (podAddrs exOnlyM m))) \<or>
      r \<in> set (stDNAT (emitTarget exOnlyM (newIndex exOnlyM) c m e (computeAlloc exSel exOnlyM) (podAddrs exOnlyM m)))"
    by (auto simp: emitMapping_def Let_def split: option.splits if_splits)
  then show ?thesis
  proof
    assume "r \<in> set (stDNAT (emitTarget exOnlyM (newIndex exOnlyM) c m e (computeAlloc exSel exOnlyM) (podAddrs exOnlyM m)))"
    from emitTarget_DNAT [OF this] show ?thesis unfolding none by simp
  qed (rule emitAccepting_DNAT [THEN conjunct2, THEN conjunct2, THEN conjunct2])
qed

lemma exOnlyM_rule:
  obtains y m where "y \<in> set (stDNAT (rsState (Compute exSel exOnlyM)))"
    and "m \<in> set (computeMappings exSel exOnlyM)" and "selFirst (dnPort y) = 80" and "selLast (dnPort y) = 80"
proof -
  let ?r = "exResolved exOnlyM ! 0" let ?ms = "computeMappings exSel exOnlyM" let ?m = "?ms ! 0"
  let ?c = "exClass ''m'' ServingMulti ReturnPathVxlan"
  have l: "length (exResolved exOnlyM) = 1" and u: "uniquePortMaps exOnlyM"
    and f: "programmed ?r" "map_option ceNode (mpEndpoint ?r) = Some ''a''" "mpClass ?r = Some ?c"
      "''a'' \<in> set (mpProgrammers ?r)" "V4 0x0a010108 \<in> set (podAddrs exOnlyM ?r)"
      "''e'' \<in> set (interfacesFor ?c ''a'' (mpPm ?r))"
      "selFirst (portSel (mpPm ?r)) = 80" "selLast (portSel (mpPm ?r)) = 80" by code_simp+
  obtain cond where r: "?m = ?r\<lparr>mpProgrammedCond := cond\<rparr>"
    using computeMappings_nth [of 0 exSel exOnlyM] unfolding l by auto
  have ms: "?ms = [?m]" using length_computeMappings [of exSel exOnlyM] unfolding l by (cases ?ms) auto
  obtain e where e: "mpEndpoint ?m = Some e" "ceNode e = ''a''" using f(2) unfolding r by auto
  have n: "inNodeName exOnlyM = ''a''" by (simp add: exOnlyM_def)
  have "V4 0x0a010108 \<in> set (podAddrs exOnlyM ?m)" using f(5) unfolding r by (simp add: podAddrs_def)
  then have "stDNAT (emitMapping exOnlyM idx alloc ?m) \<noteq> []" for idx alloc
    using emitMapping_local [OF e(1), of ?c exOnlyM "V4 0x0a010108" "''e''" idx alloc] f(3,4,6) e(2)
    by (auto simp: n r)
  moreover have "programmed ?m" "?m \<in> set ?ms" using f(1) ms by (simp_all add: r programmed_def)
  ultimately have "dnatKey ` set (stDNAT (rsState (Compute exSel exOnlyM))) \<noteq> {}" unfolding state_DNAT_keys by auto
  then have "set (stDNAT (rsState (Compute exSel exOnlyM))) \<noteq> {}" unfolding image_is_empty .
  then obtain y where y: "y \<in> set (stDNAT (rsState (Compute exSel exOnlyM)))" by (rule not_empty_member)
  from state_DNAT [OF y] have "y \<in> set (stDNAT (emitMapping exOnlyM (newIndex exOnlyM) (computeAlloc exSel exOnlyM) ?m))"
    by (subst (asm) ms) simp
  from accepting_rule [OF u \<open>?m \<in> set ?ms\<close> \<open>programmed ?m\<close> this exOnlyM_DNAT [OF y]] have "dnPort y = portSel (mpPm ?r)"
    by (simp add: r)
  with y \<open>?m \<in> set ?ms\<close> f(7,8) that show ?thesis by simp
qed

lemma dnat_unambiguous_witness:
  "\<exists>r \<in> set (stDNAT (rsState (Compute exSel exOnlyM))). \<exists>m \<in> set (computeMappings exSel exOnlyM). mpAccepted m \<and>
     r \<in> set (stDNAT (emitMapping exOnlyM (newIndex exOnlyM) (computeAlloc exSel exOnlyM) m))"
proof -
  obtain y m where y: "y \<in> set (stDNAT (rsState (Compute exSel exOnlyM)))" and port: "selFirst (dnPort y) = 80" "selLast (dnPort y) = 80"
    by (rule exOnlyM_rule)
  note d = exOnlyM_DNAT [OF y]
  have u: "uniquePortMaps exOnlyM" by code_simp
  have "0 \<le> prMin b \<and> prMax b \<le> 65535" if "c \<in> set (inClasses exOnlyM)" "csPorts (pcSpec c) = Some b" for c b
    using that by (auto simp: exOnlyM_def exClass_def)
  moreover have "spProtocol (pmSpec pm) \<in> {ProtocolTCP, ProtocolUDP}" if "pm \<in> set (inPortMaps exOnlyM)" for pm
    using that by (simp add: exOnlyM_def exPM_def)
  moreover have "selFirst (dnPort y) \<le> 80" "80 \<le> selLast (dnPort y)" using port by simp_all
  ultimately have "\<exists>m \<in> set (computeMappings exSel exOnlyM). mpAccepted m \<and>
     y \<in> set (stDNAT (emitMapping exOnlyM (newIndex exOnlyM) (computeAlloc exSel exOnlyM) m))"
    using dnat_unambiguous [OF u y d y d refl refl, of 80] by blast
  with y show ?thesis by blast
qed

text \<open>
  Two classes do collide: on node \<open>a\<close> of this cluster both classes give the interface \<open>e\<close>, and a
  PortMap of each is accepted for TCP 80 and programmed there.
\<close>

definition exTwoClasses :: Inputs where
  "exTwoClasses =
     (exInputs ''a'')\<lparr>inPortMaps := [exPM ''t'' 3 ''s'' ProtocolTCP 80 None ''v'', exPM ''w'' 4 ''m'' ProtocolTCP 80 None ''w'']\<rparr>"

lemma two_classes_collide:
  "(let m = exResolved exTwoClasses ! 0; n = exResolved exTwoClasses ! 1
    in mpAccepted m \<and> mpAccepted n \<and> ''a'' \<in> set (mpProgrammers m) \<inter> set (mpProgrammers n) \<and>
       portSel (mpPm m) = portSel (mpPm n) \<and> map_option className (mpClass m) \<noteq> map_option className (mpClass n) \<and>
       list_all (\<lambda>x. map_option (\<lambda>c. interfacesFor c ''a'' (mpPm x)) (mpClass x) = Some [''e'']) [m, n])"
  by code_simp

text \<open>
  The metrics can name the owner of every rule. Each DNAT rule of the State has an entry under
  its key in the index of owners, and the owner it names is an accepted PortMap that emits a rule
  with that key on this node.
\<close>

theorem metrics_owner:
  assumes "r \<in> set (stDNAT (rsState (Compute asSel inp)))"
  shows "\<exists>m \<in> set (computeMappings asSel inp). mpAccepted m \<and>
    map_of (mxDNAT (rsMetrics (Compute asSel inp))) (KeyOf r) =
      Some \<lparr>owNamespace = pmNamespace (mpPm m), owName = pmName (mpPm m)\<rparr> \<and>
    KeyOf r \<in> KeyOf ` set (stDNAT (emitMapping inp (newIndex inp) (computeAlloc asSel inp) m))"
proof -
  let ?emit = "\<lambda>m. stDNAT (emitMapping inp (newIndex inp) (computeAlloc asSel inp) m)"
  let ?here = "filter (\<lambda>m. ?emit m \<noteq> []) (filter programmed (computeMappings asSel inp))"
  from state_DNAT [OF assms] obtain m where m: "m \<in> set (computeMappings asSel inp)" "programmed m" "r \<in> set (?emit m)" by blast
  then have "\<exists>x \<in> set (concat (map (\<lambda>m. map (Pair m) (?emit m)) ?here)). KeyOf (snd x) = KeyOf r" by fastforce
  then have "map_of (putAll (KeyOf \<circ> snd) (mappingOwner \<circ> fst) (concat (map (\<lambda>m. map (Pair m) (?emit m)) ?here)) []) (KeyOf r) \<noteq> None"
    unfolding owner_rows.rows_dom by simp
  then obtain v where v: "map_of (putAll (KeyOf \<circ> snd) (mappingOwner \<circ> fst) (concat (map (\<lambda>m. map (Pair m) (?emit m)) ?here)) []) (KeyOf r) = Some v"
    by blast
  from owner_rows.rows_SomeD [OF v] obtain x where "x \<in> set (concat (map (\<lambda>m. map (Pair m) (?emit m)) ?here))"
    and x: "KeyOf (snd x) = KeyOf r" "mappingOwner (fst x) = v"
    unfolding comp_def by blast
  then obtain n s where n: "n \<in> set ?here" "x = (n, s)" "s \<in> set (?emit n)" by auto
  have "mxDNAT (rsMetrics (Compute asSel inp)) =
      putAll (KeyOf \<circ> snd) (mappingOwner \<circ> fst) (concat (map (\<lambda>m. map (Pair m) (?emit m)) ?here)) []"
    by (simp add: Compute_def buildMetricsIndex_def Let_def putAll_concat)
  with v x n have "map_of (mxDNAT (rsMetrics (Compute asSel inp))) (KeyOf r) =
      Some \<lparr>owNamespace = pmNamespace (mpPm n), owName = pmName (mpPm n)\<rparr>" by (simp add: mappingOwner_def)
  moreover have "KeyOf r \<in> KeyOf ` set (?emit n)" using x(1) n(2,3) by (metis imageI snd_conv)
  moreover have "n \<in> set (computeMappings asSel inp)" "mpAccepted n" using n(1) by (auto simp: programmed_def)
  ultimately show ?thesis by blast
qed

lemma metrics_owner_witness:
  "\<exists>r \<in> set (stDNAT (rsState (Compute exSel exOnlyM))). \<exists>m \<in> set (computeMappings exSel exOnlyM).
     map_of (mxDNAT (rsMetrics (Compute exSel exOnlyM))) (KeyOf r) = Some \<lparr>owNamespace = pmNamespace (mpPm m), owName = pmName (mpPm m)\<rparr>"
proof -
  obtain y where y: "y \<in> set (stDNAT (rsState (Compute exSel exOnlyM)))" by (rule exOnlyM_rule)
  from metrics_owner [OF y] y show ?thesis by blast
qed

end
