(* ===== verification/AgentStatus.thy ===== *)
theory AgentStatus
  imports Compute
begin

text \<open>
  The status an agent writes (\<open>agent/status.go\<close>). The API server and what other writers do to it
  meanwhile are one world of type \<open>'w\<close>: each call of the client takes the world and returns a later
  one. \<open>meta.SetStatusCondition\<close> and \<open>retry.RetryOnConflict\<close> with its backoff belong to the Kubernetes
  libraries and are parameters.
\<close>

section \<open>The client\<close>

datatype APIErr = NotFound | ConflictErr | AlreadyExists | APIFailure string

type_synonym 'w apiop = "'w \<Rightarrow> 'w \<times> APIErr option"

record 'w APIClient =
  getPortMap :: "string \<times> string \<Rightarrow> 'w \<Rightarrow> 'w \<times> (APIErr + PortMap)"
  updatePortMap :: "PortMap \<Rightarrow> 'w apiop"
  getClass :: "string \<Rightarrow> 'w \<Rightarrow> 'w \<times> (APIErr + PortMapClass)"
  updateClass :: "PortMapClass \<Rightarrow> 'w apiop"
  getEgress :: "string \<times> string \<Rightarrow> 'w \<Rightarrow> 'w \<times> (APIErr + Egress)"
  updateEgress :: "Egress \<Rightarrow> 'w apiop"
  getEgressClass :: "string \<Rightarrow> 'w \<Rightarrow> 'w \<times> (APIErr + EgressClass)"
  updateEgressClass :: "EgressClass \<Rightarrow> 'w apiop"
  getLink :: "string \<Rightarrow> 'w \<Rightarrow> 'w \<times> (APIErr + LinkObj)"
  updateLink :: "LinkObj \<Rightarrow> 'w apiop"
  createLinkObj :: "LinkObj \<Rightarrow> 'w apiop"
  deleteLinkObj :: "string \<Rightarrow> string \<Rightarrow> 'w apiop"

type_synonym cond_setter = "Condition list \<Rightarrow> Condition \<Rightarrow> Condition list"

text \<open>
  What \<open>RetryOnConflict\<close> is documented to do: it calls the function again while that answers with a
  conflict, and what the last call does and answers is the result, a conflict too when it gives up.
\<close>

inductive conflictPath :: "'w apiop \<Rightarrow> 'w \<Rightarrow> 'w \<Rightarrow> bool" for f where
  here: "conflictPath f w w"
| again: "f w = (w1, Some ConflictErr) \<Longrightarrow> conflictPath f w1 v \<Longrightarrow> conflictPath f w v"

definition retriesConflicts :: "('w apiop \<Rightarrow> 'w apiop) \<Rightarrow> bool" where
  "retriesConflicts retry \<longleftrightarrow> (\<forall>f w. \<exists>v. conflictPath f w v \<and> retry f w = f v)"

text \<open>
  The closure every writer passes: read the object, build the next one from what was read, and update
  it when its status changed. An object that is gone needs no status. Lists are compared by their
  elements, as \<open>equality.Semantic.DeepEqual\<close> takes a nil slice and an empty one as equal.
\<close>

definition writeMerged ::
  "('w \<Rightarrow> 'w \<times> (APIErr + 'o)) \<Rightarrow> ('o \<Rightarrow> 'w apiop) \<Rightarrow> ('o \<Rightarrow> 's) \<Rightarrow> ('o \<Rightarrow> 'w \<Rightarrow> 'w \<times> 'o) \<Rightarrow> 'w apiop" where
  "writeMerged get update status next w =
     (case get w of
        (w', Inl NotFound) \<Rightarrow> (w', None)
      | (w', Inl e) \<Rightarrow> (w', Some e)
      | (w', Inr cur) \<Rightarrow>
          (case next cur w' of (w'', new) \<Rightarrow> if status new = status cur then (w'', None) else update new w''))"

section \<open>What the host adds\<close>

record hostState =
  htTunnelOK :: bool
  htTunnelKnown :: bool
  htCniPort :: int
  htLinkPort :: int
  htUnderlayMTU :: int
  htLinkMTU :: int

definition int32 :: "int \<Rightarrow> int" where
  "int32 i = sint (word_of_int i :: 32 word)"

definition hostRow :: "hostState \<Rightarrow> NodeStatus \<Rightarrow> NodeStatus" where
  "hostRow hs row = row\<lparr>nsUnderlayMTU := int32 (htUnderlayMTU hs), nsLinkMTU := int32 (htLinkMTU hs)\<rparr>"

text \<open>Inserts or replaces the row of the same name, the first one when there are several.\<close>

fun upsertNodeRow :: "NodeStatus list \<Rightarrow> NodeStatus \<Rightarrow> NodeStatus list" where
  "upsertNodeRow [] row = [row]"
| "upsertNodeRow (r # rows) row = (if nsName r = nsName row then row # rows else r # upsertNodeRow rows row)"

definition overlayConditions :: "Condition list \<Rightarrow> PortMapClass \<Rightarrow> hostState \<Rightarrow> int \<Rightarrow> Condition list" where
  "overlayConditions base class hs now =
     (if rpMode (csReturnPath (pcSpec class)) \<noteq> ReturnPathVxlan then base
      else if htLinkPort hs \<noteq> htCniPort hs then base
      else filter (\<lambda>c. cdType c \<noteq> ConditionReady) base
           @ [mkCondition ConditionReady CondFalse ReasonVxlanPortConflict
                (''the agent'' @ [CHR 0x27] @ ''s --link-port collides with the CNI'' @ [CHR 0x27] @ ''s tunnel port'')
                now (omGeneration (pcMeta class))])"

section \<open>Published addresses\<close>

definition needsClass :: "string \<Rightarrow> bool \<Rightarrow> PublishedAddress list \<Rightarrow> bool" where
  "needsClass node want6 rows =
     list_ex (\<lambda>r. paNode r \<noteq> node \<and> (paAddress r = [] \<or> (want6 \<and> paAddress6 r = []))) rows"

definition fillLocal :: "(string \<Rightarrow> string option) \<Rightarrow> (string \<Rightarrow> string option) \<Rightarrow> bool \<Rightarrow> PublishedAddress \<Rightarrow> PublishedAddress" where
  "fillLocal addr4 addr6 want6 r =
     r\<lparr>paAddress := (if paAddress r = [] then (case addr4 (paInterface r) of Some a \<Rightarrow> a | None \<Rightarrow> []) else paAddress r),
       paAddress6 := (if want6 \<and> paAddress6 r = []
                      then (case addr6 (paInterface r) of Some a \<Rightarrow> a | None \<Rightarrow> []) else paAddress6 r)\<rparr>"

definition fillRemote :: "NodeStatus list \<Rightarrow> bool \<Rightarrow> PublishedAddress \<Rightarrow> PublishedAddress" where
  "fillRemote nodes want6 r =
     (case find (\<lambda>nr. nsName nr = paNode r) nodes of
        None \<Rightarrow> r
      | Some nr \<Rightarrow>
          fillLocal (map_of (nsAddresses nr)) (map_of (nsAddresses6 nr)) want6 r)"

definition fillPublished ::
  "'w APIClient \<Rightarrow> string \<Rightarrow> (string \<Rightarrow> string option) \<Rightarrow> (string \<Rightarrow> string option) \<Rightarrow> string \<Rightarrow>
   PublishedAddress list \<Rightarrow> bool \<Rightarrow> 'w \<Rightarrow> 'w \<times> PublishedAddress list" where
  "fillPublished client node addr4 addr6 clsName rows want6 w =
     (case (if needsClass node want6 rows
            then (case getClass client clsName w of (w', Inr c) \<Rightarrow> (w', ctNodes (pcStatus c)) | (w', Inl _) \<Rightarrow> (w', []))
            else (w, [])) of
        (w', nodes) \<Rightarrow>
          (w', map (\<lambda>r. if paNode r = node then fillLocal addr4 addr6 want6 r else fillRemote nodes want6 r) rows))"

section \<open>The writers\<close>

definition portMapNext ::
  "'w APIClient \<Rightarrow> cond_setter \<Rightarrow> string \<Rightarrow> (string \<Rightarrow> string option) \<Rightarrow> (string \<Rightarrow> string option) \<Rightarrow> PortMapStatus \<Rightarrow>
   PortMap \<Rightarrow> 'w \<Rightarrow> 'w \<times> PortMap" where
  "portMapNext client setCond node addr4 addr6 desired pm w =
     (let want6 = (case psEndpoint desired of Some e \<Rightarrow> seAddress6 e \<noteq> [] | None \<Rightarrow> False)
      in case fillPublished client node addr4 addr6 (spClassName (pmSpec pm)) (psPublished desired) want6 w of
           (w', published) \<Rightarrow>
             (w', pm\<lparr>pmStatus :=
                \<lparr>psEndpoint = psEndpoint desired, psPublished = published,
                 psObservedGeneration = psObservedGeneration desired,
                 psConditions = foldl setCond (psConditions (pmStatus pm)) (psConditions desired)\<rparr>\<rparr>))"

definition writePortMap ::
  "('w apiop \<Rightarrow> 'w apiop) \<Rightarrow> 'w APIClient \<Rightarrow> cond_setter \<Rightarrow> string \<Rightarrow> (string \<Rightarrow> string option) \<Rightarrow> (string \<Rightarrow> string option) \<Rightarrow>
   string \<times> string \<Rightarrow> PortMapStatus \<Rightarrow> 'w apiop" where
  "writePortMap retry client setCond node addr4 addr6 key desired =
     retry (writeMerged (getPortMap client key) (updatePortMap client) pmStatus
       (portMapNext client setCond node addr4 addr6 desired))"

definition egressNext :: "cond_setter \<Rightarrow> EgressStatus \<Rightarrow> Egress \<Rightarrow> Egress" where
  "egressNext setCond desired eg =
     eg\<lparr>egStatus :=
        \<lparr>esNode = esNode desired, esPods = esPods desired, esObservedGeneration = esObservedGeneration desired,
         esConditions = foldl setCond (esConditions (egStatus eg)) (esConditions desired)\<rparr>\<rparr>"

definition writeEgress :: "('w apiop \<Rightarrow> 'w apiop) \<Rightarrow> 'w APIClient \<Rightarrow> cond_setter \<Rightarrow> string \<times> string \<Rightarrow> EgressStatus \<Rightarrow> 'w apiop" where
  "writeEgress retry client setCond key desired =
     retry (writeMerged (getEgress client key) (updateEgress client) egStatus
       (\<lambda>eg w. (w, egressNext setCond desired eg)))"

definition egressClassNext :: "cond_setter \<Rightarrow> EgressClassContribution \<Rightarrow> hostState \<Rightarrow> EgressClass \<Rightarrow> EgressClass" where
  "egressClassNext setCond contrib hs class =
     class\<lparr>ecStatus := (ecStatus class)
        \<lparr>ecNodes := upsertNodeRow (ecNodes (ecStatus class)) (hostRow hs (xcNode contrib)),
         ecObservedGeneration := (if omGeneration (ecMeta class) \<noteq> 0 then omGeneration (ecMeta class)
                                  else ecObservedGeneration (ecStatus class)),
         ecConditions := foldl setCond (ecConditions (ecStatus class)) (xcConditions contrib)\<rparr>\<rparr>"

definition writeEgressClass ::
  "('w apiop \<Rightarrow> 'w apiop) \<Rightarrow> 'w APIClient \<Rightarrow> cond_setter \<Rightarrow> string \<Rightarrow> EgressClassContribution \<Rightarrow> hostState \<Rightarrow> 'w apiop" where
  "writeEgressClass retry client setCond name contrib hs =
     retry (writeMerged (getEgressClass client name) (updateEgressClass client) ecStatus
       (\<lambda>class w. (w, egressClassNext setCond contrib hs class)))"

definition classNext :: "cond_setter \<Rightarrow> ClassContribution \<Rightarrow> hostState \<Rightarrow> int \<Rightarrow> PortMapClass \<Rightarrow> PortMapClass" where
  "classNext setCond contrib hs now class =
     class\<lparr>pcStatus := (pcStatus class)
        \<lparr>ctNodes := (if nsName (ccNode contrib) \<noteq> []
                     then upsertNodeRow (ctNodes (pcStatus class)) (hostRow hs (ccNode contrib))
                     else ctNodes (pcStatus class)),
         ctLinks := (if ccClearLegacyLinks contrib then [] else ctLinks (pcStatus class)),
         ctObservedGeneration := (if omGeneration (pcMeta class) \<noteq> 0 then omGeneration (pcMeta class)
                                  else ctObservedGeneration (pcStatus class)),
         ctConditions := foldl setCond (ctConditions (pcStatus class))
                           (overlayConditions (ccConditions contrib) class hs now)\<rparr>\<rparr>"

definition writeClass ::
  "('w apiop \<Rightarrow> 'w apiop) \<Rightarrow> 'w APIClient \<Rightarrow> cond_setter \<Rightarrow> string \<Rightarrow> ClassContribution \<Rightarrow> hostState \<Rightarrow> int \<Rightarrow> 'w apiop" where
  "writeClass retry client setCond name contrib hs now =
     retry (writeMerged (getClass client name) (updateClass client) pcStatus
       (\<lambda>class w. (w, classNext setCond contrib hs now class)))"

text \<open>A loop that goes on after an error and keeps the first.\<close>

fun keepFirst :: "('a \<Rightarrow> 'w apiop) \<Rightarrow> 'a list \<Rightarrow> 'w apiop" where
  "keepFirst f [] w = (w, None)"
| "keepFirst f (x # xs) w =
     (case f x w of (w', e) \<Rightarrow> (case keepFirst f xs w' of (w'', e') \<Rightarrow> (w'', case e of Some _ \<Rightarrow> e | None \<Rightarrow> e')))"

definition ignoring :: "APIErr set \<Rightarrow> 'w apiop \<Rightarrow> 'w apiop" where
  "ignoring es f w = (case f w of (w', Some e) \<Rightarrow> (w', if e \<in> es then None else Some e) | r \<Rightarrow> r)"

definition createLink1 :: "'w APIClient \<Rightarrow> LinkObj \<Rightarrow> 'w apiop" where
  "createLink1 client l = ignoring {AlreadyExists} (createLinkObj client l)"

definition statusLink1 :: "'w APIClient \<Rightarrow> LinkStatusUpdate \<Rightarrow> 'w apiop" where
  "statusLink1 client u w =
     (case getLink client (luName u) w of
        (w', Inl NotFound) \<Rightarrow> (w', None)
      | (w', Inl e) \<Rightarrow> (w', Some e)
      | (w', Inr l) \<Rightarrow>
          if omResourceVersion (lkMeta l) \<noteq> luResourceVersion u then (w', None)
          else ignoring {ConflictErr, NotFound} (updateLink client (l\<lparr>lkStatus := \<lparr>lkUnusedSince = luUnusedSince u\<rparr>\<rparr>)) w')"

definition deleteLink1 :: "'w APIClient \<Rightarrow> LinkDelete \<Rightarrow> 'w apiop" where
  "deleteLink1 client d = ignoring {ConflictErr, NotFound} (deleteLinkObj client (ldName d) (ldResourceVersion d))"

definition andThen :: "'w apiop \<Rightarrow> 'w apiop \<Rightarrow> 'w apiop" where
  "andThen f g w =
     (case f w of (w', e) \<Rightarrow> (case g w' of (w'', e') \<Rightarrow> (w'', case e of Some _ \<Rightarrow> e | None \<Rightarrow> e')))"

definition writeLinks :: "'w APIClient \<Rightarrow> LinkActions \<Rightarrow> 'w apiop" where
  "writeLinks client acts =
     andThen (keepFirst (createLink1 client) (acCreate acts))
    (andThen (keepFirst (statusLink1 client) (acStatus acts))
             (keepFirst (deleteLink1 client) (acDelete acts)))"

definition writeStatuses ::
  "('w apiop \<Rightarrow> 'w apiop) \<Rightarrow> 'w APIClient \<Rightarrow> cond_setter \<Rightarrow> string \<Rightarrow> (string \<Rightarrow> string option) \<Rightarrow> (string \<Rightarrow> string option) \<Rightarrow>
   Result \<Rightarrow> hostState \<Rightarrow> int \<Rightarrow> 'w apiop" where
  "writeStatuses retry client setCond node addr4 addr6 res hs now =
     andThen (keepFirst (\<lambda>(key, st). writePortMap retry client setCond node addr4 addr6 key st) (rsPortMapStatus res))
    (andThen (keepFirst (\<lambda>(name, c). writeClass retry client setCond name c hs now) (rsClassStatus res))
    (andThen (keepFirst (\<lambda>(key, st). writeEgress retry client setCond key st) (rsEgressStatus res))
    (andThen (keepFirst (\<lambda>(name, c). writeEgressClass retry client setCond name c hs) (rsEgressClassStatus res))
             (writeLinks client (rsLinks res)))))"

section \<open>Optimistic concurrency\<close>

text \<open>
  What the API server promises for one kind of object. \<open>stored\<close> is what it holds, \<open>later\<close> relates a
  world to every world other writers can turn it into. A read may come from a cache that lags behind,
  but a version of an object never has two contents. An update goes through only over the version it
  carries, replaces that one object, and may give it a new version.
\<close>

locale versioned_store =
  fixes stored :: "'w \<Rightarrow> 'k \<rightharpoonup> 'o" and version :: "'o \<Rightarrow> string" and later :: "'w \<Rightarrow> 'w \<Rightarrow> bool"
    and get :: "'k \<Rightarrow> 'w \<Rightarrow> 'w \<times> (APIErr + 'o)" and update :: "'o \<Rightarrow> 'w apiop" and keyOf :: "'o \<Rightarrow> 'k" and forget :: "'o \<Rightarrow> 'o"
  assumes later_refl: "later w w" and later_trans: "later w1 w2 \<Longrightarrow> later w2 w3 \<Longrightarrow> later w1 w3"
    and get_later: "later w (fst (get k w))"
    and get_conflict: "get k w \<noteq> (w', Inl ConflictErr)"
    and get_key: "get k w = (w', Inr obj) \<Longrightarrow> keyOf obj = k"
    and get_version: "get k w = (w', Inr obj) \<Longrightarrow> later w' w2 \<Longrightarrow> stored w2 k = Some obj2 \<Longrightarrow> version obj2 = version obj \<Longrightarrow> obj2 = obj"
    and update_ok: "update obj w = (w', None) \<Longrightarrow>
      \<exists>w1 cur new. later w w1 \<and> stored w1 (keyOf obj) = Some cur \<and> version cur = version obj \<and>
        forget new = forget obj \<and> stored w' = (stored w1)(keyOf obj \<mapsto> new)"
    and update_conflict: "update obj w = (w', Some ConflictErr) \<Longrightarrow> later w w'"
begin

text \<open>
  A write under retries is one atomic merge: into the object stored at the moment it went through, or
  none because the last read found the object gone or already as it should be, with nothing after it.
\<close>

definition merged :: "('o \<Rightarrow> 'w \<Rightarrow> 'w \<times> 'o) \<Rightarrow> 'k \<Rightarrow> 'w \<Rightarrow> 'w \<Rightarrow> bool" where
  "merged next k w w' \<longleftrightarrow>
     (\<exists>w1 cur v new. later w w1 \<and> stored w1 k = Some cur \<and> forget new = forget (snd (next cur v)) \<and>
        stored w' = (stored w1)(k \<mapsto> new))"

definition settled :: "('o \<Rightarrow> 's) \<Rightarrow> ('o \<Rightarrow> 'w \<Rightarrow> 'w \<times> 'o) \<Rightarrow> 'k \<Rightarrow> 'w \<Rightarrow> 'w \<Rightarrow> bool" where
  "settled status next k w w' \<longleftrightarrow>
     (\<exists>v. later w v \<and> (get k v = (w', Inl NotFound) \<or>
        (\<exists>v' cur new. get k v = (v', Inr cur) \<and> next cur v' = (w', new) \<and> status new = status cur)))"

lemma writeMerged_once:
  assumes keeps: "\<And>cur v v' new. next cur v = (v', new) \<Longrightarrow> later v v' \<and> keyOf new = keyOf cur \<and> version new = version cur"
    and run: "writeMerged (get k) update status next w = (w', e)"
  shows "e = None \<Longrightarrow> settled status next k w w' \<or> merged next k w w'" and "e = Some ConflictErr \<Longrightarrow> later w w'"
proof -
  obtain v r where get: "get k w = (v, r)" by fastforce
  have lv: "later w v" using get_later [of w k] get by simp
  have "(e = None \<longrightarrow> settled status next k w w' \<or> merged next k w w') \<and>
    (e = Some ConflictErr \<longrightarrow> later w w')"
  proof (cases r)
    case (Inl err)
    then show ?thesis using run get lv later_refl [of w] get_conflict
      by (cases err) (auto simp: writeMerged_def settled_def)
  next
    case (Inr cur)
    obtain v' new where n: "next cur v = (v', new)" by fastforce
    note k = keeps [OF n] and key = get_key [OF get [unfolded Inr]]
    have lv': "later w v'" using later_trans lv k by blast
    show ?thesis
    proof (cases "status new = status cur")
      case True
      then have "w' = v'" "e = None" using run get Inr n by (simp_all add: writeMerged_def)
      moreover have "settled status next k w v'" unfolding settled_def using later_refl [of w] get Inr n True by blast
      ultimately show ?thesis by simp
    next
      case False
      then have upd: "update new v' = (w', e)" using run get Inr n by (simp add: writeMerged_def)
      have "merged next k w w'" if ok: "e = None"
      proof -
        obtain w1 c d where w1: "later v' w1" "stored w1 k = Some c" "version c = version cur" "forget d = forget new"
            "stored w' = (stored w1)(k \<mapsto> d)"
          using update_ok [OF upd [unfolded ok]] k key by auto
        have "c = cur" using get_version [OF get [unfolded Inr]] later_trans k w1(1-3) by blast
        with w1 n show ?thesis unfolding merged_def using later_trans [OF lv' w1(1)] by (metis snd_conv)
      qed
      moreover have "later w w'" if "e = Some ConflictErr" using update_conflict upd that later_trans lv' by blast
      ultimately show ?thesis by blast
    qed
  qed
  then show "e = None \<Longrightarrow> settled status next k w w' \<or> merged next k w w'"
    "e = Some ConflictErr \<Longrightarrow> later w w'" by blast+
qed

lemma merged_later: "later w0 w \<Longrightarrow> merged next k w w' \<Longrightarrow> merged next k w0 w'"
  unfolding merged_def using later_trans by blast

lemma settled_later: "later w0 w \<Longrightarrow> settled status next k w w' \<Longrightarrow> settled status next k w0 w'"
  unfolding settled_def using later_trans by blast

lemma retry_merges:
  assumes "retriesConflicts retry"
    and keeps: "\<And>cur v v' new. next cur v = (v', new) \<Longrightarrow> later v v' \<and> keyOf new = keyOf cur \<and> version new = version cur"
    and run: "retry (writeMerged (get k) update status next) w = (w', None)"
  shows "settled status next k w w' \<or> merged next k w w'"
proof -
  obtain v where v: "conflictPath (writeMerged (get k) update status next) w v"
      "writeMerged (get k) update status next v = (w', None)"
    using assms(1) run unfolding retriesConflicts_def by metis
  from v(1) have "later w v"
  proof induction
    case (again w w1 v)
    then show ?case using writeMerged_once(2) [OF keeps again(1)] later_trans by blast
  qed (rule later_refl)
  with writeMerged_once(1) [OF keeps v(2)] show ?thesis using merged_later settled_later by blast
qed

end

end
