(* ===== verification/Steer.thy ===== *)
theory Steer
  imports DatapathState
begin

text \<open>
  The stand-in addresses (\<open>datapath/steer.go\<close>): each of the node's own addresses gets one in its
  own family, and an IPv6 stand-in keeps the ones' complement sum of the address it stands for.
\<close>

unbundle bit_operations_syntax

section \<open>Stand-ins\<close>

text \<open>\<open>netip.Prefix.Contains\<close>: false across families and for an address with a zone.\<close>

fun prefixContains :: "prefix \<Rightarrow> addr \<Rightarrow> bool" where
  "prefixContains p (V4 v) =
     (case pfxAddr p of
        V4 w \<Rightarrow> prefixIsValid p \<and> drop_bit (33 - pfxBits1 p) w = drop_bit (33 - pfxBits1 p) v
      | _ \<Rightarrow> False)"
| "prefixContains p (V6 v z) =
     (case pfxAddr p of
        V6 w _ \<Rightarrow> prefixIsValid p \<and> z = [] \<and> drop_bit (129 - pfxBits1 p) w = drop_bit (129 - pfxBits1 p) v
      | _ \<Rightarrow> False)"
| "prefixContains p AddrZero = False"

definition SteerV4 :: prefix where [const_defs]: "SteerV4 = prefixFrom (V4 0xa9fe4c00) 24"
definition SteerV6 :: prefix where [const_defs]:
  "SteerV6 = prefixFrom (V6 0xfd6b7570000000000000000000000000 []) 96"

record Steer =
  srLocal :: addr
  srVirtual :: addr

text \<open>The eight 16-bit words of an address, the first one first.\<close>

definition words16 :: "128 word \<Rightarrow> 16 word list" where
  "words16 w = map (\<lambda>k. ucast (drop_bit (16 * k) w)) [7, 6, 5, 4, 3, 2, 1, 0]"

definition onesAdd :: "16 word \<Rightarrow> 16 word \<Rightarrow> 16 word" where
  "onesAdd a b = (let s = (ucast a + ucast b :: 32 word) in ucast ((s AND 0xffff) + drop_bit 16 s))"

definition onesSum :: "128 word \<Rightarrow> 16 word" where
  "onesSum w = foldl onesAdd 0 (words16 w)"

definition steerV4 :: "nat \<Rightarrow> addr" where
  "steerV4 slot = V4 (0xa9fe4c00 OR ucast (of_nat slot :: 8 word))"

definition steerV6 :: "nat \<Rightarrow> addr \<Rightarrow> addr" where
  "steerV6 slot local =
     (let b = 0xfd6b7570000000000000000000000000 OR push_bit 16 (ucast (of_nat slot :: 16 word)) :: 128 word;
          want = onesSum (as16 local); have = onesSum b
      in V6 (b OR ucast (onesAdd want (NOT have))) [])"

section \<open>The pairs\<close>

definition addLocal :: "addr list \<Rightarrow> addr \<Rightarrow> addr list" where
  "addLocal locals a0 =
     (let a = unmapAddr a0
      in if \<not> addrIsValid a \<or> a \<in> set locals \<or> prefixContains SteerV4 a \<or> prefixContains SteerV6 a
         then locals else locals @ [a])"

definition linkLocals :: "Link \<Rightarrow> addr list" where
  "linkLocals l =
     (if prefixIsValid (lnLinkAddr l) then [pfxAddr (lnLinkAddr l)] else []) @
     (if prefixIsValid (lnLinkAddr6 l) then [pfxAddr (lnLinkAddr6 l)] else [])"

definition steerLocals :: "State \<Rightarrow> addr list" where
  "steerLocals s = foldl addLocal [] (stLocalAddrs s @ concat (map linkLocals (stLinks s)))"

fun pairUp :: "nat \<Rightarrow> nat \<Rightarrow> addr list \<Rightarrow> Steer list" where
  "pairUp n4 n6 [] = []"
| "pairUp n4 n6 (a # as) =
     (if is4 a then
        if n4 = 254 then pairUp n4 n6 as
        else \<lparr>srLocal = a, srVirtual = steerV4 (n4 + 1)\<rparr> # pairUp (n4 + 1) n6 as
      else \<lparr>srLocal = a, srVirtual = steerV6 (n6 + 1) a\<rparr> # pairUp n4 (n6 + 1) as)"

definition steerPairs :: "State \<Rightarrow> Steer list" where
  "steerPairs s = pairUp 0 0 (sortBy addrLess (steerLocals s))"

section \<open>Lemmas: ones' complement sums\<close>

lemma fold_carry:
  fixes S :: int
  assumes "0 \<le> S" and "S \<le> 131070"
  shows "(S mod 65536 + S div 65536) mod 65536 = (if S < 65536 then S else S - 65535)"
proof (cases "S < 65536")
  case False
  define t where "t = S - 65536"
  then have "S = t + 65536" "0 \<le> t" "t < 65535" using False assms by simp_all
  then show ?thesis by simp
qed (use assms in simp)

lemma uint_onesAdd:
  "uint (onesAdd a b) = (if uint a + uint b < 65536 then uint a + uint b else uint a + uint b - 65535)"
proof -
  let ?s = "ucast a + ucast b :: 32 word"
  have a: "0 \<le> uint a" "uint a < 65536" and b: "0 \<le> uint b" "uint b < 65536"
    using uint_bounded [of a] uint_bounded [of b] by simp_all
  have s: "uint ?s = uint a + uint b"
    using a b by (simp add: uint_word_ariths unsigned_ucast_eq take_bit_int_eq_self take_bit_eq_mod)
  have lo: "uint (?s AND 0xffff) = (uint a + uint b) mod 65536"
  proof -
    have "?s AND 0xffff = take_bit 16 ?s" by (simp add: take_bit_eq_mask mask_eq_decr_exp)
    then show ?thesis by (simp only: unsigned_take_bit_eq s) (simp add: take_bit_eq_mod)
  qed
  have hi: "uint (drop_bit 16 ?s) = (uint a + uint b) div 65536"
    using a b by (simp only: unsigned_drop_bit_eq s) (simp add: drop_bit_eq_div take_bit_int_eq_self)
  have "uint (onesAdd a b) = ((uint a + uint b) mod 65536 + (uint a + uint b) div 65536) mod 65536"
    unfolding onesAdd_def Let_def
    by (simp add: unsigned_ucast_eq uint_word_ariths lo hi take_bit_eq_mod mod_mod_cancel)
  also have "\<dots> = (if uint a + uint b < 65536 then uint a + uint b else uint a + uint b - 65535)"
    using a b by (intro fold_carry) simp_all
  finally show ?thesis .
qed

lemma onesAdd_zero [simp]: "onesAdd a 0 = a" "onesAdd 0 a = a"
  using uint_bounded [of a] by (simp_all add: word_uint_eq_iff uint_onesAdd)

lemma onesAdd_eq_zero: "onesAdd a b = 0 \<longleftrightarrow> a = 0 \<and> b = 0"
proof -
  have "0 \<le> uint a" "0 \<le> uint b" by simp_all
  then show ?thesis by (auto simp: word_uint_eq_iff uint_onesAdd add_nonneg_eq_0_iff split: if_splits)
qed

lemma foldl_onesAdd_zero: "foldl onesAdd a ws = 0 \<longleftrightarrow> a = 0 \<and> (\<forall>w \<in> set ws. w = 0)"
  by (induction ws arbitrary: a) (auto simp: onesAdd_eq_zero)

text \<open>Adding the ones' complement difference reaches the wanted sum, unless it is zero.\<close>

lemma onesAdd_difference:
  assumes "x \<noteq> 0" and "y \<noteq> 0"
  shows "onesAdd x (onesAdd y (NOT x)) = y"
proof -
  have h: "0 < uint x" "uint x < 65536" and w: "0 < uint y" "uint y < 65536"
    using assms uint_bounded [of x] uint_bounded [of y] unsigned_greater_eq [of x] unsigned_greater_eq [of y]
    by (auto simp: word_uint_eq_iff order.not_eq_order_implies_strict)
  have "take_bit 16 (uint x) = uint x" using h by (simp add: take_bit_int_eq_self)
  then have n: "uint (NOT x) = 65535 - uint x"
    by (simp add: unsigned_not_eq take_bit_not_eq_mask_diff mask_eq_exp_minus_1)
  show ?thesis using h w by (auto simp: word_uint_eq_iff uint_onesAdd n)
qed

lemma words16_zero: "(\<forall>v \<in> set (words16 w). v = 0) \<longleftrightarrow> w = 0"
proof
  assume z: "\<forall>v \<in> set (words16 w). v = 0"
  have "bit w n = bit 0 n" if n: "n < LENGTH(128)" for n
  proof -
    have "n div 16 \<in> {7, 6, 5, 4, 3, 2, 1, 0}" using n by (simp, arith)
    then have "(ucast (drop_bit (16 * (n div 16)) w) :: 16 word) = 0" using z unfolding words16_def by auto
    then have "\<not> bit (ucast (drop_bit (16 * (n div 16)) w) :: 16 word) (n mod 16)" by simp
    then have "\<not> bit w (16 * (n div 16) + n mod 16)" by (simp add: bit_simps)
    then show ?thesis by simp
  qed
  then show "w = 0" by (rule bit_word_eqI)
qed (simp add: words16_def)

lemma onesSum_zero: "onesSum w = 0 \<longleftrightarrow> w = 0"
  by (simp add: onesSum_def foldl_onesAdd_zero words16_zero)

section \<open>Lemmas: the stand-ins\<close>

lemma bit_past_16 [simp]: "16 \<le> n \<Longrightarrow> \<not> bit (w :: 16 word) n"
  using bit_imp_le_length [of w n] by auto

definition join16 :: "16 word \<Rightarrow> 16 word \<Rightarrow> 16 word \<Rightarrow> 16 word \<Rightarrow> 16 word \<Rightarrow> 16 word \<Rightarrow> 16 word \<Rightarrow> 16 word \<Rightarrow> 128 word" where
  "join16 a b c d e f g h =
     push_bit 112 (ucast a) OR push_bit 96 (ucast b) OR push_bit 80 (ucast c) OR push_bit 64 (ucast d) OR
     push_bit 48 (ucast e) OR push_bit 32 (ucast f) OR push_bit 16 (ucast g) OR ucast h"

lemma words16_join16: "words16 (join16 a b c d e f g h) = [a, b, c, d, e, f, g, h]"
  unfolding words16_def join16_def by (simp add: bit_eq_iff bit_simps)

lemma steer_base: "0xfd6b7570000000000000000000000000 OR push_bit 16 (ucast slot) OR ucast low =
    join16 0xfd6b 0x7570 0 0 0 0 slot low"
  by (simp add: join16_def flip: or.assoc)

lemma join16_low: "join16 a b c d e f g 0 OR ucast h = join16 a b c d e f g h"
  by (simp add: join16_def or.assoc)

lemma steerV6_join:
  obtains low where "as16 (steerV6 slot a) = join16 0xfd6b 0x7570 0 0 0 0 (of_nat slot) low"
    and "steerV6 slot a = V6 (join16 0xfd6b 0x7570 0 0 0 0 (of_nat slot) low) []"
    and "low = onesAdd (onesSum (as16 a)) (NOT (onesSum (join16 0xfd6b 0x7570 0 0 0 0 (of_nat slot) 0)))"
proof -
  have b: "0xfd6b7570000000000000000000000000 OR push_bit 16 (ucast (of_nat slot :: 16 word)) =
      join16 0xfd6b 0x7570 0 0 0 0 (of_nat slot) 0" using steer_base [of "of_nat slot" 0] by simp
  show ?thesis
    by (rule that [OF _ _ refl]) (simp_all only: steerV6_def Let_def as16.simps b join16_low)
qed

lemma onesSum_join16:
  "onesSum (join16 a b c d e f g h) = onesAdd (onesSum (join16 a b c d e f g 0)) h"
  by (simp add: onesSum_def words16_join16)

lemma bit_past_8 [simp]: "8 \<le> n \<Longrightarrow> \<not> bit (w :: 8 word) n"
  using bit_imp_le_length [of w n] by auto

lemma low_byte:
  fixes c :: "32 word" and w :: "8 word"
  shows "ucast (push_bit 8 c OR ucast w) = w" and "drop_bit 8 (push_bit 8 c OR ucast w) = drop_bit 8 (push_bit 8 c)"
  by (simp_all add: bit_eq_iff bit_simps)

lemma steerV4_push: "steerV4 n = V4 (push_bit 8 0xa9fe4c OR ucast (of_nat n :: 8 word))"
  by (simp add: steerV4_def)

lemma steerV4_inj: "m \<le> 254 \<Longrightarrow> n \<le> 254 \<Longrightarrow> steerV4 m = steerV4 n \<longleftrightarrow> m = n"
proof
  assume mn: "m \<le> 254" "n \<le> 254" and eq: "steerV4 m = steerV4 n"
  from arg_cong [OF eq [unfolded steerV4_push addr.inject], of "ucast :: 32 word \<Rightarrow> 8 word", unfolded low_byte]
  have "unat (of_nat m :: 8 word) = unat (of_nat n :: 8 word)" by simp
  then show "m = n" using mn by (simp add: unsigned_of_nat take_bit_nat_eq_self)
qed simp

lemma steerV6_inj: "m < 65536 \<Longrightarrow> n < 65536 \<Longrightarrow> steerV6 m a = steerV6 n b \<Longrightarrow> m = n"
proof -
  assume mn: "m < 65536" "n < 65536" and eq: "steerV6 m a = steerV6 n b"
  obtain l l' where "steerV6 m a = V6 (join16 0xfd6b 0x7570 0 0 0 0 (of_nat m) l) []"
    "steerV6 n b = V6 (join16 0xfd6b 0x7570 0 0 0 0 (of_nat n) l') []" by (metis steerV6_join)
  then have "words16 (join16 0xfd6b 0x7570 0 0 0 0 (of_nat m) l) = words16 (join16 0xfd6b 0x7570 0 0 0 0 (of_nat n) l')"
    using eq by simp
  then have "unat (of_nat m :: 16 word) = unat (of_nat n :: 16 word)" by (simp add: words16_join16)
  then show "m = n" using mn by (simp add: unsigned_of_nat take_bit_nat_eq_self)
qed

lemma steer_blocks:
  "prefixContains SteerV4 (steerV4 n)" "prefixContains SteerV6 (steerV6 n a)"
proof -
  have "pfxAddr SteerV4 = V4 (push_bit 8 0xa9fe4c)" "pfxBits1 SteerV4 = 25"
    by (simp_all add: SteerV4_def prefixFrom_def)
  then show "prefixContains SteerV4 (steerV4 n)"
    by (simp only: steerV4_push prefixContains.simps addr.case prefixIsValid_def) (simp add: low_byte [of "0xa9fe4c", simplified])
  obtain l where l: "steerV6 n a = V6 (join16 0xfd6b 0x7570 0 0 0 0 (of_nat n) l) []" by (rule steerV6_join)
  have "drop_bit 32 (join16 0xfd6b 0x7570 0 0 0 0 (of_nat n) l) = drop_bit 32 (0xfd6b7570000000000000000000000000 :: 128 word)"
    unfolding steer_base [symmetric] by (simp add: bit_eq_iff bit_simps)
  then show "prefixContains SteerV6 (steerV6 n a)"
    by (simp add: SteerV6_def prefixFrom_def prefixIsValid_def l)
qed

section \<open>Lemmas: the pairs\<close>

definition inBlock :: "addr \<Rightarrow> bool" where
  "inBlock a \<longleftrightarrow> prefixContains SteerV4 a \<or> prefixContains SteerV6 a"

lemma steer_inBlock [simp]: "inBlock (steerV4 n)" "inBlock (steerV6 n a)"
  by (simp_all add: inBlock_def steer_blocks)

lemma steer_family [simp]: "familyOf (steerV4 n) = FamilyIPv4" "familyOf (steerV6 n a) = FamilyIPv6"
  "is4 (steerV4 n)" "\<not> is4 (steerV6 n a)"
proof -
  show "familyOf (steerV4 n) = FamilyIPv4" "is4 (steerV4 n)" by (simp_all add: steerV4_def familyOf_def)
  obtain l where l: "steerV6 n a = V6 (join16 0xfd6b 0x7570 0 0 0 0 (of_nat n) l) []" by (rule steerV6_join)
  then show "\<not> is4 (steerV6 n a)" by simp
  have "drop_bit 32 (join16 0xfd6b 0x7570 0 0 0 0 (of_nat n) l) = drop_bit 32 (0xfd6b7570000000000000000000000000 :: 128 word)"
    unfolding steer_base [symmetric] by (simp add: bit_eq_iff bit_simps)
  then show "familyOf (steerV6 n a) = FamilyIPv6" by (simp add: familyOf_def l)
qed

lemma foldl_addLocal:
  "set (foldl addLocal locals as) = set locals \<union> {a \<in> unmapAddr ` set as. addrIsValid a \<and> \<not> inBlock a}"
  "distinct locals \<Longrightarrow> distinct (foldl addLocal locals as)"
proof (induction as arbitrary: locals)
  case (Cons a as)
  {
    case 1
    then show ?case unfolding foldl_Cons Cons(1) by (auto simp: addLocal_def Let_def inBlock_def)
  next
    case 2
    then show ?case unfolding foldl_Cons by (intro Cons(2)) (simp add: addLocal_def Let_def)
  }
qed simp_all

lemma set_steerLocals:
  "set (steerLocals s) =
     {a \<in> unmapAddr ` (set (stLocalAddrs s) \<union> (\<Union>l \<in> set (stLinks s). set (linkLocals l))). addrIsValid a \<and> \<not> inBlock a}"
  unfolding steerLocals_def foldl_addLocal(1) by simp

lemma distinct_steerLocals [simp]: "distinct (steerLocals s)"
  by (simp add: steerLocals_def foldl_addLocal(2))

lemma pairUp_local: "p \<in> set (pairUp n4 n6 as) \<Longrightarrow> srLocal p \<in> set as"
  by (induction n4 n6 as rule: pairUp.induct) (auto split: if_splits)

lemma pairUp_locals: "srLocal ` set (pairUp n4 n6 as) \<subseteq> set as"
  using pairUp_local by blast

lemma pairUp_complete:
  "n4 + length (filter is4 as) \<le> 254 \<Longrightarrow> srLocal ` set (pairUp n4 n6 as) = set as"
  by (induction n4 n6 as rule: pairUp.induct) (auto split: if_splits)

lemma pairUp_distinct: "distinct as \<Longrightarrow> distinct (map srLocal (pairUp n4 n6 as))"
proof (induction n4 n6 as rule: pairUp.induct)
  case (2 n4 n6 a as)
  moreover have "a \<notin> srLocal ` set (pairUp m4 m6 as)" for m4 m6 using pairUp_locals [of m4 m6 as] 2(4) by auto
  ultimately show ?case by simp
qed simp

text \<open>The k-th IPv4 and the k-th IPv6 address get the k-th stand-in of their family.\<close>

definition standIn :: "nat \<Rightarrow> nat \<Rightarrow> nat \<Rightarrow> Steer \<Rightarrow> bool" where
  "standIn n4 n6 len p \<longleftrightarrow>
     (is4 (srLocal p) \<and> (\<exists>k. n4 < k \<and> k \<le> 254 \<and> srVirtual p = steerV4 k)) \<or>
     (\<not> is4 (srLocal p) \<and> (\<exists>k. n6 < k \<and> k \<le> n6 + len \<and> srVirtual p = steerV6 k (srLocal p)))"

lemma standIn_mono: "standIn m4 m6 len p \<Longrightarrow> n4 \<le> m4 \<Longrightarrow> n6 \<le> m6 \<Longrightarrow> m6 + len \<le> n6 + len' \<Longrightarrow> standIn n4 n6 len' p"
  unfolding standIn_def by (meson le_less_trans le_trans)

lemma in_pairUp: "p \<in> set (pairUp n4 n6 as) \<Longrightarrow> n4 \<le> 254 \<Longrightarrow> standIn n4 n6 (length as) p"
proof (induction n4 n6 as rule: pairUp.induct)
  case (2 n4 n6 a as)
  consider (skip) "p \<in> set (pairUp n4 n6 as)" "is4 a" "n4 = 254"
    | (four) "p \<in> set (pairUp (n4 + 1) n6 as)" "is4 a" "n4 < 254"
    | (six) "p \<in> set (pairUp n4 (n6 + 1) as)" "\<not> is4 a"
    | (head4) "p = \<lparr>srLocal = a, srVirtual = steerV4 (n4 + 1)\<rparr>" "is4 a" "n4 < 254"
    | (head6) "p = \<lparr>srLocal = a, srVirtual = steerV6 (n6 + 1) a\<rparr>" "\<not> is4 a"
    using 2(4,5) by (auto simp: le_less split: if_splits)
  then show ?case
  proof cases
    case skip
    from 2(1) [OF skip(2,3,1)] skip(3) show ?thesis by (auto intro: standIn_mono)
  next
    case four
    from 2(2) [OF four(2) _ four(1)] four(3) show ?thesis by (auto intro: standIn_mono)
  next
    case six
    from 2(3) [OF six(2,1) 2(5)] show ?thesis by (rule standIn_mono) simp_all
  next
    case head4
    then show ?thesis by (auto simp: standIn_def intro: exI [of _ "n4 + 1"])
  next
    case head6
    then show ?thesis by (auto simp: standIn_def intro: exI [of _ "n6 + 1"])
  qed
qed simp

lemma pairUp_virtuals:
  assumes "n4 \<le> 254" and "n6 + length as < 65536"
  shows "distinct (map srVirtual (pairUp n4 n6 as))"
  using assms
proof (induction n4 n6 as rule: pairUp.induct)
  case (2 n4 n6 a as)
  have fresh4: "steerV4 (n4 + 1) \<notin> srVirtual ` set (pairUp (n4 + 1) n6 as)" if "n4 < 254"
  proof
    assume "steerV4 (n4 + 1) \<in> srVirtual ` set (pairUp (n4 + 1) n6 as)"
    then obtain p where p: "p \<in> set (pairUp (n4 + 1) n6 as)" "srVirtual p = steerV4 (n4 + 1)" by auto
    have "standIn (n4 + 1) n6 (length as) p" using in_pairUp [OF p(1)] that by simp
    then obtain k where "n4 + 1 < k" "k \<le> 254" "steerV4 k = steerV4 (n4 + 1)"
      unfolding standIn_def p(2) by (metis steer_family(3,4))
    with steerV4_inj [of k "n4 + 1"] that show False by simp
  qed
  have fresh6: "steerV6 (n6 + 1) a \<notin> srVirtual ` set (pairUp n4 (n6 + 1) as)"
  proof
    assume "steerV6 (n6 + 1) a \<in> srVirtual ` set (pairUp n4 (n6 + 1) as)"
    then obtain p where p: "p \<in> set (pairUp n4 (n6 + 1) as)" "srVirtual p = steerV6 (n6 + 1) a" by auto
    from in_pairUp [OF p(1) 2(4)] obtain k where "n6 + 1 < k" "k \<le> n6 + 1 + length as" "steerV6 k (srLocal p) = steerV6 (n6 + 1) a"
      unfolding standIn_def p(2) by (metis steer_family(3,4))
    with steerV6_inj [of k "n6 + 1"] 2(5) show False by simp
  qed
  consider "is4 a" "n4 = 254" | "is4 a" "n4 < 254" | "\<not> is4 a" using 2(4) by fastforce
  then show ?case
  proof cases
    case 1
    then show ?thesis using 2(1,5) by simp
  next
    case 2
    with \<open>n6 + length (a # as) < 65536\<close> fresh4 "2.IH"(2) show ?thesis by simp
  next
    case 3
    with 2(3-5) fresh6 show ?thesis by simp
  qed
qed simp

lemma set_steerLocals_pairs: "srLocal ` set (steerPairs s) \<subseteq> set (steerLocals s)"
  using pairUp_locals [of 0 0 "sortBy addrLess (steerLocals s)"] by (simp add: steerPairs_def)

lemma steerPairs_local:
  assumes "p \<in> set (steerPairs s)"
  shows "addrIsValid (srLocal p)" and "\<not> inBlock (srLocal p)" and "unmapAddr (srLocal p) = srLocal p"
    and "familyOf (srLocal p) = (if is4 (srLocal p) then FamilyIPv4 else FamilyIPv6)"
proof -
  have "srLocal p \<in> set (steerLocals s)" using assms set_steerLocals_pairs by blast
  then obtain a where a: "srLocal p = unmapAddr a" "addrIsValid (srLocal p)" "\<not> inBlock (srLocal p)"
    unfolding set_steerLocals by auto
  then show "addrIsValid (srLocal p)" "\<not> inBlock (srLocal p)" "unmapAddr (srLocal p) = srLocal p" by simp_all
  then show "familyOf (srLocal p) = (if is4 (srLocal p) then FamilyIPv4 else FamilyIPv6)" by (simp add: familyOf_def)
qed

lemma steerPairs_standIn: "p \<in> set (steerPairs s) \<Longrightarrow> standIn 0 0 (length (steerLocals s)) p"
  unfolding steerPairs_def by (drule in_pairUp) simp_all

lemma steerPairs_virtual:
  assumes "p \<in> set (steerPairs s)"
  shows "inBlock (srVirtual p)" and "familyOf (srVirtual p) = familyOf (srLocal p)"
  using steerPairs_standIn [OF assms] steerPairs_local(4) [OF assms] by (auto simp: standIn_def)

lemma steerPairs_inj:
  assumes "length (steerLocals s) < 65536" and "p \<in> set (steerPairs s)" and "q \<in> set (steerPairs s)"
  shows "srVirtual p = srVirtual q \<longleftrightarrow> p = q" and "srLocal p = srLocal q \<longleftrightarrow> p = q"
proof -
  have "distinct (map srVirtual (steerPairs s))" "distinct (map srLocal (steerPairs s))"
    unfolding steerPairs_def using assms(1) by (auto intro!: pairUp_virtuals pairUp_distinct)
  then show "srVirtual p = srVirtual q \<longleftrightarrow> p = q" "srLocal p = srLocal q \<longleftrightarrow> p = q"
    using assms(2,3) by (auto simp: distinct_map inj_on_def)
qed

section \<open>Properties\<close>

text \<open>
  C21. An IPv6 stand-in is checksum-neutral: its ones' complement sum is that of the address it stands
  for, so rewriting one into the other leaves the TCP and UDP checksums right.
\<close>

theorem steer_checksum:
  assumes "p \<in> set (steerPairs s)" and "\<not> is4 (srLocal p)" and "as16 (srLocal p) \<noteq> 0"
  shows "onesSum (as16 (srVirtual p)) = onesSum (as16 (srLocal p))"
proof -
  from steerPairs_standIn [OF assms(1)] assms(2) obtain k where "srVirtual p = steerV6 k (srLocal p)"
    by (auto simp: standIn_def)
  then obtain low where v: "as16 (srVirtual p) = join16 0xfd6b 0x7570 0 0 0 0 (of_nat k) low"
    and low: "low = onesAdd (onesSum (as16 (srLocal p))) (NOT (onesSum (join16 0xfd6b 0x7570 0 0 0 0 (of_nat k) 0)))"
    by (metis steerV6_join)
  have "onesSum (join16 0xfd6b 0x7570 0 0 0 0 (of_nat k) 0) \<noteq> 0"
    unfolding onesSum_def foldl_onesAdd_zero words16_join16 by simp
  moreover have "onesSum (as16 (srLocal p)) \<noteq> 0" using assms(3) by (simp add: onesSum_zero)
  ultimately show ?thesis unfolding v low by (subst onesSum_join16) (rule onesAdd_difference)
qed

text \<open>
  Stand-ins are unambiguous and keep the family. No two pairs share a stand-in or a local
  address, a stand-in is of its address's family, lies in the reserved block of that family, and
  is itself none of the node's steered addresses. (There is room for 65535 IPv6 stand-ins.)
\<close>

theorem standins_unambiguous:
  assumes "length (steerLocals s) < 65536" and "p \<in> set (steerPairs s)" and "q \<in> set (steerPairs s)"
  shows "(srVirtual p = srVirtual q \<longleftrightarrow> p = q) \<and> (srLocal p = srLocal q \<longleftrightarrow> p = q) \<and>
    familyOf (srVirtual p) = familyOf (srLocal p) \<and>
    (prefixContains SteerV4 (srVirtual p) \<or> prefixContains SteerV6 (srVirtual p)) \<and>
    srVirtual p \<noteq> srLocal q"
  using steerPairs_inj [OF assms] steerPairs_virtual [OF assms(2)] steerPairs_local(2) [OF assms(3)]
  unfolding inBlock_def by metis

text \<open>
  Every address of the node that can be steered is. As long as the node holds no more than 254
  IPv4 addresses, the addresses with a stand-in are exactly the valid local addresses and link
  ends, in their unmapped form, outside the stand-in blocks.
\<close>

theorem steer_complete:
  assumes "length (filter is4 (steerLocals s)) \<le> 254"
  shows "srLocal ` set (steerPairs s) =
    {a \<in> unmapAddr ` (set (stLocalAddrs s) \<union> (\<Union>l \<in> set (stLinks s). set (linkLocals l))).
       addrIsValid a \<and> \<not> (prefixContains SteerV4 a \<or> prefixContains SteerV6 a)}"
proof -
  have "length (filter is4 (sortBy addrLess (steerLocals s))) = length (filter is4 (steerLocals s))"
    by (metis mset_filter mset_sortBy size_mset)
  then have "srLocal ` set (steerPairs s) = set (steerLocals s)"
    unfolding steerPairs_def using assms by (subst pairUp_complete) simp_all
  then show ?thesis by (simp add: set_steerLocals inBlock_def)
qed

text \<open>A node with one address of each family.\<close>

definition exSteer :: State where
  "exSteer = emptyState\<lparr>stLocalAddrs := [V6 0x20010db8000000000000000000000001 [], V4 0x0a000001]\<rparr>"

lemma exSteer_facts:
  "length (steerLocals exSteer) = 2" "length (filter is4 (steerLocals exSteer)) = 1" "length (steerPairs exSteer) = 2"
  "srLocal (steerPairs exSteer ! 1) = V6 0x20010db8000000000000000000000001 []"
  "srLocal (steerPairs exSteer ! 0) = V4 0x0a000001" by code_simp+

lemma steer_checksum_witness:
  "onesSum (as16 (srVirtual (steerPairs exSteer ! 1))) = onesSum 0x20010db8000000000000000000000001"
  using steer_checksum [of "steerPairs exSteer ! 1" exSteer] exSteer_facts by simp

lemma standins_unambiguous_witness:
  "srVirtual (steerPairs exSteer ! 1) \<noteq> srVirtual (steerPairs exSteer ! 0)"
proof -
  have "steerPairs exSteer ! 1 \<in> set (steerPairs exSteer)" "steerPairs exSteer ! 0 \<in> set (steerPairs exSteer)"
    using exSteer_facts(3) by simp_all
  from standins_unambiguous [OF _ this] have "srVirtual (steerPairs exSteer ! 1) = srVirtual (steerPairs exSteer ! 0) \<longrightarrow>
      steerPairs exSteer ! 1 = steerPairs exSteer ! 0" unfolding exSteer_facts(1) by simp
  moreover have "steerPairs exSteer ! 1 \<noteq> steerPairs exSteer ! 0"
    using exSteer_facts(4,5) by (metis addr.distinct(5))
  ultimately show ?thesis by blast
qed

lemma steer_complete_witness: "V4 0x0a000001 \<in> srLocal ` set (steerPairs exSteer)"
proof -
  have "\<not> prefixContains SteerV4 (V4 0x0a000001)" "\<not> prefixContains SteerV6 (V4 0x0a000001)" by code_simp+
  then show ?thesis using exSteer_facts(2) by (subst steer_complete) (auto simp: exSteer_def intro!: image_eqI [of _ _ "V4 0x0a000001"])
qed

end
