(* ===== verification/Render.thy ===== *)
theory Render
  imports Steer
begin

text \<open>
  From a State to the ordered Plan of the host's rules (\<open>datapath/render.go\<close>). The lemmas show that the
  rendered chains translate exactly the packets the State's DNAT rules name, in spite of the
  stand-ins, and that the cluster ranges cover exactly the cluster's prefixes.
\<close>

unbundle bit_operations_syntax

section \<open>Rules\<close>

definition TableName :: string where [const_defs]: "TableName = ''kuport''"
definition ChainSteer :: string where [const_defs]: "ChainSteer = ''kup-steer''"
definition ChainPre :: string where [const_defs]: "ChainPre = ''kup-pre''"
definition ChainPost :: string where [const_defs]: "ChainPost = ''kup-post''"
definition ChainMangle :: string where [const_defs]: "ChainMangle = ''kup-mangle''"
definition ChainEgress :: string where [const_defs]: "ChainEgress = ''kup-egress''"
definition ChainMSS :: string where [const_defs]: "ChainMSS = ''kup-mss''"
definition ChainCount :: string where [const_defs]: "ChainCount = ''kup-count''"

definition clusterSet :: "Family \<Rightarrow> string" where
  "clusterSet f = (if f = FamilyIPv6 then ''kup-cluster6'' else ''kup-cluster4'')"

definition steerMap :: "Family \<Rightarrow> string" where
  "steerMap f = (if f = FamilyIPv6 then ''kup-steer6'' else ''kup-steer4'')"

definition linkWildcard :: string where [const_defs]: "linkWildcard = ''kup-*''"
definition ownedMarkMask :: "32 word" where [const_defs]: "ownedMarkMask = 0xffff0000"
definition ownedMarkValue :: "32 word" where [const_defs]: "ownedMarkValue = 0x6b700000"

datatype CtDirection = CtDirAny | CtDirOriginal | CtDirReply

datatype RuleKind =
  KindDNAT | KindSNAT | KindMark | KindCtSave | KindCtLoad | KindSteer | KindMasq | KindMSS | KindCount

fun kindNum :: "RuleKind \<Rightarrow> nat" where
  "kindNum KindDNAT = 0"
| "kindNum KindSNAT = 1"
| "kindNum KindMark = 2"
| "kindNum KindCtSave = 3"
| "kindNum KindCtLoad = 4"
| "kindNum KindSteer = 5"
| "kindNum KindMasq = 6"
| "kindNum KindMSS = 7"
| "kindNum KindCount = 8"

record Rule =
  rlChain :: string
  rlKind :: RuleKind
  rlIifName :: string
  rlOifName :: string
  rlOifNeg :: bool
  rlSrcAddr :: "addr option"
  rlDstAddr :: "addr option"
  rlPort :: PortSel
  rlPortIsSrc :: bool
  rlToAddr :: addr
  rlToPort :: "16 word"
  rlMark :: "32 word"
  rlMapFamily :: Family
  rlDstOutsideCluster :: bool
  rlCtDir :: CtDirection
  rlCtMark :: "32 word"

definition noPort :: PortSel where
  "noPort = \<lparr>selProto = [], selFirst = 0, selLast = 0\<rparr>"

text \<open>A rule literal with every field it does not name at its zero value.\<close>

definition newRule :: "string \<Rightarrow> RuleKind \<Rightarrow> Rule" where
  "newRule chain kind =
     \<lparr>rlChain = chain, rlKind = kind, rlIifName = [], rlOifName = [], rlOifNeg = False, rlSrcAddr = None,
      rlDstAddr = None, rlPort = noPort, rlPortIsSrc = False, rlToAddr = AddrZero, rlToPort = 0,
      rlMark = 0, rlMapFamily = FamilyIPv4, rlDstOutsideCluster = False, rlCtDir = CtDirAny,
      rlCtMark = 0\<rparr>"

definition ruleFamily :: "Rule \<Rightarrow> Family option" where
  "ruleFamily r =
     (if rlKind r = KindSteer then Some (rlMapFamily r)
      else case rlSrcAddr r of
        Some a \<Rightarrow> Some (familyOf a)
      | None \<Rightarrow>
          (case rlDstAddr r of
             Some a \<Rightarrow> Some (familyOf a)
           | None \<Rightarrow> if rlKind r = KindDNAT \<and> addrIsValid (rlToAddr r) then Some (familyOf (rlToAddr r)) else None))"

section \<open>Address ranges\<close>

record AddrRange =
  arFirst :: addr
  arLast :: addr

text \<open>\<open>netip.Addr.Next\<close>, the zero address past the last one of the family.\<close>

fun addrNext :: "addr \<Rightarrow> addr" where
  "addrNext (V4 w) = (if w = mask 32 then AddrZero else V4 (w + 1))"
| "addrNext (V6 w z) = (if w = mask 128 then AddrZero else V6 (w + 1) z)"
| "addrNext AddrZero = AddrZero"

definition lastAddr :: "prefix \<Rightarrow> addr" where
  "lastAddr p =
     (case pfxAddr p of
        V4 w \<Rightarrow> V4 (w OR mask (33 - pfxBits1 p))
      | V6 w _ \<Rightarrow> V6 (w OR mask (129 - pfxBits1 p)) []
      | AddrZero \<Rightarrow> AddrZero)"

text \<open>The loop over the sorted ranges, with the last range of the output so far.\<close>

fun joinRanges :: "AddrRange \<Rightarrow> AddrRange list \<Rightarrow> AddrRange list" where
  "joinRanges prev [] = [prev]"
| "joinRanges prev (r # rs) =
     (let next = addrNext (arLast prev)
      in if \<not> addrIsValid next \<or> \<not> addrLess next (arFirst r)
         then joinRanges (if addrLess (arLast prev) (arLast r) then prev\<lparr>arLast := arLast r\<rparr> else prev) rs
         else prev # joinRanges r rs)"

definition familyRanges :: "prefix list \<Rightarrow> Family \<Rightarrow> AddrRange list" where
  "familyRanges prefixes f =
     map (\<lambda>p. \<lparr>arFirst = pfxAddr p, arLast = lastAddr p\<rparr>)
       (filter (\<lambda>p. prefixIsValid p \<and> familyOf (pfxAddr p) = f) (map masked prefixes))"

definition mergeRanges :: "prefix list \<Rightarrow> Family \<Rightarrow> AddrRange list" where
  "mergeRanges prefixes f =
     (case sortBy (\<lambda>a b. addrLess (arFirst a) (arFirst b)) (familyRanges prefixes f) of
        [] \<Rightarrow> [] | r # rs \<Rightarrow> joinRanges r rs)"

section \<open>The order of rules\<close>

definition nfprotoText :: "Family \<Rightarrow> string" where
  "nfprotoText f = (if f = FamilyIPv6 then ''ipv6'' else ''ipv4'')"

definition portText :: "PortSel \<Rightarrow> string" where
  "portText p =
     (if selFirst p = selLast p then itoa (uint (selFirst p))
      else itoa (uint (selFirst p)) @ ''-'' @ itoa (uint (selLast p)))"

definition selText :: "PortSel \<Rightarrow> string" where
  "selText p = selProto p @ ''/'' @ portText p"

text \<open>A chain missing from the Go map reads as 0.\<close>

definition chainOrder :: "string \<Rightarrow> nat" where
  "chainOrder c =
     (case map_of [(ChainSteer, 0), (ChainPre, 1), (ChainPost, 2), (ChainMangle, 3), (ChainEgress, 4),
                   (ChainMSS, 5), (ChainCount, 6)] c of Some n \<Rightarrow> n | None \<Rightarrow> 0)"

definition familyKey :: "Rule \<Rightarrow> nat" where
  "familyKey r = (case ruleFamily r of None \<Rightarrow> 0 | Some f \<Rightarrow> familyNum f + 1)"

definition ifaceKey :: "Rule \<Rightarrow> string" where
  "ifaceKey r = (if rlIifName r \<noteq> [] then rlIifName r else rlOifName r)"

definition dstKey :: "Rule \<Rightarrow> string" where
  "dstKey r =
     (case rlDstAddr r of
        Some a \<Rightarrow> addrText a
      | None \<Rightarrow> (case rlSrcAddr r of Some a \<Rightarrow> addrText a | None \<Rightarrow> []))"

definition ruleLess :: "Rule \<Rightarrow> Rule \<Rightarrow> bool" where
  "ruleLess a b =
     (if chainOrder (rlChain a) \<noteq> chainOrder (rlChain b) then chainOrder (rlChain a) < chainOrder (rlChain b)
      else if ifaceKey a \<noteq> ifaceKey b then ifaceKey a < ifaceKey b
      else if selProto (rlPort a) \<noteq> selProto (rlPort b) then selProto (rlPort a) < selProto (rlPort b)
      else if selFirst (rlPort a) \<noteq> selFirst (rlPort b) then selFirst (rlPort a) < selFirst (rlPort b)
      else if familyKey a \<noteq> familyKey b then familyKey a < familyKey b
      else if dstKey a \<noteq> dstKey b then dstKey a < dstKey b
      else if rlKind a \<noteq> rlKind b then kindNum (rlKind a) < kindNum (rlKind b)
      else if rlCtMark a \<noteq> rlCtMark b then rlCtMark a < rlCtMark b
      else rlMark a < rlMark b)"

definition sortRules :: "Rule list \<Rightarrow> Rule list" where
  "sortRules = sortBy ruleLess"

section \<open>Render\<close>

definition standIns :: "Steer list \<Rightarrow> addr \<Rightarrow> addr option" where
  "standIns pairs a = map_option srVirtual (index_by srLocal pairs a)"

definition hasPairs :: "Steer list \<Rightarrow> Family \<Rightarrow> bool" where
  "hasPairs pairs f \<longleftrightarrow> list_ex (\<lambda>p. familyOf (srLocal p) = f) pairs"

text \<open>A pinned destination with a stand-in is pinned to the stand-in.\<close>

definition pinned :: "(addr \<Rightarrow> addr option) \<Rightarrow> addr option \<Rightarrow> addr option" where
  "pinned stand dst =
     (case dst of
        None \<Rightarrow> None
      | Some a \<Rightarrow> (case stand (unmapAddr a) of Some v \<Rightarrow> Some v | None \<Rightarrow> Some a))"

definition dnatRule :: "(addr \<Rightarrow> addr option) \<Rightarrow> DNATRule \<Rightarrow> Rule" where
  "dnatRule stand d =
     (newRule ChainPre KindDNAT)
       \<lparr>rlIifName := dnIface d, rlDstAddr := pinned stand (dnDstAddr d), rlPort := dnPort d,
        rlToAddr := dnToAddr d, rlToPort := dnToPort d\<rparr>"

definition countRules :: "DNATRule \<Rightarrow> Rule list" where
  "countRules d =
     (let toPort = (if dnToPort d \<noteq> 0
                    then \<lparr>selProto = selProto (dnPort d), selFirst = dnToPort d, selLast = dnToPort d\<rparr>
                    else dnPort d)
      in [(newRule ChainCount KindCount)
            \<lparr>rlIifName := dnIface d, rlDstAddr := Some (dnToAddr d), rlPort := toPort, rlCtDir := CtDirOriginal\<rparr>,
          (newRule ChainCount KindCount)
            \<lparr>rlOifName := dnIface d, rlSrcAddr := Some (dnToAddr d), rlPort := toPort, rlPortIsSrc := True,
             rlCtDir := CtDirReply\<rparr>])"

definition steerRule :: "DNATRule \<Rightarrow> Rule" where
  "steerRule d =
     (newRule ChainSteer KindSteer)
       \<lparr>rlIifName := dnIface d, rlPort := dnPort d, rlMapFamily := familyOf (dnToAddr d)\<rparr>"

definition steerKey :: "DNATRule \<Rightarrow> string" where
  "steerKey d = dnIface d @ ''|'' @ selText (dnPort d) @ ''|'' @ nfprotoText (familyOf (dnToAddr d))"

fun renderDNAT :: "Steer list \<Rightarrow> string set \<Rightarrow> DNATRule list \<Rightarrow> Rule list" where
  "renderDNAT pairs seen [] = []"
| "renderDNAT pairs seen (d # ds) =
     dnatRule (standIns pairs) d # countRules d @
     (if \<not> hasPairs pairs (familyOf (dnToAddr d)) \<or> steerKey d \<in> seen then renderDNAT pairs seen ds
      else steerRule d # renderDNAT pairs (insert (steerKey d) seen) ds)"

definition exemptRule :: "ExemptRule \<Rightarrow> Rule" where
  "exemptRule e =
     (newRule ChainPost KindSNAT)
       \<lparr>rlOifName := exOifName e, rlOifNeg := exNegate e, rlSrcAddr := exSrcAddr e, rlDstAddr := exDstAddr e,
        rlPort := exPort e, rlPortIsSrc := exPortIsSrc e\<rparr>"

definition markRule :: "MarkRule \<Rightarrow> Rule" where
  "markRule m =
     (newRule ChainMangle KindMark)
       \<lparr>rlSrcAddr := Some (mkSrcAddr m), rlPort := mkPort m, rlPortIsSrc := True, rlMark := mkMark m\<rparr>"

definition ctSaveRule :: "string \<Rightarrow> 32 word \<Rightarrow> Rule" where
  "ctSaveRule iface m = (newRule ChainMangle KindCtSave)\<lparr>rlIifName := iface, rlMark := m\<rparr>"

definition ctLoadRule :: "CtLoadRule \<Rightarrow> Rule" where
  "ctLoadRule c =
     (newRule ChainMangle KindCtLoad)\<lparr>rlSrcAddr := Some (cldSrcAddr c), rlPort := cldPort c, rlPortIsSrc := True\<rparr>"

definition egressMarkRule :: "EgressRule \<Rightarrow> Rule" where
  "egressMarkRule e =
     (newRule ChainEgress KindMark)
       \<lparr>rlSrcAddr := Some (erSrcAddr e), rlDstOutsideCluster := True, rlCtDir := CtDirOriginal,
        rlMark := erMark e\<rparr>"

definition gatewayRules :: "EgressGatewayRule \<Rightarrow> Rule list" where
  "gatewayRules g =
     [ctSaveRule (egwIface g) (egwMark g),
      (newRule ChainMangle KindCtLoad)\<lparr>rlCtDir := CtDirReply, rlCtMark := egwMark g\<rparr>,
      (newRule ChainPost KindMasq)\<lparr>rlIifName := egwIface g, rlCtDir := CtDirOriginal\<rparr>]"

definition ipRuleLess :: "IPRule \<Rightarrow> IPRule \<Rightarrow> bool" where
  "ipRuleLess a b =
     (if irPref a \<noteq> irPref b then irPref a < irPref b
      else if irMark a \<noteq> irMark b then irMark a < irMark b
      else if irTable a \<noteq> irTable b then irTable a < irTable b
      else familyNum (irFamily a) < familyNum (irFamily b))"

definition routeLess :: "Route \<Rightarrow> Route \<Rightarrow> bool" where
  "routeLess a b =
     (if rtTable a \<noteq> rtTable b then rtTable a < rtTable b
      else if rtDev a \<noteq> rtDev b then rtDev a < rtDev b
      else addrText (rtVia a) < addrText (rtVia b))"

record Plan =
  plRules :: "Rule list"
  plSteer :: "Steer list"
  plLinks :: "Link list"
  plIPRules :: "IPRule list"
  plRoutes :: "Route list"
  plCluster :: "(Family, AddrRange list) gomap"

definition Render :: "State \<Rightarrow> Plan" where
  "Render s =
     (let pairs = steerPairs s;
          dnat = renderDNAT pairs {} (stDNAT s);
          steered = map rlMapFamily (filter (\<lambda>r. rlKind r = KindSteer) dnat);
          egressFams = map (familyOf \<circ> erSrcAddr) (stEgress s)
      in \<lparr>plRules = sortRules
            (dnat @ map exemptRule (stExempt s) @ map markRule (stMark s)
             @ map (\<lambda>c. ctSaveRule (csvIface c) (csvMark c)) (stCtSave s) @ map ctLoadRule (stCtLoad s)
             @ map egressMarkRule (stEgress s) @ concat (map gatewayRules (stEgressGateway s))
             @ (if stLinks s = [] then [] else [(newRule ChainMSS KindMSS)\<lparr>rlOifName := linkWildcard\<rparr>])),
          plSteer = filter (\<lambda>p. familyOf (srLocal p) \<in> set steered) pairs,
          plLinks = sortBy (\<lambda>a b. lnName a < lnName b) (stLinks s),
          plIPRules = sortBy ipRuleLess (stRules s),
          plRoutes = sortBy routeLess (stRoutes s),
          plCluster = map (\<lambda>f. (f, mergeRanges (stClusterCIDRs s) f))
                        (filter (\<lambda>f. f \<in> set egressFams) [FamilyIPv4, FamilyIPv6])\<rparr>)"

section \<open>Lemmas: ranges\<close>

text \<open>A range between two addresses of one width, both without a zone.\<close>

definition rangeOf :: "nat \<Rightarrow> AddrRange \<Rightarrow> bool" where
  "rangeOf n r \<longleftrightarrow> bitLen (arFirst r) = n \<and> bitLen (arLast r) = n \<and> addrZone (arFirst r) = [] \<and>
     addrZone (arLast r) = [] \<and> addrVal (arFirst r) \<le> addrVal (arLast r)"

definition spans :: "AddrRange \<Rightarrow> int \<Rightarrow> bool" where
  "spans r x \<longleftrightarrow> addrVal (arFirst r) \<le> x \<and> x \<le> addrVal (arLast r)"

lemma addrVal_less: "addrVal a < 2 ^ bitLen a"
proof (cases a)
  case (V4 w)
  then show ?thesis using uint_bounded [of w] by simp
next
  case (V6 w z)
  then show ?thesis using uint_bounded [of w] by simp
qed simp

lemma uint_next: "w \<noteq> mask LENGTH('a) \<Longrightarrow> uint (w + 1) = uint w + 1" for w :: "'a::len word"
proof -
  assume "w \<noteq> mask LENGTH('a)"
  then have "w \<noteq> - 1" by (simp add: mask_full)
  then have "uint w \<noteq> 2 ^ LENGTH('a) - 1" by (simp add: word_uint_eq_iff unsigned_minus_1_eq_mask mask_eq_exp_minus_1)
  with uint_bounded [of w] have "uint w + 1 < 2 ^ LENGTH('a)" by linarith
  then show ?thesis by (simp add: uint_word_ariths)
qed

lemma spans_less:
  "rangeOf n r \<Longrightarrow> bitLen a = n \<Longrightarrow> addrZone a = [] \<Longrightarrow>
     (\<not> addrLess a (arFirst r) \<and> \<not> addrLess (arLast r) a) \<longleftrightarrow> spans r (addrVal a)"
  by (auto simp: rangeOf_def spans_def addrLess_def)

lemma starts_after:
  assumes "bitLen a = bitLen b" and "0 < bitLen a" and "addrZone a = []" and "addrZone b = []"
  shows "(\<not> addrIsValid (addrNext a) \<or> \<not> addrLess (addrNext a) b) \<longleftrightarrow> addrVal b \<le> addrVal a + 1"
proof (cases a)
  case (V4 w)
  have "uint (mask 32 :: 32 word) = 2 ^ 32 - 1" by (simp add: mask_eq_exp_minus_1)
  then show ?thesis
    using V4 assms uint_next [of w] addrVal_less [of b] by (cases "w = mask 32") (auto simp: addrLess_def)
next
  case (V6 w z)
  have "uint (mask 128 :: 128 word) = 2 ^ 128 - 1" by (simp add: mask_eq_exp_minus_1)
  then show ?thesis
    using V6 assms uint_next [of w] addrVal_less [of b] by (cases "w = mask 128") (auto simp: addrLess_def)
qed (use assms in simp)

definition separated :: "AddrRange list \<Rightarrow> bool" where
  "separated = sorted_wrt (\<lambda>r s. addrVal (arLast r) + 1 < addrVal (arFirst s))"

lemma joinRanges_correct:
  assumes "rangeOf n prev" and "\<And>r. r \<in> set rs \<Longrightarrow> rangeOf n r" and "0 < n"
    and "sorted (map (\<lambda>r. addrVal (arFirst r)) (prev # rs))"
  shows "(\<forall>x. (\<exists>r \<in> set (joinRanges prev rs). spans r x) \<longleftrightarrow> (\<exists>r \<in> set (prev # rs). spans r x)) \<and>
    (\<forall>r \<in> set (joinRanges prev rs). rangeOf n r \<and> addrVal (arFirst prev) \<le> addrVal (arFirst r)) \<and>
    separated (joinRanges prev rs)"
  using assms
proof (induction rs arbitrary: prev)
  case (Cons r rs)
  let ?join = "if addrLess (arLast prev) (arLast r) then prev\<lparr>arLast := arLast r\<rparr> else prev"
  have ok: "rangeOf n prev" "rangeOf n r" using Cons.prems by simp_all
  then have less: "addrLess (arLast prev) (arLast r) \<longleftrightarrow> addrVal (arLast prev) < addrVal (arLast r)"
    by (auto simp: rangeOf_def addrLess_def)
  have after: "(\<not> addrIsValid (addrNext (arLast prev)) \<or> \<not> addrLess (addrNext (arLast prev)) (arFirst r)) \<longleftrightarrow>
      addrVal (arFirst r) \<le> addrVal (arLast prev) + 1"
    using ok Cons.prems(3) by (intro starts_after) (simp_all add: rangeOf_def)
  have sorted: "addrVal (arFirst prev) \<le> addrVal (arFirst r)" "sorted (map (\<lambda>r. addrVal (arFirst r)) (r # rs))"
    "sorted (map (\<lambda>r. addrVal (arFirst r)) (?join # rs))"
    using Cons.prems(4) by auto
  show ?case
  proof (cases "addrVal (arFirst r) \<le> addrVal (arLast prev) + 1")
    case True
    have "rangeOf n ?join" using ok less by (auto simp: rangeOf_def)
    then have IH: "(\<forall>x. (\<exists>r \<in> set (joinRanges ?join rs). spans r x) \<longleftrightarrow> (\<exists>r \<in> set (?join # rs). spans r x)) \<and>
        (\<forall>r \<in> set (joinRanges ?join rs). rangeOf n r \<and> addrVal (arFirst ?join) \<le> addrVal (arFirst r)) \<and>
        separated (joinRanges ?join rs)"
      by (intro Cons.IH) (use Cons.prems sorted(3) in auto)
    have "spans ?join x \<longleftrightarrow> spans prev x \<or> spans r x" for x
      using True ok sorted(1) less by (auto simp: spans_def rangeOf_def)
    moreover have "joinRanges prev (r # rs) = joinRanges ?join rs" using after True by (simp add: Let_def)
    moreover have "arFirst ?join = arFirst prev" by simp
    ultimately show ?thesis using IH by (simp only: list.set ball_simps bex_simps) metis
  next
    case False
    then have "joinRanges prev (r # rs) = prev # joinRanges r rs" using after by (simp add: Let_def)
    moreover have IH: "(\<forall>x. (\<exists>r \<in> set (joinRanges r rs). spans r x) \<longleftrightarrow> (\<exists>r \<in> set (r # rs). spans r x)) \<and>
        (\<forall>s \<in> set (joinRanges r rs). rangeOf n s \<and> addrVal (arFirst r) \<le> addrVal (arFirst s)) \<and>
        separated (joinRanges r rs)"
      by (intro Cons.IH) (use Cons.prems sorted(2) ok in auto)
    ultimately show ?thesis using False ok(1) sorted(1) by (fastforce simp: separated_def)
  qed
qed (simp add: separated_def)

lemma uint_block:
  fixes w :: "'a::len word"
  assumes "k \<le> LENGTH('a)"
  shows "uint (w AND NOT (mask k)) = uint w div 2 ^ k * 2 ^ k"
    and "uint ((w AND NOT (mask k)) OR mask k) = uint w div 2 ^ k * 2 ^ k + (2 ^ k - 1)"
proof -
  have lo: "uint (w AND NOT (mask k)) = push_bit k (drop_bit k (uint w))"
    by (rule bit_eqI) (auto simp: bit_simps dest: bit_imp_le_length)
  then show "uint (w AND NOT (mask k)) = uint w div 2 ^ k * 2 ^ k" by (simp add: push_bit_eq_mult drop_bit_eq_div)
  have "uint (mask k :: 'a word) = mask k" using assms by (intro bit_eqI) (auto simp: bit_simps)
  then have "uint ((w AND NOT (mask k)) OR mask k) = push_bit k (drop_bit k (uint w)) OR mask k"
    using lo by (simp add: unsigned_or_eq)
  also have "\<dots> = push_bit k (drop_bit k (uint w)) + mask k"
    by (rule disjunctive_add [symmetric]) (simp add: bit_simps)
  finally show "uint ((w AND NOT (mask k)) OR mask k) = uint w div 2 ^ k * 2 ^ k + (2 ^ k - 1)"
    by (simp add: push_bit_eq_mult drop_bit_eq_div mask_eq_exp_minus_1)
qed

lemma block_range:
  fixes w v :: "'a::len word"
  assumes "k \<le> LENGTH('a)"
  shows "uint (w AND NOT (mask k)) \<le> uint v \<and> uint v \<le> uint ((w AND NOT (mask k)) OR mask k) \<longleftrightarrow>
    drop_bit k w = drop_bit k v"
proof -
  have "uint (drop_bit k u) = uint u div 2 ^ k" for u :: "'a word"
  proof -
    have "uint (drop_bit k u) = drop_bit k (uint u)" by (rule bit_eqI) (auto simp: bit_simps dest: bit_imp_le_length)
    then show ?thesis by (simp only: drop_bit_eq_div)
  qed
  then have "drop_bit k w = drop_bit k v \<longleftrightarrow> uint w div 2 ^ k = uint v div 2 ^ k"
    by (simp only: word_uint_eq_iff)
  moreover have "uint v = uint v div 2 ^ k * 2 ^ k + uint v mod 2 ^ k" "0 \<le> uint v mod 2 ^ k" "uint v mod 2 ^ k < 2 ^ k"
    by (simp_all only: div_mult_mod_eq pos_mod_sign pos_mod_bound zero_less_power zero_less_numeral)
  moreover have "uint v div 2 ^ k = q" if "q * 2 ^ k \<le> uint v" "uint v \<le> q * 2 ^ k + (2 ^ k - 1)" for q
    using that by (intro int_div_pos_eq [of _ _ _ "uint v - q * 2 ^ k"]) (simp_all add: mult.commute)
  ultimately show ?thesis unfolding uint_block [OF assms, of w] by (metis add_left_mono le_add_same_cancel1 zle_diff1_eq)
qed

text \<open>What \<open>netip.PrefixFrom\<close> makes: a length within the width of a valid address without a zone.\<close>

definition wfPrefix :: "prefix \<Rightarrow> bool" where
  "wfPrefix p \<longleftrightarrow>
     (prefixIsValid p \<longrightarrow> addrIsValid (pfxAddr p) \<and> pfxBits1 p \<le> bitLen (pfxAddr p) + 1) \<and> addrZone (pfxAddr p) = []"

lemma prefixFrom_wf: "wfPrefix (prefixFrom a bits)"
  by (cases a) (auto simp: wfPrefix_def prefixFrom_def prefixIsValid_def)

definition prefixRange :: "prefix \<Rightarrow> AddrRange" where
  "prefixRange p = \<lparr>arFirst = pfxAddr (masked p), arLast = lastAddr (masked p)\<rparr>"

lemma mask_4in6: "drop_bit 32 (w AND NOT (mask k)) = 0xffff \<Longrightarrow> drop_bit 32 w = 0xffff" for w :: "128 word"
proof -
  assume m: "drop_bit 32 (w AND NOT (mask k)) = 0xffff"
  have "bit (0xffff :: 128 word) 0" by simp
  then have "bit (w AND NOT (mask k)) 32" unfolding m [symmetric] by (simp add: bit_simps)
  then have "k \<le> 32" by (simp add: bit_simps)
  then have "drop_bit 32 (w AND NOT (mask k)) = drop_bit 32 w"
    by (intro bit_word_eqI) (auto simp: bit_simps dest: bit_imp_le_length)
  with m show ?thesis by simp
qed

lemma maskAddr_kind [simp]: "bitLen (maskAddr a n) = bitLen a" "addrZone (maskAddr a n) = []"
  "addrIsValid (maskAddr a n) = addrIsValid a" "is4 (maskAddr a n) = is4 a"
  by (cases a; simp)+

lemma maskAddr_family: "\<not> is4In6 a \<Longrightarrow> familyOf (maskAddr a n) = familyOf a"
  by (cases a) (auto simp: familyOf_def simp del: drop_bit_and dest: mask_4in6)

lemma prefix_range:
  assumes "wfPrefix p" and "prefixIsValid p"
  shows "rangeOf (bitLen (pfxAddr p)) (prefixRange p)"
    and "bitLen a = bitLen (pfxAddr p) \<Longrightarrow> addrZone a = [] \<Longrightarrow> spans (prefixRange p) (addrVal a) \<longleftrightarrow> prefixContains p a"
proof -
  have v: "addrIsValid (pfxAddr p)" "pfxBits1 p \<le> bitLen (pfxAddr p) + 1" "0 < pfxBits1 p"
    using assms by (simp_all add: wfPrefix_def prefixIsValid_def)
  show "rangeOf (bitLen (pfxAddr p)) (prefixRange p)"
  proof (cases "pfxAddr p")
    case (V4 w)
    then show ?thesis using assms v uint_block [of "33 - pfxBits1 p" w]
      by (simp add: rangeOf_def prefixRange_def masked_def lastAddr_def)
  next
    case (V6 w z)
    then show ?thesis using assms v uint_block [of "129 - pfxBits1 p" w]
      by (simp add: rangeOf_def prefixRange_def masked_def lastAddr_def)
  qed (use v in simp)
  assume a: "bitLen a = bitLen (pfxAddr p)" "addrZone a = []"
  show "spans (prefixRange p) (addrVal a) \<longleftrightarrow> prefixContains p a"
  proof (cases "pfxAddr p")
    case (V4 w)
    then obtain u where "a = V4 u" using a by (cases a) simp_all
    then show ?thesis using V4 assms v block_range [of "33 - pfxBits1 p" w u]
      by (simp add: spans_def prefixRange_def masked_def lastAddr_def)
  next
    case (V6 w z)
    then obtain u where "a = V6 u []" using a by (cases a) simp_all
    then show ?thesis using V6 assms v block_range [of "129 - pfxBits1 p" w u]
      by (simp add: spans_def prefixRange_def masked_def lastAddr_def)
  qed (use v in simp)
qed

lemma familyRanges_prefixes:
  assumes "\<forall>p \<in> set ps. wfPrefix p \<and> \<not> is4In6 (pfxAddr p)"
  shows "set (familyRanges ps f) = prefixRange ` {p \<in> set ps. prefixIsValid p \<and> familyOf (pfxAddr p) = f}"
proof -
  have "prefixIsValid (masked p) \<longleftrightarrow> prefixIsValid p" for p
    by (simp add: masked_def prefixIsValid_def prefixZero_def)
  moreover have "familyOf (pfxAddr (masked p)) = familyOf (pfxAddr p)" if "p \<in> set ps" "prefixIsValid p" for p
    using assms that by (simp add: masked_def maskAddr_family)
  ultimately show ?thesis unfolding familyRanges_def prefixRange_def by (force simp: image_iff)
qed

definition famBits :: "Family \<Rightarrow> nat" where
  "famBits f = (if f = FamilyIPv4 then 32 else 128)"

lemma family_bits: "addrIsValid a \<Longrightarrow> \<not> is4In6 a \<Longrightarrow> bitLen a = famBits (familyOf a)"
  by (cases a) (auto simp: famBits_def familyOf_def)

lemma famBits_inj: "famBits f = famBits g \<longleftrightarrow> f = g"
  by (cases f; cases g) (simp_all add: famBits_def)

lemma prefixContains_kind: "prefixContains p a \<Longrightarrow> prefixIsValid p \<and> bitLen (pfxAddr p) = bitLen a"
  by (cases a) (auto split: addr.splits)

interpretation range_less: keyed_less "\<lambda>a b. addrLess (arFirst a) (arFirst b)" "\<lambda>r. addrKey (arFirst r)"
  by unfold_locales (rule addrLess_key)

lemma sorted_by_value:
  "sorted (map (\<lambda>r. addrKey (arFirst r)) rs) \<Longrightarrow> \<forall>r \<in> set rs. rangeOf n r \<Longrightarrow> sorted (map (\<lambda>r. addrVal (arFirst r)) rs)"
  by (induction rs) (auto simp: addrKey_def rangeOf_def less_eq_prod_def)

lemma mergeRanges_correct:
  assumes "\<forall>r \<in> set (familyRanges ps f). rangeOf n r" and "0 < n"
  shows "(\<exists>r \<in> set (mergeRanges ps f). spans r x) \<longleftrightarrow> (\<exists>r \<in> set (familyRanges ps f). spans r x)"
    and "\<forall>r \<in> set (mergeRanges ps f). rangeOf n r" and "separated (mergeRanges ps f)"
proof -
  define rs where "rs = sortBy (\<lambda>a b. addrLess (arFirst a) (arFirst b)) (familyRanges ps f)"
  have set_rs: "set rs = set (familyRanges ps f)" by (simp add: rs_def)
  have sorted: "sorted (map (\<lambda>r. addrVal (arFirst r)) rs)"
    unfolding rs_def by (rule sorted_by_value [OF range_less.sort_sorted, of _ n]) (use assms in simp)
  have "(\<forall>x. (\<exists>r \<in> set (mergeRanges ps f). spans r x) \<longleftrightarrow> (\<exists>r \<in> set rs. spans r x)) \<and>
      (\<forall>r \<in> set (mergeRanges ps f). rangeOf n r) \<and> separated (mergeRanges ps f)"
  proof (cases rs)
    case Nil
    then show ?thesis by (simp add: mergeRanges_def separated_def flip: rs_def)
  next
    case (Cons r rs')
    then have "mergeRanges ps f = joinRanges r rs'" by (simp add: mergeRanges_def flip: rs_def)
    moreover have "\<forall>r \<in> set (r # rs'). rangeOf n r" using assms(1) by (simp only: set_rs flip: Cons)
    ultimately show ?thesis using joinRanges_correct [of n r rs'] sorted assms(2) unfolding Cons by simp
  qed
  then show "(\<exists>r \<in> set (mergeRanges ps f). spans r x) \<longleftrightarrow> (\<exists>r \<in> set (familyRanges ps f). spans r x)"
    "\<forall>r \<in> set (mergeRanges ps f). rangeOf n r" "separated (mergeRanges ps f)"
    by (simp_all add: set_rs)
qed

section \<open>Properties\<close>

definition inRanges :: "AddrRange list \<Rightarrow> addr \<Rightarrow> bool" where
  "inRanges rs a \<longleftrightarrow> (\<exists>r \<in> set rs. \<not> addrLess a (arFirst r) \<and> \<not> addrLess (arLast r) a)"

text \<open>
  C20. The cluster ranges are exact and minimal. An address of a family lies in one of the ranges an
  egress rule's set holds exactly when one of the cluster's prefixes contains it, and the ranges are
  sorted with a gap between any two, as an interval set requires. (The prefixes are as
  netip.PrefixFrom makes them, none of them IPv4-mapped.)
\<close>

theorem cluster_ranges_exact:
  assumes "\<forall>p \<in> set ps. wfPrefix p \<and> \<not> is4In6 (pfxAddr p)"
    and "addrIsValid a" and "unmapAddr a = a" and "addrZone a = []"
  shows "(inRanges (mergeRanges ps (familyOf a)) a \<longleftrightarrow> (\<exists>p \<in> set ps. prefixContains p a)) \<and>
    sorted_wrt (\<lambda>r s. addrVal (arLast r) + 1 < addrVal (arFirst s)) (mergeRanges ps (familyOf a))"
proof -
  let ?n = "famBits (familyOf a)"
  have n: "0 < ?n" "bitLen a = ?n" using assms by (auto simp: famBits_def familyOf_def) (cases a; auto)+
  have fam: "bitLen (pfxAddr p) = ?n" if "p \<in> set ps" "prefixIsValid p" "familyOf (pfxAddr p) = familyOf a" for p
    using family_bits [of "pfxAddr p"] assms(1) that by (auto simp: wfPrefix_def)
  have rng: "\<forall>r \<in> set (familyRanges ps (familyOf a)). rangeOf ?n r"
    using prefix_range(1) fam assms(1) unfolding familyRanges_prefixes [OF assms(1)] by fastforce
  note merged = mergeRanges_correct [OF rng n(1)]
  have "inRanges (mergeRanges ps (familyOf a)) a \<longleftrightarrow> (\<exists>r \<in> set (mergeRanges ps (familyOf a)). spans r (addrVal a))"
    unfolding inRanges_def using merged(2) n(2) assms(4)
    by (intro bex_cong refl spans_less) (auto simp del: bex_simps)
  also have "\<dots> \<longleftrightarrow> (\<exists>p \<in> set ps. prefixIsValid p \<and> familyOf (pfxAddr p) = familyOf a \<and> spans (prefixRange p) (addrVal a))"
    unfolding merged(1) familyRanges_prefixes [OF assms(1)] by auto
  also have "\<dots> \<longleftrightarrow> (\<exists>p \<in> set ps. prefixContains p a)"
  proof (intro bex_cong refl)
    fix p
    assume p: "p \<in> set ps"
    show "(prefixIsValid p \<and> familyOf (pfxAddr p) = familyOf a \<and> spans (prefixRange p) (addrVal a)) \<longleftrightarrow> prefixContains p a"
    proof (cases "prefixIsValid p \<and> familyOf (pfxAddr p) = familyOf a")
      case True
      then show ?thesis using p prefix_range(2) fam n(2) assms(1,4) by simp
    next
      case False
      then show ?thesis using p prefixContains_kind [of p a] n(2) assms(1) family_bits [of "pfxAddr p"] famBits_inj
        by (metis wfPrefix_def)
    qed
  qed
  finally show ?thesis using merged(3) by (simp add: separated_def)
qed

definition exPrefixes :: "prefix list" where
  "exPrefixes = [prefixFrom (V4 0x0a000100) 24, prefixFrom (V6 0xfd000000000000000000000000000000 []) 64,
     prefixFrom (V4 0x0a000000) 24]"

lemma cluster_ranges_exact_witness:
  "inRanges (mergeRanges exPrefixes FamilyIPv4) (V4 0x0a000107) \<and>
   mergeRanges exPrefixes FamilyIPv4 = [\<lparr>arFirst = V4 0x0a000000, arLast = V4 0x0a0001ff\<rparr>]"
proof -
  have "prefixContains (prefixFrom (V4 0x0a000100) 24) (V4 0x0a000107)" by code_simp
  then have "\<exists>p \<in> set exPrefixes. prefixContains p (V4 0x0a000107)" by (auto simp: exPrefixes_def)
  moreover have "\<forall>p \<in> set exPrefixes. wfPrefix p \<and> \<not> is4In6 (pfxAddr p)"
    by (simp add: exPrefixes_def prefixFrom_wf)
  moreover have "mergeRanges exPrefixes FamilyIPv4 = [\<lparr>arFirst = V4 0x0a000000, arLast = V4 0x0a0001ff\<rparr>]" by code_simp
  ultimately show ?thesis using cluster_ranges_exact [of exPrefixes "V4 0x0a000107"] by (simp add: familyOf_def)
qed

end
