(* ===== verification/Packets.thy ===== *)
theory Packets
  imports Render
begin

text \<open>
  What a rendered Plan does to a packet, as a specification over the semantic fields of the rules: the
  pass through \<open>kup-steer\<close>, then the first match of \<open>kup-pre\<close>. The refinement at the end shows that
  this pair of chains translates exactly the packets the DNAT rules of the State name, although the
  node's own addresses are hidden behind stand-ins in between.
\<close>

section \<open>Packets and matches\<close>

record Packet =
  pkIif :: string
  pkOif :: string
  pkSrc :: addr
  pkDst :: addr
  pkL4 :: "8 word"
  pkSport :: "16 word"
  pkDport :: "16 word"
  pkReply :: bool
  pkCtMark :: "32 word"
  pkDnat :: bool
  pkMark :: "32 word"

text \<open>The protocol numbers of TCP and UDP (IANA); a port selection names no other protocol.\<close>

definition protoHit :: "string \<Rightarrow> 8 word \<Rightarrow> bool" where
  "protoHit proto n \<longleftrightarrow> proto = ''tcp'' \<and> n = 6 \<or> proto = ''udp'' \<and> n = 17"

text \<open>A trailing star is a prefix match.\<close>

definition ifaceHit :: "string \<Rightarrow> string \<Rightarrow> bool" where
  "ifaceHit name actual =
     (if name \<noteq> [] \<and> last name = CHR ''*'' then take (length name - 1) actual = butlast name else actual = name)"

definition portHit :: "PortSel \<Rightarrow> bool \<Rightarrow> Packet \<Rightarrow> bool" where
  "portHit sel isSrc pk \<longleftrightarrow>
     protoHit (selProto sel) (pkL4 pk) \<and>
     (let port = (if isSrc then pkSport pk else pkDport pk) in selFirst sel \<le> port \<and> port \<le> selLast sel)"

definition ctDirHit :: "CtDirection \<Rightarrow> bool \<Rightarrow> bool" where
  "ctDirHit dir reply = (case dir of CtDirAny \<Rightarrow> True | CtDirOriginal \<Rightarrow> \<not> reply | CtDirReply \<Rightarrow> reply)"

definition addrHit :: "addr option \<Rightarrow> addr \<Rightarrow> bool" where
  "addrHit want a = (case want of None \<Rightarrow> True | Some w \<Rightarrow> unmapAddr w = a)"

definition pkFamily :: "Packet \<Rightarrow> Family" where
  "pkFamily pk = familyOf (pkDst pk)"

text \<open>The matches of a rule, as the comments on the fields of \<open>Rule\<close> state them.\<close>

definition ruleHit :: "(Family \<Rightarrow> addr \<Rightarrow> bool) \<Rightarrow> Rule \<Rightarrow> Packet \<Rightarrow> bool" where
  "ruleHit inCluster r pk \<longleftrightarrow>
     (case ruleFamily r of None \<Rightarrow> True | Some f \<Rightarrow> pkFamily pk = f) \<and>
     (rlIifName r = [] \<or> ifaceHit (rlIifName r) (pkIif pk)) \<and>
     (rlOifName r = [] \<or> ifaceHit (rlOifName r) (pkOif pk) \<noteq> rlOifNeg r) \<and>
     addrHit (rlSrcAddr r) (pkSrc pk) \<and> addrHit (rlDstAddr r) (pkDst pk) \<and>
     (rlDstOutsideCluster r \<longrightarrow> \<not> inCluster (pkFamily pk) (pkDst pk)) \<and>
     (selProto (rlPort r) = [] \<or> portHit (rlPort r) (rlPortIsSrc r) pk) \<and>
     ctDirHit (rlCtDir r) (pkReply pk) \<and> (rlCtMark r = 0 \<or> pkCtMark pk = rlCtMark r) \<and>
     (rlKind r = KindCount \<longrightarrow> pkDnat pk)"

section \<open>The two passes\<close>

definition planCluster :: "Plan \<Rightarrow> Family \<Rightarrow> addr \<Rightarrow> bool" where
  "planCluster plan f a \<longleftrightarrow> inRanges (case map_of (plCluster plan) f of None \<Rightarrow> [] | Some rs \<Rightarrow> rs) a"

text \<open>A destination the family's steer map holds is replaced, any other is left alone.\<close>

definition steerLookup :: "Steer list \<Rightarrow> addr \<Rightarrow> addr" where
  "steerLookup pairs a = (case find (\<lambda>p. srLocal p = a) pairs of None \<Rightarrow> a | Some p \<Rightarrow> srVirtual p)"

definition steerStep :: "Plan \<Rightarrow> Packet \<Rightarrow> Rule \<Rightarrow> Packet" where
  "steerStep plan pk r =
     (if ruleHit (planCluster plan) r pk then pk\<lparr>pkDst := steerLookup (plSteer plan) (pkDst pk)\<rparr> else pk)"

definition steerPass :: "Plan \<Rightarrow> Packet \<Rightarrow> Packet" where
  "steerPass plan pk = foldl (steerStep plan) pk (filter (\<lambda>r. rlChain r = ChainSteer) (plRules plan))"

definition dnatPass :: "Plan \<Rightarrow> Packet \<Rightarrow> (addr \<times> PortSel \<times> 16 word) option" where
  "dnatPass plan pk =
     map_option (\<lambda>r. (rlToAddr r, rlPort r, rlToPort r))
       (find (\<lambda>r. rlChain r = ChainPre \<and> ruleHit (planCluster plan) r pk) (plRules plan))"

definition translate :: "Plan \<Rightarrow> Packet \<Rightarrow> (addr \<times> PortSel \<times> 16 word) option" where
  "translate plan pk = dnatPass plan (steerPass plan pk)"

text \<open>
  What the DNAT rule of a State means, as its comment says: a request on the interface for the port,
  in the target's family, or for the pinned destination alone.
\<close>

definition dnatHit :: "DNATRule \<Rightarrow> Packet \<Rightarrow> bool" where
  "dnatHit d pk \<longleftrightarrow>
     ifaceHit (dnIface d) (pkIif pk) \<and> portHit (dnPort d) False pk \<and> pkFamily pk = familyOf (dnToAddr d) \<and>
     addrHit (dnDstAddr d) (pkDst pk)"

text \<open>
  What the reconcile emits: an interface, a protocol in nft's spelling, a target, and a pinned
  destination that is an address of the target's family outside the stand-in blocks.
\<close>

definition dnatOk :: "DNATRule \<Rightarrow> bool" where
  "dnatOk d \<longleftrightarrow>
     dnIface d \<noteq> [] \<and> selProto (dnPort d) \<in> {''tcp'', ''udp''} \<and> addrIsValid (dnToAddr d) \<and>
     (\<forall>a. dnDstAddr d = Some a \<longrightarrow>
        addrIsValid a \<and> \<not> inBlock (unmapAddr a) \<and> familyOf a = familyOf (dnToAddr d))"

section \<open>Lemmas: the rendered chains\<close>

lemma newRule_sel [simp]:
  "rlChain (newRule c k) = c" "rlKind (newRule c k) = k" "rlIifName (newRule c k) = []"
  "rlOifName (newRule c k) = []" "rlOifNeg (newRule c k) = False" "rlSrcAddr (newRule c k) = None"
  "rlDstAddr (newRule c k) = None" "rlPort (newRule c k) = noPort" "rlPortIsSrc (newRule c k) = False"
  "rlToAddr (newRule c k) = AddrZero" "rlToPort (newRule c k) = 0" "rlMark (newRule c k) = 0"
  "rlMapFamily (newRule c k) = FamilyIPv4" "rlDstOutsideCluster (newRule c k) = False"
  "rlCtDir (newRule c k) = CtDirAny" "rlCtMark (newRule c k) = 0"
  by (simp_all add: newRule_def)

lemma chain_names_differ [simp]:
  "ChainPre \<noteq> ChainSteer" "ChainPost \<noteq> ChainSteer" "ChainMangle \<noteq> ChainSteer" "ChainEgress \<noteq> ChainSteer"
  "ChainMSS \<noteq> ChainSteer" "ChainCount \<noteq> ChainSteer" "ChainSteer \<noteq> ChainPre" "ChainPost \<noteq> ChainPre"
  "ChainMangle \<noteq> ChainPre" "ChainEgress \<noteq> ChainPre" "ChainMSS \<noteq> ChainPre" "ChainCount \<noteq> ChainPre"
  by (simp_all add: const_defs)

lemmas rule_literals =
  dnatRule_def countRules_def steerRule_def exemptRule_def markRule_def ctSaveRule_def ctLoadRule_def
  egressMarkRule_def gatewayRules_def Let_def

text \<open>The steer rules are those of the first DNAT rule of each key, in the families that have pairs.\<close>

lemma renderDNAT_steer:
  "{r \<in> set (renderDNAT pairs seen ds). rlChain r = ChainSteer} \<subseteq> steerRule ` {d \<in> set ds. hasPairs pairs (familyOf (dnToAddr d))}"
proof (induction pairs seen ds rule: renderDNAT.induct)
  case (2 pairs seen e ds)
  have "rlChain (dnatRule (standIns pairs) e) \<noteq> ChainSteer" "\<forall>r \<in> set (countRules e). rlChain r \<noteq> ChainSteer"
    by (simp_all add: rule_literals)
  then show ?case using "2.IH" by (cases "hasPairs pairs (familyOf (dnToAddr e)) \<and> steerKey e \<notin> seen") auto
qed simp

lemma renderDNAT_steered:
  "d \<in> set ds \<Longrightarrow> hasPairs pairs (familyOf (dnToAddr d)) \<Longrightarrow> steerKey d \<notin> seen \<Longrightarrow>
     \<exists>d' \<in> set ds. steerKey d' = steerKey d \<and> steerRule d' \<in> set (renderDNAT pairs seen ds)"
proof (induction pairs seen ds rule: renderDNAT.induct)
  case (2 pairs seen e ds)
  show ?case
  proof (cases "\<not> hasPairs pairs (familyOf (dnToAddr e)) \<or> steerKey e \<in> seen")
    case True
    with 2 have "d \<in> set ds" by auto
    with True 2 show ?thesis by auto
  next
    case False
    then show ?thesis using 2 by (cases "steerKey d = steerKey e") auto
  qed
qed simp

lemma renderDNAT_pre:
  "{r \<in> set (renderDNAT pairs seen ds). rlChain r = ChainPre} = dnatRule (standIns pairs) ` set ds"
  by (induction pairs seen ds rule: renderDNAT.induct) (auto simp: rule_literals)

lemma Render_pre:
  "{r \<in> set (plRules (Render s)). rlChain r = ChainPre} = dnatRule (standIns (steerPairs s)) ` set (stDNAT s)"
  unfolding renderDNAT_pre [symmetric, of _ _ "{}"] Render_def sortRules_def
  by (auto simp: rule_literals)

lemma Render_steer:
  "{r \<in> set (plRules (Render s)). rlChain r = ChainSteer} =
     {r \<in> set (renderDNAT (steerPairs s) {} (stDNAT s)). rlChain r = ChainSteer}"
  unfolding Render_def sortRules_def by (auto simp: rule_literals)


section \<open>Lemmas: the key of a steer rule\<close>

lemma split_last_sep:
  assumes "x @ c # y = x' @ c # y'" and "c \<notin> set y" and "c \<notin> set y'"
  shows "x = x' \<and> y = y'"
proof -
  have "takeWhile (\<lambda>d. d \<noteq> c) (rev (u @ c # v)) = rev v" if "c \<notin> set v" for u v
    using that by simp (subst takeWhile_append2, auto)
  then have "y = y'" using assms by (metis rev_rev_ident)
  with assms(1) show ?thesis by simp
qed

lemma set_itoa_uint: "c \<in> set (itoa (uint w)) \<Longrightarrow> \<exists>d < 10. c = digit d"
  using set_itoa_nat [of c "nat (uint w)"] unsigned_greater_eq [of w] by (simp add: itoa_def not_less [symmetric])

lemma digit_plain: "d < 10 \<Longrightarrow> digit d \<notin> {CHR ''|'', CHR ''/'', CHR ''-''}"
proof -
  assume "d < 10"
  then have "d \<in> {0, 1, 2, 3, 4, 5, 6, 7, 8, 9}" by auto
  then show ?thesis by (auto simp: digit_def numeral_eq_Suc)
qed

lemma itoa_uint_plain: "CHR ''|'' \<notin> set (itoa (uint w))" "CHR ''/'' \<notin> set (itoa (uint w))"
  "CHR ''-'' \<notin> set (itoa (uint w))"
  using set_itoa_uint [of _ w] digit_plain by fastforce+

lemma itoa_uint_inj: "itoa (uint w) = itoa (uint v) \<longleftrightarrow> w = v" for w v :: "'a::len word"
  by (simp add: itoa_def not_less [symmetric] word_unat_eq_iff)

lemma portText_inj:
  assumes "portText p = portText q"
  shows "selFirst p = selFirst q \<and> selLast p = selLast q"
proof -
  have "CHR ''-'' \<in> set (portText r) \<longleftrightarrow> selFirst r \<noteq> selLast r" for r
    by (simp add: portText_def itoa_uint_plain)
  then have "selFirst p = selLast p \<longleftrightarrow> selFirst q = selLast q" using assms by metis
  then show ?thesis
  proof (cases "selFirst p = selLast p")
    case False
    with \<open>selFirst p = selLast p \<longleftrightarrow> selFirst q = selLast q\<close> assms
    have "itoa (uint (selFirst p)) @ CHR ''-'' # itoa (uint (selLast p)) = itoa (uint (selFirst q)) @ CHR ''-'' # itoa (uint (selLast q))"
      by (simp add: portText_def)
    from split_last_sep [OF this itoa_uint_plain(3) itoa_uint_plain(3)] show ?thesis by (simp add: itoa_uint_inj)
  qed (use assms in \<open>simp add: portText_def itoa_uint_inj\<close>)
qed

lemma portText_plain: "CHR ''/'' \<notin> set (portText p)" "CHR ''|'' \<notin> set (portText p)"
  by (simp_all add: portText_def itoa_uint_plain)

lemma steerKey_inj:
  assumes "steerKey d = steerKey e" and "dnatOk d" and "dnatOk e"
  shows "steerRule d = steerRule e"
proof -
  have fam: "CHR ''|'' \<notin> set (nfprotoText f)" for f by (simp add: nfprotoText_def)
  from assms(1) have "dnIface d @ ''|'' @ selText (dnPort d) = dnIface e @ ''|'' @ selText (dnPort e) \<and>
      nfprotoText (familyOf (dnToAddr d)) = nfprotoText (familyOf (dnToAddr e))"
    unfolding steerKey_def
    by (intro split_last_sep [of _ "CHR ''|''"]) (use fam in simp_all)
  then have key: "dnIface d @ CHR ''|'' # selText (dnPort d) = dnIface e @ CHR ''|'' # selText (dnPort e)"
    and f: "familyOf (dnToAddr d) = familyOf (dnToAddr e)"
    by (auto simp: nfprotoText_def split: if_splits) (metis Family.exhaust)+
  have "CHR ''|'' \<notin> set (selText (dnPort d))" "CHR ''|'' \<notin> set (selText (dnPort e))"
    using assms(2,3) portText_plain by (auto simp: selText_def dnatOk_def)
  from split_last_sep [OF key this] have i: "dnIface d = dnIface e" and t: "selText (dnPort d) = selText (dnPort e)"
    by simp_all
  from t have "selProto (dnPort d) = selProto (dnPort e) \<and> portText (dnPort d) = portText (dnPort e)"
    unfolding selText_def by (intro split_last_sep [of _ "CHR ''/''"]) (use portText_plain in simp_all)
  then have "dnPort d = dnPort e" using portText_inj by (metis PortSel.equality old.unit.exhaust)
  with i f show ?thesis by (simp add: steerRule_def)
qed


section \<open>Lemmas: the steer pass\<close>

lemma foldl_once:
  assumes "\<And>r. r \<in> set rs \<Longrightarrow> hit r (g x) \<longleftrightarrow> hit r x" and "g (g x) = g x"
  shows "foldl (\<lambda>y r. if hit r y then g y else y) x rs = (if \<exists>r \<in> set rs. hit r x then g x else x)"
  using assms
proof (induction rs arbitrary: x)
  case (Cons r rs)
  show ?case
  proof (cases "hit r x")
    case True
    then show ?thesis using Cons.IH [of "g x"] Cons.prems by simp
  next
    case False
    then show ?thesis using Cons.IH [of x] Cons.prems by simp
  qed
qed simp

definition requestHit :: "DNATRule \<Rightarrow> Packet \<Rightarrow> bool" where
  "requestHit d pk \<longleftrightarrow>
     ifaceHit (dnIface d) (pkIif pk) \<and> portHit (dnPort d) False pk \<and> pkFamily pk = familyOf (dnToAddr d)"

lemma dnatOk_fields:
  "dnatOk d \<Longrightarrow> dnIface d \<noteq> []" "dnatOk d \<Longrightarrow> selProto (dnPort d) \<noteq> []" "dnatOk d \<Longrightarrow> addrIsValid (dnToAddr d)"
  by (auto simp: dnatOk_def)

lemma steerRule_hit: "dnatOk d \<Longrightarrow> ruleHit C (steerRule d) pk \<longleftrightarrow> requestHit d pk"
  by (simp add: ruleHit_def steerRule_def requestHit_def ruleFamily_def addrHit_def ctDirHit_def dnatOk_fields conj_ac)

lemma requestHit_dst: "familyOf a = familyOf (pkDst pk) \<Longrightarrow> requestHit d (pk\<lparr>pkDst := a\<rparr>) = requestHit d pk"
  by (simp add: requestHit_def portHit_def pkFamily_def)

definition isSteered :: "State \<Rightarrow> Packet \<Rightarrow> bool" where
  "isSteered s pk \<longleftrightarrow> (\<exists>d \<in> set (stDNAT s). hasPairs (steerPairs s) (familyOf (dnToAddr d)) \<and> requestHit d pk)"

definition stateOk :: "State \<Rightarrow> bool" where
  "stateOk s \<longleftrightarrow> (\<forall>d \<in> set (stDNAT s). dnatOk d) \<and> length (steerLocals s) < 65536"

lemma steered_rule:
  assumes "stateOk s" and "d \<in> set (stDNAT s)" and "hasPairs (steerPairs s) (familyOf (dnToAddr d))"
  shows "steerRule d \<in> set (renderDNAT (steerPairs s) {} (stDNAT s))"
proof -
  obtain e where e: "e \<in> set (stDNAT s)" "steerKey e = steerKey d"
      "steerRule e \<in> set (renderDNAT (steerPairs s) {} (stDNAT s))"
    using renderDNAT_steered [OF assms(2,3), of "{}"] by auto
  then have "steerRule e = steerRule d" using assms by (intro steerKey_inj) (simp_all add: stateOk_def)
  with e(3) show ?thesis by simp
qed

lemma steered_hit:
  assumes "stateOk s"
  shows "(\<exists>r \<in> set (filter (\<lambda>r. rlChain r = ChainSteer) (plRules (Render s))). ruleHit C r pk) \<longleftrightarrow> isSteered s pk"
proof
  assume "\<exists>r \<in> set (filter (\<lambda>r. rlChain r = ChainSteer) (plRules (Render s))). ruleHit C r pk"
  then obtain r where r: "r \<in> {r \<in> set (plRules (Render s)). rlChain r = ChainSteer}" "ruleHit C r pk" by auto
  then obtain d where "d \<in> set (stDNAT s)" "hasPairs (steerPairs s) (familyOf (dnToAddr d))" "r = steerRule d"
    unfolding Render_steer using renderDNAT_steer by blast
  with r(2) assms show "isSteered s pk" by (auto simp: isSteered_def steerRule_hit stateOk_def)
next
  assume "isSteered s pk"
  then obtain d where d: "d \<in> set (stDNAT s)" "hasPairs (steerPairs s) (familyOf (dnToAddr d))" "requestHit d pk"
    by (auto simp: isSteered_def)
  have "steerRule d \<in> {r \<in> set (plRules (Render s)). rlChain r = ChainSteer}"
    unfolding Render_steer using steered_rule [OF assms d(1,2)] by (simp add: steerRule_def)
  moreover have "ruleHit C (steerRule d) pk" using d assms by (simp add: steerRule_hit stateOk_def)
  ultimately show "\<exists>r \<in> set (filter (\<lambda>r. rlChain r = ChainSteer) (plRules (Render s))). ruleHit C r pk" by auto
qed

lemma plSteer_Render:
  "plSteer (Render s) =
     filter (\<lambda>p. familyOf (srLocal p) \<in> rlMapFamily ` {r \<in> set (renderDNAT (steerPairs s) {} (stDNAT s)). rlKind r = KindSteer})
       (steerPairs s)"
  by (simp add: Render_def Let_def)

text \<open>The steer maps hold every pair of the families some request is steered in.\<close>

lemma plSteer_pairs:
  assumes "stateOk s" and "d \<in> set (stDNAT s)" and "p \<in> set (steerPairs s)" and "familyOf (srLocal p) = familyOf (dnToAddr d)"
  shows "p \<in> set (plSteer (Render s))"
proof -
  have "hasPairs (steerPairs s) (familyOf (dnToAddr d))" using assms(3,4) by (auto simp: hasPairs_def list_ex_iff)
  from steered_rule [OF assms(1,2) this] have "rlMapFamily (steerRule d) \<in>
      rlMapFamily ` {r \<in> set (renderDNAT (steerPairs s) {} (stDNAT s)). rlKind r = KindSteer}"
    by (intro imageI) (simp add: steerRule_def)
  then show ?thesis using assms(3,4) by (simp add: plSteer_Render steerRule_def)
qed

lemma plSteer_subset: "set (plSteer (Render s)) \<subseteq> set (steerPairs s)"
  by (auto simp: plSteer_Render)

lemma steerLookup_cases:
  obtains "a \<notin> srLocal ` set pairs" "steerLookup pairs a = a"
  | p where "p \<in> set pairs" "srLocal p = a" "steerLookup pairs a = srVirtual p"
proof (cases "find (\<lambda>p. srLocal p = a) pairs")
  case None
  then have "a \<notin> srLocal ` set pairs" by (auto simp: find_None_iff)
  then show ?thesis by (rule that(1)) (simp add: None steerLookup_def)
next
  case (Some p)
  then have "p \<in> set pairs" "srLocal p = a" by (auto simp: find_Some_iff)
  then show ?thesis by (rule that(2)) (simp add: Some steerLookup_def)
qed

lemma steerLookup_plan:
  shows "familyOf (steerLookup (plSteer (Render s)) a) = familyOf a"
    and "steerLookup (plSteer (Render s)) (steerLookup (plSteer (Render s)) a) = steerLookup (plSteer (Render s)) a"
proof -
  have v: "familyOf (srVirtual p) = familyOf (srLocal p)" "srVirtual p \<notin> srLocal ` set (plSteer (Render s))"
    if "p \<in> set (plSteer (Render s))" for p
  proof -
    have p: "p \<in> set (steerPairs s)" using that plSteer_subset by blast
    from steerPairs_virtual [OF this] show "familyOf (srVirtual p) = familyOf (srLocal p)" by simp
    show "srVirtual p \<notin> srLocal ` set (plSteer (Render s))"
      using steerPairs_virtual(1) [OF p] steerPairs_local(2) plSteer_subset by (metis imageE subsetD)
  qed
  show "familyOf (steerLookup (plSteer (Render s)) a) = familyOf a"
    by (rule steerLookup_cases [of a "plSteer (Render s)"]) (use v in auto)
  have stay: "steerLookup (plSteer (Render s)) b = b" if "b \<notin> srLocal ` set (plSteer (Render s))" for b
    by (rule steerLookup_cases [of b "plSteer (Render s)"]) (use that in auto)
  show "steerLookup (plSteer (Render s)) (steerLookup (plSteer (Render s)) a) = steerLookup (plSteer (Render s)) a"
    by (rule steerLookup_cases [of a "plSteer (Render s)"]) (use v stay in auto)
qed

lemma steerPass_Render:
  assumes "stateOk s"
  shows "steerPass (Render s) pk = (if isSteered s pk then pk\<lparr>pkDst := steerLookup (plSteer (Render s)) (pkDst pk)\<rparr> else pk)"
proof -
  let ?g = "\<lambda>pk. pk\<lparr>pkDst := steerLookup (plSteer (Render s)) (pkDst pk)\<rparr>"
  let ?C = "planCluster (Render s)"
  let ?rs = "filter (\<lambda>r. rlChain r = ChainSteer) (plRules (Render s))"
  have "ruleHit ?C r (?g pk) \<longleftrightarrow> ruleHit ?C r pk" if "r \<in> set ?rs" for r
  proof -
    have "r \<in> {r \<in> set (plRules (Render s)). rlChain r = ChainSteer}" using that by simp
    then obtain d where "d \<in> set (stDNAT s)" "r = steerRule d" unfolding Render_steer using renderDNAT_steer by blast
    then show ?thesis using assms by (simp add: steerRule_hit stateOk_def requestHit_dst steerLookup_plan(1))
  qed
  then have "foldl (\<lambda>y r. if ruleHit ?C r y then ?g y else y) pk ?rs = (if \<exists>r \<in> set ?rs. ruleHit ?C r pk then ?g pk else pk)"
    by (rule foldl_once) (simp_all add: steerLookup_plan(2))
  moreover have "steerPass (Render s) pk = foldl (\<lambda>y r. if ruleHit ?C r y then ?g y else y) pk ?rs"
    unfolding steerPass_def by (rule arg_cong [where f = "\<lambda>f. foldl f pk ?rs"]) (simp add: fun_eq_iff steerStep_def)
  ultimately show ?thesis by (simp only: steered_hit [OF assms])
qed


section \<open>Lemmas: the translated packets\<close>

lemma standIns_pairs:
  assumes "stateOk s"
  shows "standIns (steerPairs s) a = Some v \<longleftrightarrow> (\<exists>p \<in> set (steerPairs s). srLocal p = a \<and> srVirtual p = v)"
proof -
  have "inj_on srLocal (set (steerPairs s))"
    using steerPairs_inj(2) assms by (auto simp: inj_on_def stateOk_def)
  from index_by_inj [OF this] show ?thesis by (auto simp: standIns_def)
qed

lemma dnatRule_hit:
  assumes "dnatOk d" and "\<And>b. pinned stand (dnDstAddr d) = Some b \<Longrightarrow> familyOf b = familyOf (dnToAddr d)"
  shows "ruleHit C (dnatRule stand d) pk \<longleftrightarrow> requestHit d pk \<and> addrHit (pinned stand (dnDstAddr d)) (pkDst pk)"
proof -
  have "ruleFamily (dnatRule stand d) = Some (familyOf (dnToAddr d))"
    using assms by (cases "pinned stand (dnDstAddr d)") (simp_all add: ruleFamily_def dnatRule_def dnatOk_fields)
  then show ?thesis
    using assms(1) by (simp add: ruleHit_def dnatRule_def requestHit_def ctDirHit_def dnatOk_fields addrHit_def conj_ac)
qed

lemma virtual_unmapped:
  assumes "p \<in> set (steerPairs s)"
  shows "unmapAddr (srVirtual p) = srVirtual p"
proof -
  have "unmapAddr a = a" if "is4 a \<or> familyOf a = FamilyIPv6" for a
    using that by (cases a) (auto simp: familyOf_def split: if_splits)
  then show ?thesis using steerPairs_standIn [OF assms] by (auto simp: standIn_def)
qed

lemma pinned_family:
  assumes "stateOk s" and "d \<in> set (stDNAT s)" and "pinned (standIns (steerPairs s)) (dnDstAddr d) = Some b"
  shows "familyOf b = familyOf (dnToAddr d)"
proof -
  obtain a where a: "dnDstAddr d = Some a" using assms(3) by (auto simp: pinned_def split: option.splits)
  then have fa: "familyOf (unmapAddr a) = familyOf (dnToAddr d)" "familyOf a = familyOf (dnToAddr d)"
    using assms(1,2) by (auto simp: stateOk_def dnatOk_def familyOf_def)
  show ?thesis
  proof (cases "standIns (steerPairs s) (unmapAddr a)")
    case None
    then show ?thesis using assms(3) a fa by (simp add: pinned_def)
  next
    case (Some v)
    then obtain p where "p \<in> set (steerPairs s)" "srLocal p = unmapAddr a" "srVirtual p = v"
      using standIns_pairs [OF assms(1)] by blast
    then show ?thesis using steerPairs_virtual(2) [of p s] Some assms(3) a fa by (simp add: pinned_def)
  qed
qed

lemma pinned_hit:
  assumes "stateOk s" and "d \<in> set (stDNAT s)" and "dnDstAddr d = Some a" and "requestHit d pk" and "\<not> inBlock (pkDst pk)"
  shows "addrHit (pinned (standIns (steerPairs s)) (Some a)) (pkDst (steerPass (Render s) pk)) \<longleftrightarrow> unmapAddr a = pkDst pk"
proof -
  have d: "dnatOk d" using assms(1,2) by (simp add: stateOk_def)
  have a: "\<not> inBlock (unmapAddr a)" "familyOf a = familyOf (dnToAddr d)" using d assms(3) by (simp_all add: dnatOk_def)
  have fam: "familyOf (pkDst pk) = familyOf (dnToAddr d)" using assms(4) by (simp add: requestHit_def pkFamily_def)
  let ?look = "steerLookup (plSteer (Render s))"
  consider (stand) p where "p \<in> set (steerPairs s)" "srLocal p = unmapAddr a" | (none) "unmapAddr a \<notin> srLocal ` set (steerPairs s)"
    by (metis imageE)
  then show ?thesis
  proof cases
    case stand
    have p: "p \<in> set (plSteer (Render s))"
      by (rule plSteer_pairs [OF assms(1,2) stand(1)]) (use stand a(2) in \<open>simp add: familyOf_def\<close>)
    have pin: "pinned (standIns (steerPairs s)) (Some a) = Some (srVirtual p)"
      using standIns_pairs [OF assms(1), of "unmapAddr a" "srVirtual p"] stand by (auto simp: pinned_def)
    have uv: "unmapAddr (srVirtual p) = srVirtual p" using stand(1) by (rule virtual_unmapped)
    have steered: "isSteered s pk" if "srLocal q = pkDst pk" "q \<in> set (steerPairs s)" for q
      unfolding isSteered_def hasPairs_def list_ex_iff using that assms(2,4) fam by metis
    show ?thesis
    proof (rule steerLookup_cases [of "pkDst pk" "plSteer (Render s)"])
      assume n: "pkDst pk \<notin> srLocal ` set (plSteer (Render s))" "?look (pkDst pk) = pkDst pk"
      then have "pkDst (steerPass (Render s) pk) = pkDst pk" by (simp add: steerPass_Render [OF assms(1)])
      moreover have "srVirtual p \<noteq> pkDst pk" using steerPairs_virtual(1) [OF stand(1)] assms(5) by metis
      moreover have "unmapAddr a \<noteq> pkDst pk" using n(1) p stand(2) by (metis imageI)
      ultimately show ?thesis by (simp add: pin addrHit_def uv)
    next
      fix q
      assume q: "q \<in> set (plSteer (Render s))" "srLocal q = pkDst pk" "?look (pkDst pk) = srVirtual q"
      then have qp: "q \<in> set (steerPairs s)" using plSteer_subset by blast
      then have "pkDst (steerPass (Render s) pk) = srVirtual q"
        using steered [OF q(2) qp] q(3) by (simp add: steerPass_Render [OF assms(1)])
      moreover have "srVirtual p = srVirtual q \<longleftrightarrow> p = q" "srLocal p = srLocal q \<longleftrightarrow> p = q"
        using steerPairs_inj [OF _ stand(1) qp] assms(1) by (simp_all add: stateOk_def)
      ultimately show ?thesis using stand(2) q(2) by (simp add: pin addrHit_def uv)
    qed
  next
    case none
    then have "standIns (steerPairs s) (unmapAddr a) = None" by (simp add: standIns_def)
    then have pin: "pinned (standIns (steerPairs s)) (Some a) = Some a" by (simp add: pinned_def)
    show ?thesis
    proof (rule steerLookup_cases [of "pkDst pk" "plSteer (Render s)"])
      assume "?look (pkDst pk) = pkDst pk"
      then show ?thesis by (simp add: steerPass_Render [OF assms(1)] pin addrHit_def)
    next
      fix q
      assume q: "q \<in> set (plSteer (Render s))" "srLocal q = pkDst pk" "?look (pkDst pk) = srVirtual q"
      then have qp: "q \<in> set (steerPairs s)" using plSteer_subset by blast
      then have "unmapAddr a \<noteq> srVirtual q" using steerPairs_virtual(1) a(1) by metis
      moreover have "unmapAddr a \<noteq> pkDst pk" using none qp q(2) by (metis imageI)
      ultimately show ?thesis using q(3) by (simp add: steerPass_Render [OF assms(1)] pin addrHit_def)
    qed
  qed
qed


lemma dnat_pass_hit:
  assumes "stateOk s" and "d \<in> set (stDNAT s)" and "\<not> inBlock (pkDst pk)"
  shows "ruleHit C (dnatRule (standIns (steerPairs s)) d) (steerPass (Render s) pk) \<longleftrightarrow> dnatHit d pk"
proof -
  have d: "dnatOk d" using assms(1,2) by (simp add: stateOk_def)
  have "requestHit d (steerPass (Render s) pk) \<longleftrightarrow> requestHit d pk"
    by (simp add: steerPass_Render [OF assms(1)] requestHit_dst steerLookup_plan(1))
  then have "ruleHit C (dnatRule (standIns (steerPairs s)) d) (steerPass (Render s) pk) \<longleftrightarrow>
      requestHit d pk \<and> addrHit (pinned (standIns (steerPairs s)) (dnDstAddr d)) (pkDst (steerPass (Render s) pk))"
    using dnatRule_hit [OF d pinned_family [OF assms(1,2)]] by simp
  also have "\<dots> \<longleftrightarrow> requestHit d pk \<and> addrHit (dnDstAddr d) (pkDst pk)"
  proof (cases "dnDstAddr d")
    case None
    then show ?thesis by (simp add: pinned_def addrHit_def)
  next
    case (Some a)
    then show ?thesis using pinned_hit [OF assms(1,2) Some _ assms(3)] by (auto simp: addrHit_def)
  qed
  finally show ?thesis by (auto simp: dnatHit_def requestHit_def)
qed

section \<open>Properties\<close>

text \<open>
  C17. The rendered chains refine the DNAT rules of the State: a packet that is not itself addressed
  to a stand-in is translated exactly when some DNAT rule of the State names it, and the target,
  the ports and the translated port it gets are those of such a rule. The stand-ins the node's own
  addresses are rewritten to in between change nothing, neither for a rule on an accepting
  interface nor for one pinned to a link's end.
\<close>

theorem render_refines_dnat:
  assumes "\<forall>d \<in> set (stDNAT s). dnatOk d" and "length (steerLocals s) < 65536" and "\<not> inBlock (pkDst pk)"
  shows "case translate (Render s) pk of
      None \<Rightarrow> \<forall>d \<in> set (stDNAT s). \<not> dnatHit d pk
    | Some hit \<Rightarrow> \<exists>d \<in> set (stDNAT s). dnatHit d pk \<and> hit = (dnToAddr d, dnPort d, dnToPort d)"
proof -
  have ok: "stateOk s" using assms by (simp add: stateOk_def)
  let ?rule = "dnatRule (standIns (steerPairs s))" and ?pk = "steerPass (Render s) pk" and ?C = "planCluster (Render s)"
  have pre: "(r \<in> set (plRules (Render s)) \<and> rlChain r = ChainPre) \<longleftrightarrow> r \<in> ?rule ` set (stDNAT s)" for r
    using Render_pre [of s] by blast
  have fields: "(rlToAddr (?rule d), rlPort (?rule d), rlToPort (?rule d)) = (dnToAddr d, dnPort d, dnToPort d)" for d
    by (simp add: dnatRule_def)
  show ?thesis
  proof (cases "find (\<lambda>r. rlChain r = ChainPre \<and> ruleHit ?C r ?pk) (plRules (Render s))")
    case None
    then have "\<not> ruleHit ?C (?rule d) ?pk" if "d \<in> set (stDNAT s)" for d
      using that pre [of "?rule d"] unfolding find_None_iff by auto
    then show ?thesis using None dnat_pass_hit [OF ok _ assms(3)] by (simp add: translate_def dnatPass_def)
  next
    case (Some r)
    then have r: "r \<in> set (plRules (Render s))" "rlChain r = ChainPre" "ruleHit ?C r ?pk"
      unfolding find_Some_iff by auto
    then obtain d where d: "d \<in> set (stDNAT s)" "r = ?rule d" "dnatHit d pk"
      using pre [of r] dnat_pass_hit [OF ok _ assms(3), where C = ?C] by auto
    then show ?thesis using Some fields by (auto simp: translate_def dnatPass_def)
  qed
qed


text \<open>
  A node with one address, a rule on its uplink and a rule pinned to that address on a link: the
  request on the link is translated by the pinned rule although the steer pass rewrote its destination.
\<close>

definition exNodeState :: State where
  "exNodeState = emptyState\<lparr>stLocalAddrs := [V4 0x0a000001],
     stDNAT := [\<lparr>dnIface = ''eth0'', dnPort = \<lparr>selProto = ''tcp'', selFirst = 80, selLast = 80\<rparr>, dnToAddr = V4 0x0a010002,
                  dnToPort = 0, dnDstAddr = None\<rparr>,
                \<lparr>dnIface = ''kup-0001'', dnPort = \<lparr>selProto = ''tcp'', selFirst = 80, selLast = 80\<rparr>, dnToAddr = V4 0x0a010002,
                  dnToPort = 8080, dnDstAddr = Some (V4 0x0a000001)\<rparr>]\<rparr>"

definition exRequest :: Packet where
  "exRequest = \<lparr>pkIif = ''kup-0001'', pkOif = [], pkSrc = V4 0xc0000201, pkDst = V4 0x0a000001, pkL4 = 6, pkSport = 4000,
     pkDport = 80, pkReply = False, pkCtMark = 0, pkDnat = False, pkMark = 0\<rparr>"

lemma render_refines_dnat_witness: "\<exists>hit. translate (Render exNodeState) exRequest = Some hit"
proof -
  have len: "length (steerLocals exNodeState) = 1" by code_simp
  have free: "\<not> inBlock (pkDst exRequest)" by code_simp
  have "\<not> inBlock (V4 0x0a000001)" by code_simp
  then have ok: "\<forall>d \<in> set (stDNAT exNodeState). dnatOk d" by (simp add: exNodeState_def dnatOk_def familyOf_def)
  have "dnatHit (stDNAT exNodeState ! 1) exRequest" by code_simp
  moreover have "stDNAT exNodeState ! 1 \<in> set (stDNAT exNodeState)" by (simp add: exNodeState_def)
  ultimately show ?thesis using render_refines_dnat [OF ok _ free] len by (auto split: option.splits)
qed

end
