(* ===== verification/Nft.thy ===== *)
theory Nft
  imports Packets
begin

text \<open>
  The netlink form of the rules (\<open>datapath/nft.go\<close>): the expressions a rule becomes, the maps and
  interval sets, the base chains, and the one transaction that replaces the table. The expressions
  are those of the package google/nftables; what they do is the kernel's, and stands in the locale
  \<open>nft_kernel\<close> as laws. The connection is a parameter too: a transaction is the list of operations
  staged on it, and adding a set or flushing may fail.
\<close>

unbundle bit_operations_syntax

type_synonym bytes = "8 word list"

section \<open>Expressions\<close>

datatype CmpOp = CmpOpEq | CmpOpNeq
datatype MetaKey = MetaKeyNFPROTO | MetaKeyIIFNAME | MetaKeyOIFNAME | MetaKeyL4PROTO | MetaKeyMARK
datatype CtKey = CtKeyMARK | CtKeyDIRECTION | CtKeySTATUS
datatype PayloadBase = PayloadBaseNetworkHeader | PayloadBaseTransportHeader
datatype NATType = NATTypeDestNAT | NATTypeSourceNAT

text \<open>
  One constructor per struct of package \<open>expr\<close> the program builds, with the fields it sets. A meta or
  ct expression with \<open>SourceRegister\<close> writes from the register; a payload load and a payload write
  are two constructors; a lookup with a destination register reads a map.
\<close>

datatype Expr =
  ExMeta MetaKey bool nat
| ExCmp CmpOp nat bytes
| ExRange CmpOp nat bytes bytes
| ExPayloadLoad nat PayloadBase nat nat
| ExPayloadWrite nat PayloadBase nat nat "(nat \<times> bool) option"
| ExLookup nat "nat option" string nat bool
| ExCt CtKey bool nat
| ExBitwise nat nat nat bytes bytes
| ExCounter "64 word" "64 word"
| ExImmediate nat bytes
| ExNAT NATType "8 word" nat nat nat nat
| ExMasq
| ExRtTCPMSS nat
| ExByteorderHton nat nat nat nat
| ExExthdrTcpopt nat nat nat nat

definition byteOf :: "char \<Rightarrow> 8 word" where
  "byteOf c = of_nat (of_char c)"

definition be16 :: "16 word \<Rightarrow> bytes" where
  "be16 w = [ucast (drop_bit 8 w), ucast w]"

definition be32 :: "32 word \<Rightarrow> bytes" where
  "be32 w = map (\<lambda>k. ucast (drop_bit (8 * k) w)) [3, 2, 1, 0]"

definition be128 :: "128 word \<Rightarrow> bytes" where
  "be128 w = map (\<lambda>k. ucast (drop_bit (8 * k) w)) [15, 14, 13, 12, 11, 10, 9, 8, 7, 6, 5, 4, 3, 2, 1, 0]"

definition addrLoad :: "Family \<Rightarrow> bool \<Rightarrow> nat \<times> nat" where
  "addrLoad f src =
     (if f = FamilyIPv6 \<and> src then (8, 16) else if f = FamilyIPv6 then (24, 16) else if src then (12, 4) else (16, 4))"

definition nfproto :: "Family \<Rightarrow> 8 word" where
  "nfproto f = (if f = FamilyIPv6 then 10 else 2)"

definition protoNum :: "string \<Rightarrow> 8 word" where
  "protoNum proto = (if proto = ''tcp'' then 6 else 17)"

text \<open>The address of an IPv4 rule always has its 4 bytes, so the panic of \<open>As4\<close> cannot happen there.\<close>

definition addrBytes :: "addr \<Rightarrow> bytes" where
  "addrBytes a = (if familyOf a = FamilyIPv4 then (case as4 (unmapAddr a) of Some w \<Rightarrow> be32 w | None \<Rightarrow> []) else be128 (as16 a))"

definition ifnameCmp :: "string \<Rightarrow> bool \<Rightarrow> Expr" where
  "ifnameCmp name neg =
     (let op = (if neg then CmpOpNeq else CmpOpEq)
      in if name \<noteq> [] \<and> last name = CHR ''*'' then ExCmp op 1 (map byteOf (butlast name))
         else ExCmp op 1 (map byteOf name @ [0]))"

definition ipCmp :: "addr \<Rightarrow> bool \<Rightarrow> Expr list" where
  "ipCmp a src =
     (let (offset, len) = addrLoad (familyOf a) src
      in [ExPayloadLoad 1 PayloadBaseNetworkHeader offset len, ExCmp CmpOpEq 1 (addrBytes a)])"

definition portMatch :: "PortSel \<Rightarrow> bool \<Rightarrow> Expr list" where
  "portMatch p isSrc =
     (let load = ExPayloadLoad 1 PayloadBaseTransportHeader (if isSrc then 0 else 2) 2
      in if selFirst p = selLast p then [load, ExCmp CmpOpEq 1 (be16 (selFirst p))]
         else [load, ExRange CmpOpEq 1 (be16 (selFirst p)) (be16 (selLast p))])"

definition dnatExprs :: "addr \<Rightarrow> PortSel \<Rightarrow> 16 word \<Rightarrow> Expr list" where
  "dnatExprs to p0 toPort =
     (let p = (if toPort \<noteq> 0 then \<lparr>selProto = selProto p0, selFirst = toPort, selLast = toPort\<rparr> else p0);
          out = [ExImmediate 1 (addrBytes to), ExImmediate 2 (be16 (selFirst p))]
      in if selFirst p \<noteq> selLast p
         then out @ [ExImmediate 3 (be16 (selLast p)), ExNAT NATTypeDestNAT (nfproto (familyOf to)) 1 1 2 3]
         else out @ [ExNAT NATTypeDestNAT (nfproto (familyOf to)) 1 1 2 2])"

definition snatIdentityExprs :: "Family \<Rightarrow> Expr list" where
  "snatIdentityExprs f =
     (let (offset, len) = addrLoad f True
      in [ExPayloadLoad 1 PayloadBaseNetworkHeader offset len, ExNAT NATTypeSourceNAT (nfproto f) 1 1 0 0])"

text \<open>The IPv4 write fixes the header checksum at offset 10 and the pseudo-header's.\<close>

definition steerExprs :: "Family \<Rightarrow> string \<times> nat \<Rightarrow> Expr list" where
  "steerExprs f m =
     (let (offset, len) = addrLoad f False
      in [ExPayloadLoad 1 PayloadBaseNetworkHeader offset len, ExLookup 1 (Some 1) (fst m) (snd m) False,
          ExPayloadWrite 1 PayloadBaseNetworkHeader offset len (if f = FamilyIPv4 then Some (10, True) else None)])"

definition ctDirExprs :: "8 word \<Rightarrow> Expr list" where
  "ctDirExprs dir = [ExCt CtKeyDIRECTION False 1, ExCmp CmpOpEq 1 [dir]]"

text \<open>\<open>native\<close> is the host's byte order of a 32-bit value.\<close>

definition ctStatusDNATExprs :: "(32 word \<Rightarrow> bytes) \<Rightarrow> Expr list" where
  "ctStatusDNATExprs native =
     [ExCt CtKeySTATUS False 1, ExBitwise 1 1 4 (native (push_bit 5 1)) (native 0), ExCmp CmpOpNeq 1 (native 0)]"

definition mssExprs :: "Expr list" where
  "mssExprs =
     [ExMeta MetaKeyL4PROTO False 1, ExCmp CmpOpEq 1 [6],
      ExPayloadLoad 1 PayloadBaseTransportHeader 13 1, ExBitwise 1 1 1 [0x02 OR 0x04] [0], ExCmp CmpOpEq 1 [0x02],
      ExCounter 0 0, ExRtTCPMSS 1, ExByteorderHton 1 1 2 2, ExExthdrTcpopt 1 2 2 2]"

definition markExprs :: "(32 word \<Rightarrow> bytes) \<Rightarrow> 32 word \<Rightarrow> Expr list" where
  "markExprs native m = [ExImmediate 1 (native m), ExMeta MetaKeyMARK True 1]"

definition ctSaveExprs :: "(32 word \<Rightarrow> bytes) \<Rightarrow> 32 word \<Rightarrow> Expr list" where
  "ctSaveExprs native m = [ExImmediate 1 (native m), ExCt CtKeyMARK True 1]"

definition ctLoadExprs :: "Expr list" where
  "ctLoadExprs = [ExCt CtKeyMARK False 1, ExMeta MetaKeyMARK True 1]"

section \<open>Sets\<close>

record SetElement =
  seKey :: bytes
  seVal :: bytes
  seIntervalEnd :: bool

datatype SetType = TypeIPAddr | TypeIP6Addr

record NftSet =
  nsName :: string
  nsInterval :: bool
  nsIsMap :: bool
  nsKeyType :: SetType

definition setTypeOf :: "Family \<Rightarrow> SetType" where
  "setTypeOf f = (if f = FamilyIPv6 then TypeIP6Addr else TypeIPAddr)"

text \<open>A set of the transaction by name; a name that is not there resolves with the ID 0.\<close>

definition lookupSet :: "(string \<rightharpoonup> nat) \<Rightarrow> string \<Rightarrow> string \<times> nat" where
  "lookupSet sets name = (case sets name of Some i \<Rightarrow> (name, i) | None \<Rightarrow> (name, 0))"

definition intervalElems :: "AddrRange \<Rightarrow> SetElement list" where
  "intervalElems r =
     \<lparr>seKey = addrBytes (arFirst r), seVal = [], seIntervalEnd = False\<rparr> #
     (if addrIsValid (addrNext (arLast r))
      then [\<lparr>seKey = addrBytes (addrNext (arLast r)), seVal = [], seIntervalEnd = True\<rparr>] else [])"

definition nftClusterSets :: "(Family, AddrRange list) gomap \<Rightarrow> (NftSet \<times> SetElement list) list" where
  "nftClusterSets cluster =
     concat (map (\<lambda>f. case map_of cluster f of None \<Rightarrow> []
        | Some rs \<Rightarrow> [(\<lparr>nsName = clusterSet f, nsInterval = True, nsIsMap = False, nsKeyType = setTypeOf f\<rparr>,
                       concat (map intervalElems rs))]) [FamilyIPv4, FamilyIPv6])"

definition nftMaps :: "Steer list \<Rightarrow> (NftSet \<times> SetElement list) list" where
  "nftMaps steer =
     concat (map (\<lambda>f.
        let elems = map (\<lambda>p. \<lparr>seKey = addrBytes (srLocal p), seVal = addrBytes (srVirtual p), seIntervalEnd = False\<rparr>)
                      (filter (\<lambda>p. familyOf (srLocal p) = f) steer)
        in if elems = [] then []
           else [(\<lparr>nsName = steerMap f, nsInterval = False, nsIsMap = True, nsKeyType = setTypeOf f\<rparr>, elems)])
        [FamilyIPv4, FamilyIPv6])"

section \<open>Rules\<close>

definition ruleFam :: "Rule \<Rightarrow> Family" where
  "ruleFam r = (case ruleFamily r of Some f \<Rightarrow> f | None \<Rightarrow> FamilyIPv4)"

text \<open>The matches before the protocol, which an MSS rule has alone, and those after it.\<close>

definition headerMatches :: "(string \<rightharpoonup> nat) \<Rightarrow> Rule \<Rightarrow> Expr list" where
  "headerMatches sets r =
     (case ruleFamily r of None \<Rightarrow> [] | Some f \<Rightarrow> [ExMeta MetaKeyNFPROTO False 1, ExCmp CmpOpEq 1 [nfproto f]]) @
     (if rlIifName r \<noteq> [] then [ExMeta MetaKeyIIFNAME False 1, ifnameCmp (rlIifName r) False] else []) @
     (if rlOifName r \<noteq> [] then [ExMeta MetaKeyOIFNAME False 1, ifnameCmp (rlOifName r) (rlOifNeg r)] else []) @
     (case rlSrcAddr r of None \<Rightarrow> [] | Some a \<Rightarrow> ipCmp a True) @
     (case rlDstAddr r of None \<Rightarrow> [] | Some a \<Rightarrow> ipCmp a False) @
     (if rlDstOutsideCluster r
      then let (offset, len) = addrLoad (ruleFam r) False; m = lookupSet sets (clusterSet (ruleFam r))
           in [ExPayloadLoad 1 PayloadBaseNetworkHeader offset len, ExLookup 1 None (fst m) (snd m) True]
      else [])"

definition flowMatches :: "(32 word \<Rightarrow> bytes) \<Rightarrow> Rule \<Rightarrow> Expr list" where
  "flowMatches native r =
     (if selProto (rlPort r) \<noteq> []
      then [ExMeta MetaKeyL4PROTO False 1, ExCmp CmpOpEq 1 [protoNum (selProto (rlPort r))]] @ portMatch (rlPort r) (rlPortIsSrc r)
      else []) @
     (case rlCtDir r of CtDirAny \<Rightarrow> [] | CtDirOriginal \<Rightarrow> ctDirExprs 0 | CtDirReply \<Rightarrow> ctDirExprs 1) @
     (if rlCtMark r \<noteq> 0 then [ExCt CtKeyMARK False 1, ExCmp CmpOpEq 1 (native (rlCtMark r))] else []) @
     (if rlKind r = KindCount then ctStatusDNATExprs native else [])"

definition statement :: "(32 word \<Rightarrow> bytes) \<Rightarrow> Rule \<Rightarrow> Expr list" where
  "statement native r =
     (case rlKind r of
        KindDNAT \<Rightarrow> dnatExprs (rlToAddr r) (rlPort r) (rlToPort r)
      | KindSNAT \<Rightarrow> snatIdentityExprs (ruleFam r)
      | KindMark \<Rightarrow> markExprs native (rlMark r)
      | KindCtSave \<Rightarrow> ctSaveExprs native (rlMark r)
      | KindCtLoad \<Rightarrow> ctLoadExprs
      | KindMasq \<Rightarrow> [ExMasq]
      | _ \<Rightarrow> [])"

definition nftExprs :: "(32 word \<Rightarrow> bytes) \<Rightarrow> (string \<rightharpoonup> nat) \<Rightarrow> Rule \<Rightarrow> Expr list" where
  "nftExprs native sets r =
     (if rlKind r = KindMSS then headerMatches sets r @ mssExprs
      else if rlKind r = KindSteer
      then headerMatches sets r @ flowMatches native r @ steerExprs (ruleFam r) (lookupSet sets (steerMap (ruleFam r))) @ [ExCounter 0 0]
      else headerMatches sets r @ flowMatches native r @ [ExCounter 0 0] @ statement native r)"

section \<open>The transaction\<close>

datatype ChainType = ChainTypeFilter | ChainTypeNAT
datatype Hook = ChainHookPrerouting | ChainHookForward | ChainHookPostrouting
datatype TableFamily = TableFamilyINet | TableFamilyIPv4

record NftTable =
  ntName :: string
  ntFamily :: TableFamily

record NftChain =
  ncName :: string
  ncType :: ChainType
  ncHook :: Hook
  ncPriority :: int

definition nftTable :: NftTable where
  "nftTable = \<lparr>ntName = TableName, ntFamily = TableFamilyINet\<rparr>"

definition legacyTable :: NftTable where
  "legacyTable = \<lparr>ntName = TableName, ntFamily = TableFamilyIPv4\<rparr>"

text \<open>The kernel's priorities: dstnat is -100, srcnat 100, mangle -150 and filter 0.\<close>

definition nftChains :: "NftChain list" where
  "nftChains =
     [\<lparr>ncName = ChainSteer, ncType = ChainTypeFilter, ncHook = ChainHookPrerouting, ncPriority = -100 - 20\<rparr>,
      \<lparr>ncName = ChainPre, ncType = ChainTypeNAT, ncHook = ChainHookPrerouting, ncPriority = -100 - 20\<rparr>,
      \<lparr>ncName = ChainPost, ncType = ChainTypeNAT, ncHook = ChainHookPostrouting, ncPriority = 100 - 10\<rparr>,
      \<lparr>ncName = ChainMangle, ncType = ChainTypeFilter, ncHook = ChainHookPrerouting, ncPriority = -150 + 10\<rparr>,
      \<lparr>ncName = ChainEgress, ncType = ChainTypeFilter, ncHook = ChainHookPrerouting, ncPriority = -100 + 10\<rparr>,
      \<lparr>ncName = ChainMSS, ncType = ChainTypeFilter, ncHook = ChainHookForward, ncPriority = -150\<rparr>,
      \<lparr>ncName = ChainCount, ncType = ChainTypeFilter, ncHook = ChainHookPostrouting, ncPriority = 0\<rparr>]"

datatype NFTOp =
  AddTable NftTable
| DelTable NftTable
| AddSet NftSet "SetElement list"
| AddChain NftChain
| AddRule string "Expr list"

definition delTable :: "NftTable \<Rightarrow> NFTOp list" where
  "delTable t = [AddTable t, DelTable t]"

text \<open>
  Adding the sets: \<open>addSet\<close> is the connection's answer, an error or the ID the set got. The result
  is the error, or the operations staged and the sets by name.
\<close>

fun addSets ::
  "(NftSet \<Rightarrow> SetElement list \<Rightarrow> string + nat) \<Rightarrow> (NftSet \<times> SetElement list) list \<Rightarrow> (string \<rightharpoonup> nat) \<Rightarrow>
   string + NFTOp list \<times> (string \<rightharpoonup> nat)" where
  "addSets addSet [] sets = Inr ([], sets)"
| "addSets addSet ((t, elems) # ms) sets =
     (case addSet t elems of
        Inl e \<Rightarrow> Inl (''add map '' @ nsName t @ '': '' @ e)
      | Inr i \<Rightarrow> (case addSets addSet ms (sets(nsName t \<mapsto> i)) of
                   Inl e \<Rightarrow> Inl e
                 | Inr (ops, sets') \<Rightarrow> Inr (AddSet t elems # ops, sets')))"

text \<open>\<open>flush\<close> is the kernel's answer to the staged transaction: \<^term>\<open>None\<close> when it was committed.\<close>

definition applyNFT ::
  "(32 word \<Rightarrow> bytes) \<Rightarrow> (NftSet \<Rightarrow> SetElement list \<Rightarrow> string + nat) \<Rightarrow> (NFTOp list \<Rightarrow> string option) \<Rightarrow> Plan \<Rightarrow>
   string + NFTOp list" where
  "applyNFT native addSet flush plan =
     (case addSets addSet (nftMaps (plSteer plan) @ nftClusterSets (plCluster plan)) Map.empty of
        Inl e \<Rightarrow> Inl e
      | Inr (setOps, sets) \<Rightarrow>
          (let ops = delTable legacyTable @ delTable nftTable @ [AddTable nftTable] @ setOps @ map AddChain nftChains
                     @ map (\<lambda>r. AddRule (rlChain r) (nftExprs native sets r)) (plRules plan)
           in case flush ops of Some e \<Rightarrow> Inl e | None \<Rightarrow> Inr ops))"

definition teardownNFT :: "(NFTOp list \<Rightarrow> string option) \<Rightarrow> string + NFTOp list" where
  "teardownNFT flush =
     (let ops = delTable legacyTable @ delTable nftTable in case flush ops of Some e \<Rightarrow> Inl e | None \<Rightarrow> Inr ops)"

end
