(* ===== verification/Netlink.thy ===== *)
theory Netlink
  imports Nft
begin

text \<open>
  Making the host match a plan (\<open>datapath/netlink.go\<close>, \<open>datapath/apply.go\<close>). The netlink handle and
  the host behind it are parameters: \<open>'k\<close> is the host's network state and a record holds the calls of
  the interface \<open>NetlinkConn\<close> on it. A call that changes the host returns the new state and perhaps an
  error; a call that reads returns an error or a value. The loops stop at the first error, with the
  host as it is by then.
\<close>

unbundle bit_operations_syntax

section \<open>The handle\<close>

text \<open>An error and whether it is, or wraps, EAFNOSUPPORT.\<close>

record NLErr =
  errText :: string
  errNoFamily :: bool

record IPNet =
  ipnAddr :: addr
  ipnBits :: nat

record NLAddr =
  naNet :: "IPNet option"

record underlay =
  ulLocal :: "addr option"
  ulRemote :: "addr option"
  ulVNI :: int
  ulPort :: int

text \<open>A device; only a VXLAN has an underlay.\<close>

record NLLink =
  nlName :: string
  nlIndex :: int
  nlMTU :: int
  nlUp :: bool
  nlVxlan :: "underlay option"

record NLRule =
  nuPriority :: int
  nuMark :: "32 word"
  nuTable :: int
  nuFamily :: Family
  nuSuppressPrefixlen :: int
  nuDst :: "IPNet option"

record NLRoute =
  noTable :: int
  noGw :: "addr option"
  noLinkIndex :: int
  noFamily :: Family
  noBlackhole :: bool
  noDst :: "IPNet option"

type_synonym 'k nlop = "'k \<Rightarrow> 'k \<times> NLErr option"

text \<open>
  The calls of \<open>NetlinkConn\<close>. Adding a link fills in the index of the object passed. Setting the
  underlay of a live device is the optional capability \<open>underlaySetter\<close>. Routes are listed by table or
  by device. \<open>netlink.ParseAddr\<close> is the library's parser.
\<close>

record 'k NetlinkConn =
  LinkByName :: "string \<Rightarrow> 'k \<Rightarrow> NLErr + NLLink"
  LinkList :: "'k \<Rightarrow> NLErr + NLLink list"
  LinkAdd :: "NLLink \<Rightarrow> 'k \<Rightarrow> 'k \<times> (NLErr + NLLink)"
  LinkDel :: "NLLink \<Rightarrow> 'k nlop"
  LinkSetUp :: "NLLink \<Rightarrow> 'k nlop"
  LinkSetMTU :: "NLLink \<Rightarrow> int \<Rightarrow> 'k nlop"
  LinkSetUnderlay :: "(int \<Rightarrow> string \<Rightarrow> addr option \<Rightarrow> addr option \<Rightarrow> 'k nlop) option"
  AddrAdd :: "NLLink \<Rightarrow> NLAddr \<Rightarrow> 'k nlop"
  AddrDel :: "NLLink \<Rightarrow> NLAddr \<Rightarrow> 'k nlop"
  AddrList :: "NLLink \<Rightarrow> Family option \<Rightarrow> 'k \<Rightarrow> NLErr + NLAddr list"
  RuleAdd :: "NLRule \<Rightarrow> 'k nlop"
  RuleDel :: "NLRule \<Rightarrow> 'k nlop"
  RuleList :: "Family \<Rightarrow> 'k \<Rightarrow> NLErr + NLRule list"
  RouteAdd :: "NLRoute \<Rightarrow> 'k nlop"
  RouteDel :: "NLRoute \<Rightarrow> 'k nlop"
  RoutesInTable :: "Family \<Rightarrow> int \<Rightarrow> 'k \<Rightarrow> NLErr + NLRoute list"
  RoutesOnLink :: "Family \<Rightarrow> int \<Rightarrow> 'k \<Rightarrow> NLErr + NLRoute list"
  ParseAddr :: "string \<Rightarrow> NLErr + NLAddr"

section \<open>Sequences of calls\<close>

definition ok :: "'k nlop" where
  "ok k = (k, None)"

definition failWith :: "NLErr \<Rightarrow> 'k nlop" where
  "failWith e k = (k, Some e)"

definition thenDo :: "'k nlop \<Rightarrow> 'k nlop \<Rightarrow> 'k nlop" where
  "thenDo f g k = (case f k of (k', None) \<Rightarrow> g k' | (k', Some e) \<Rightarrow> (k', Some e))"

fun eachDo :: "('a \<Rightarrow> 'k nlop) \<Rightarrow> 'a list \<Rightarrow> 'k nlop" where
  "eachDo f [] k = (k, None)"
| "eachDo f (x # xs) k = thenDo (f x) (eachDo f xs) k"

definition reads :: "('k \<Rightarrow> NLErr + 'a) \<Rightarrow> ('a \<Rightarrow> 'k nlop) \<Rightarrow> 'k nlop" where
  "reads r f k = (case r k of Inl e \<Rightarrow> (k, Some e) | Inr x \<Rightarrow> f x k)"

text \<open>\<open>fmt.Errorf\<close> with \<open>%w\<close> at the end.\<close>

definition wrapping :: "string \<Rightarrow> NLErr \<Rightarrow> NLErr" where
  "wrapping msg e = e\<lparr>errText := msg @ errText e\<rparr>"

definition onError :: "(NLErr \<Rightarrow> NLErr) \<Rightarrow> 'k nlop \<Rightarrow> 'k nlop" where
  "onError w f k = (case f k of (k', None) \<Rightarrow> (k', None) | (k', Some e) \<Rightarrow> (k', Some (w e)))"

section \<open>Reading interfaces\<close>

definition linkPrefix :: string where [const_defs]: "linkPrefix = ''kup-''"

definition hasPrefix :: "string \<Rightarrow> string \<Rightarrow> bool" where
  "hasPrefix pre s \<longleftrightarrow> take (length pre) s = pre"

text \<open>\<open>netip.AddrFromSlice\<close> fails only on a slice that is no address; such an entry is skipped.\<close>

definition InterfaceAddrs :: "'k NetlinkConn \<Rightarrow> string \<Rightarrow> 'k \<Rightarrow> NLErr + addr list" where
  "InterfaceAddrs nl name k =
     (case LinkByName nl name k of
        Inl e \<Rightarrow> Inl e
      | Inr l \<Rightarrow> (case AddrList nl l None k of
          Inl e \<Rightarrow> Inl e
        | Inr as \<Rightarrow> Inr (map (unmapAddr \<circ> ipnAddr) (List.map_filter naNet as))))"

definition InterfaceMTU :: "'k NetlinkConn \<Rightarrow> string \<Rightarrow> 'k \<Rightarrow> NLErr + int" where
  "InterfaceMTU nl name k = (case LinkByName nl name k of Inl e \<Rightarrow> Inl e | Inr l \<Rightarrow> Inr (nlMTU l))"

section \<open>Links\<close>

datatype linkAction = linkKeep | linkRetarget | linkRebuild

definition underlayOf :: "NLLink \<Rightarrow> underlay option" where
  "underlayOf l = nlVxlan l"

text \<open>An endpoint the kernel does not report is absent, not an address.\<close>

definition unmap :: "addr option \<Rightarrow> addr option" where
  "unmap ip = map_option unmapAddr ip"

definition linkActionFor :: "NLLink \<Rightarrow> Link \<Rightarrow> linkAction" where
  "linkActionFor l want =
     (case underlayOf l of
        None \<Rightarrow> linkRebuild
      | Some u \<Rightarrow>
          (case (unmap (ulLocal u), unmap (ulRemote u)) of
             (Some la, Some ra) \<Rightarrow>
               (let wantLocal = unmapAddr (lnLocalAddr want); wantRemote = unmapAddr (lnRemoteAddr want)
                in if la \<noteq> wantLocal \<or> ra \<noteq> wantRemote then
                     (if is4 la \<noteq> is4 wantLocal \<or> is4 ra \<noteq> is4 wantRemote then linkRebuild else linkRetarget)
                   else if ulVNI u \<noteq> uint (lnVNI want) \<or> ulPort u \<noteq> uint (lnPort want) then linkRebuild
                   else linkKeep)
           | _ \<Rightarrow> linkRebuild))"

text \<open>\<open>Addr.AsSlice\<close>: the address without its zone, nothing for the zero address.\<close>

definition asSlice :: "addr \<Rightarrow> addr option" where
  "asSlice a = (if addrIsValid a then Some (withoutZone a) else None)"

definition vxlanFor :: "Link \<Rightarrow> NLLink" where
  "vxlanFor l =
     \<lparr>nlName = lnName l, nlIndex = 0, nlMTU = uint (lnMTU l), nlUp = False,
      nlVxlan = Some \<lparr>ulLocal = asSlice (lnLocalAddr l), ulRemote = asSlice (lnRemoteAddr l),
                      ulVNI = uint (lnVNI l), ulPort = uint (lnPort l)\<rparr>\<rparr>"

definition vxlanHolders :: "'k NetlinkConn \<Rightarrow> Link \<Rightarrow> 'k \<Rightarrow> string" where
  "vxlanHolders nl want k =
     (case LinkList nl k of
        Inl _ \<Rightarrow> []
      | Inr all \<Rightarrow>
          (let vxlans = List.map_filter (\<lambda>l. map_option (\<lambda>u. (l, u)) (underlayOf l)) all;
               desc = (\<lambda>(l, u). nlName l @ '' (vni '' @ itoa (ulVNI u) @ '', port '' @ itoa (ulPort u) @ '')'');
               isClash = (\<lambda>(l, u). ulVNI u = uint (lnVNI want) \<and> ulPort u = uint (lnPort want));
               clash = map desc (filter isClash vxlans);
               other = map desc (filter (\<lambda>x. \<not> isClash x) vxlans);
               what = ''vni '' @ itoa (uint (lnVNI want)) @ '' on port '' @ itoa (uint (lnPort want))
           in if clash \<noteq> [] then ''; '' @ what @ '' is already held by '' @ joinText '', '' clash
              else if other \<noteq> [] then ''; no device holds '' @ what @ '', other vxlan devices here: '' @ joinText '', '' other
              else ''; no vxlan device is present on this node, so '' @ what
                   @ '' is held by something the link dump does not report''))"

definition linkText :: "Link \<Rightarrow> string" where
  "linkText l =
     lnName l @ '' (vni '' @ itoa (uint (lnVNI l)) @ '', port '' @ itoa (uint (lnPort l)) @ '', '' @ addrText (lnLocalAddr l)
     @ '' to '' @ addrText (lnRemoteAddr l) @ '')''"

text \<open>\<open>net.IPNet.String\<close>: a mapped IPv4 address is printed as IPv4, with the mask's last four bytes.\<close>

definition ipNetText :: "IPNet \<Rightarrow> string" where
  "ipNetText n =
     addrText (unmapAddr (ipnAddr n)) @ ''/''
     @ itoa (int (if is4In6 (ipnAddr n) then ipnBits n - 96 else ipnBits n))"

definition addrPresent :: "NLAddr list \<Rightarrow> NLAddr \<Rightarrow> bool" where
  "addrPresent has want =
     list_ex (\<lambda>h. case (naNet h, naNet want) of (Some a, Some b) \<Rightarrow> ipNetText a = ipNetText b | _ \<Rightarrow> False) has"

text \<open>\<open>net.IP.IsLinkLocalUnicast\<close>: 169.254.0.0/16 and fe80::/10.\<close>

definition isLinkLocalUnicast :: "addr \<Rightarrow> bool" where
  "isLinkLocalUnicast a =
     (case unmapAddr a of
        V4 w \<Rightarrow> drop_bit 16 w = 0xa9fe
      | V6 w _ \<Rightarrow> drop_bit 118 w = 0x3fa
      | AddrZero \<Rightarrow> False)"

definition ipv6Absent :: "NLErr \<Rightarrow> bool" where
  "ipv6Absent e = errNoFamily e"

definition staleAddr6 :: "NLAddr option \<Rightarrow> NLAddr \<Rightarrow> bool" where
  "staleAddr6 want a =
     (case naNet a of
        None \<Rightarrow> False
      | Some n \<Rightarrow> \<not> isLinkLocalUnicast (ipnAddr n) \<and>
          (case want of Some w \<Rightarrow> map_option ipNetText (naNet w) \<noteq> Some (ipNetText n) | None \<Rightarrow> True))"

definition addr6Name :: "NLAddr \<Rightarrow> string" where
  "addr6Name a = (case naNet a of Some n \<Rightarrow> ipNetText n | None \<Rightarrow> [])"

definition applyLinkAddr6 :: "'k NetlinkConn \<Rightarrow> NLLink \<Rightarrow> Link \<Rightarrow> 'k nlop" where
  "applyLinkAddr6 nl link l k =
     (case AddrList nl link (Some FamilyIPv6) k of
        Inl e \<Rightarrow> if \<not> prefixIsValid (lnLinkAddr6 l) \<and> ipv6Absent e then (k, None) else (k, Some e)
      | Inr has \<Rightarrow>
          (case (if prefixIsValid (lnLinkAddr6 l)
                 then (case ParseAddr nl (prefixText (lnLinkAddr6 l)) of Inl e \<Rightarrow> Inl e | Inr w \<Rightarrow> Inr (Some w))
                 else Inr None) of
             Inl e \<Rightarrow> (k, Some e)
           | Inr want \<Rightarrow>
               thenDo
                 (eachDo (\<lambda>a. if staleAddr6 want a
                     then onError (wrapping (''remove stale address '' @ addr6Name a @ '' from link '' @ lnName l @ '': ''))
                            (AddrDel nl link a)
                     else ok) has)
                 (case want of
                    Some w \<Rightarrow> if addrPresent has w then ok
                      else onError (wrapping (''address '' @ prefixText (lnLinkAddr6 l) @ '' on link '' @ lnName l @ '': ''))
                             (AddrAdd nl link w)
                  | None \<Rightarrow> ok) k))"

text \<open>
  One device brought to its plan: the device itself first (created, kept, retargeted or rebuilt),
  then its IPv4 address, its MTU, its IPv6 address, and up.
\<close>

definition createLink :: "'k NetlinkConn \<Rightarrow> (NLErr \<Rightarrow> 'k \<Rightarrow> NLErr) \<Rightarrow> Link \<Rightarrow> 'k \<Rightarrow> 'k \<times> (NLErr + NLLink)" where
  "createLink nl wrap l k =
     (case LinkAdd nl (vxlanFor l) k of
        (k', Inl e) \<Rightarrow> (k', Inl (wrap e k'))
      | (k', Inr v) \<Rightarrow> (k', Inr v))"

definition rebuildLink :: "'k NetlinkConn \<Rightarrow> NLLink \<Rightarrow> Link \<Rightarrow> 'k \<Rightarrow> 'k \<times> (NLErr + NLLink)" where
  "rebuildLink nl existing l k =
     (case LinkDel nl existing k of
        (k', Some e) \<Rightarrow> (k', Inl (wrapping (''rebuild link '' @ lnName l @ '', delete: '') e))
      | (k', None) \<Rightarrow> createLink nl (\<lambda>e _. wrapping (''rebuild link '' @ linkText l @ '': '') e) l k')"

definition ensureLink :: "'k NetlinkConn \<Rightarrow> Link \<Rightarrow> 'k \<Rightarrow> 'k \<times> (NLErr + NLLink)" where
  "ensureLink nl l k =
     (case LinkByName nl (lnName l) k of
        Inl _ \<Rightarrow>
          createLink nl (\<lambda>e k'. e\<lparr>errText := ''create link '' @ linkText l @ '': '' @ errText e @ vxlanHolders nl l k'\<rparr>) l k
      | Inr existing \<Rightarrow>
          (case linkActionFor existing l of
             linkKeep \<Rightarrow> (k, Inr existing)
           | linkRetarget \<Rightarrow>
               (case LinkSetUnderlay nl of
                  Some set_ \<Rightarrow>
                    (case set_ (nlIndex existing) (lnName l) (asSlice (lnLocalAddr l)) (asSlice (lnRemoteAddr l)) k of
                       (k', None) \<Rightarrow> (k', Inr existing) | (k', Some e) \<Rightarrow> (k', Inl e))
                | None \<Rightarrow> rebuildLink nl existing l k)
           | linkRebuild \<Rightarrow> rebuildLink nl existing l k))"

definition dressLink :: "'k NetlinkConn \<Rightarrow> Link \<Rightarrow> NLLink \<Rightarrow> 'k nlop" where
  "dressLink nl l existing =
     reads (\<lambda>_. ParseAddr nl (prefixText (lnLinkAddr l))) (\<lambda>addr.
     reads (AddrList nl existing (Some FamilyIPv4)) (\<lambda>has.
       thenDo (if addrPresent has addr then ok
               else onError (wrapping (''address '' @ prefixText (lnLinkAddr l) @ '' on link '' @ lnName l @ '': '')) (AddrAdd nl existing addr))
      (thenDo (if 0 < lnMTU l \<and> nlMTU existing \<noteq> uint (lnMTU l)
               then onError (wrapping (''set mtu '' @ itoa (uint (lnMTU l)) @ '' on link '' @ lnName l @ '': ''))
                      (LinkSetMTU nl existing (uint (lnMTU l))) else ok)
      (thenDo (applyLinkAddr6 nl existing l)
              (if nlUp existing then ok
               else onError (wrapping (''bring link '' @ lnName l @ '' up: '')) (LinkSetUp nl existing))))))"

definition applyLink :: "'k NetlinkConn \<Rightarrow> Link \<Rightarrow> 'k nlop" where
  "applyLink nl l k =
     (case ensureLink nl l k of (k', Inl e) \<Rightarrow> (k', Some e) | (k', Inr existing) \<Rightarrow> dressLink nl l existing k')"

definition applyLinks :: "'k NetlinkConn \<Rightarrow> Link list \<Rightarrow> 'k nlop" where
  "applyLinks nl links =
     thenDo (eachDo (applyLink nl) links)
       (reads (LinkList nl) (eachDo (\<lambda>l.
          if hasPrefix linkPrefix (nlName l) \<and> nlName l \<notin> lnName ` set links then LinkDel nl l else ok)))"

section \<open>Rules\<close>

definition families :: "Family list" where [const_defs]: "families = [FamilyIPv4, FamilyIPv6]"

definition familyName :: "Family \<Rightarrow> string" where
  "familyName f = (if f = FamilyIPv6 then ''ipv6'' else ''ipv4'')"

definition toNLRule :: "IPRule \<Rightarrow> NLRule" where
  "toNLRule r =
     \<lparr>nuPriority = uint (irPref r), nuMark = irMark r, nuTable = uint (irTable r), nuFamily = irFamily r,
      nuSuppressPrefixlen = (if irSuppressDefault r then 0 else -1),
      nuDst = map_option (\<lambda>p. \<lparr>ipnAddr = pfxAddr p, ipnBits = nat (prefixBits p)\<rparr>) (irTo r)\<rparr>"

definition suppressed :: "NLRule \<Rightarrow> bool" where
  "suppressed r \<longleftrightarrow> nuSuppressPrefixlen r = 0"

definition ipNetEqual :: "IPNet option \<Rightarrow> IPNet option \<Rightarrow> bool" where
  "ipNetEqual a b = (map_option ipNetText a = map_option ipNetText b)"

definition ruleEqual :: "NLRule \<Rightarrow> NLRule \<Rightarrow> bool" where
  "ruleEqual a b \<longleftrightarrow>
     nuPriority a = nuPriority b \<and> nuMark a = nuMark b \<and> nuTable a = nuTable b \<and> suppressed a = suppressed b \<and>
     ipNetEqual (nuDst a) (nuDst b)"

definition ruleListed :: "NLRule list \<Rightarrow> NLRule \<Rightarrow> bool" where
  "ruleListed rs want = list_ex (\<lambda>r. ruleEqual r want) rs"

definition ruleWanted :: "NLRule list \<Rightarrow> NLRule \<Rightarrow> bool" where
  "ruleWanted desired has = list_ex (\<lambda>d. ruleEqual d has) desired"

definition ownedRule :: "NLRule \<Rightarrow> bool" where
  "ownedRule r \<longleftrightarrow> nuMark r AND ownedMarkMask = ownedMarkValue"

definition ruleText :: "Family \<Rightarrow> NLRule \<Rightarrow> string" where
  "ruleText fam d =
     ''add '' @ familyName fam @ '' rule pref '' @ itoa (nuPriority d) @ '' mark 0x'' @ hexText (unat (nuMark d))
     @ '' table '' @ itoa (nuTable d) @ '': ''"

definition applyRulesIn :: "'k NetlinkConn \<Rightarrow> IPRule list \<Rightarrow> Family \<Rightarrow> 'k nlop" where
  "applyRulesIn nl rules fam k =
     (let desired = map toNLRule (filter (\<lambda>r. irFamily r = fam) rules)
      in case RuleList nl fam k of
           Inl e \<Rightarrow> if desired = [] \<and> ipv6Absent e then (k, None) else (k, Some e)
         | Inr existing \<Rightarrow>
             thenDo
               (eachDo (\<lambda>d. if ruleListed existing d then ok else onError (wrapping (ruleText fam d)) (RuleAdd nl d)) desired)
               (eachDo (\<lambda>e. if \<not> ownedRule e then ok else if \<not> ruleWanted desired e then RuleDel nl e else ok) existing) k)"

definition applyRules :: "'k NetlinkConn \<Rightarrow> IPRule list \<Rightarrow> 'k nlop" where
  "applyRules nl rules = eachDo (applyRulesIn nl rules) families"

section \<open>Routes\<close>

definition toNLRoute :: "'k NetlinkConn \<Rightarrow> Route \<Rightarrow> 'k \<Rightarrow> NLErr + NLRoute" where
  "toNLRoute nl r k =
     (if rtBlackhole r then
        Inr \<lparr>noTable = uint (rtTable r), noGw = None, noLinkIndex = 0, noFamily = routeFamily r, noBlackhole = True,
             noDst = Some (if routeFamily r = FamilyIPv6 then \<lparr>ipnAddr = V6 0 [], ipnBits = 0\<rparr>
                           else \<lparr>ipnAddr = V4 0, ipnBits = 0\<rparr>)\<rparr>
      else case LinkByName nl (rtDev r) k of
             Inl e \<Rightarrow> Inl e
           | Inr link \<Rightarrow>
               Inr \<lparr>noTable = uint (rtTable r), noGw = asSlice (rtVia r),
                    noLinkIndex = nlIndex link, noFamily = routeFamily r, noBlackhole = False, noDst = None\<rparr>)"

text \<open>\<open>net.IP.Equal\<close> takes an IPv4 address and its mapped form as equal.\<close>

definition routeEqual :: "NLRoute \<Rightarrow> NLRoute \<Rightarrow> bool" where
  "routeEqual a b =
     (if noBlackhole a \<or> noBlackhole b then noBlackhole a = noBlackhole b \<and> noTable a = noTable b
      else noTable a = noTable b \<and> noLinkIndex a = noLinkIndex b \<and>
        map_option unmapAddr (noGw a) = map_option unmapAddr (noGw b))"

definition routeListed :: "NLRoute list \<Rightarrow> NLRoute \<Rightarrow> bool" where
  "routeListed rs want = list_ex (\<lambda>r. routeEqual r want) rs"

definition routeWanted :: "NLRoute list \<Rightarrow> NLRoute \<Rightarrow> bool" where
  "routeWanted desired has = list_ex (\<lambda>d. routeEqual d has) desired"

fun resolveRoutes :: "'k NetlinkConn \<Rightarrow> Route list \<Rightarrow> 'k \<Rightarrow> NLErr + (Route \<times> NLRoute) list" where
  "resolveRoutes nl [] k = Inr []"
| "resolveRoutes nl (r # rs) k =
     (case toNLRoute nl r k of
        Inl e \<Rightarrow> Inl e
      | Inr n \<Rightarrow> (case resolveRoutes nl rs k of Inl e \<Rightarrow> Inl e | Inr ns \<Rightarrow> Inr ((r, n) # ns)))"

text \<open>The tables in the order the plan first names them, after the blocked table.\<close>

definition planTables :: "Route list \<Rightarrow> 32 word list" where
  "planTables routes =
     foldl (\<lambda>ts r. if rtTable r \<in> set ts then ts else ts @ [rtTable r]) [EgressBlockedTable] routes"

definition routeText :: "Family \<Rightarrow> 32 word \<Rightarrow> NLRoute \<Rightarrow> string" where
  "routeText fam table d =
     ''add '' @ familyName fam @ '' route in table '' @ itoa (uint table) @ '' via ''
     @ (case noGw d of Some a \<Rightarrow> addrText (unmapAddr a) | None \<Rightarrow> ''<nil>'') @ '' dev index '' @ itoa (noLinkIndex d) @ '': ''"

definition applyRoutesIn :: "'k NetlinkConn \<Rightarrow> NLRoute list \<Rightarrow> 32 word \<Rightarrow> Family \<Rightarrow> 'k nlop" where
  "applyRoutesIn nl desired table fam k =
     (case RoutesInTable nl fam (uint table) k of
        Inl e \<Rightarrow> if desired = [] \<and> ipv6Absent e then (k, None) else (k, Some e)
      | Inr existing \<Rightarrow>
          thenDo
            (eachDo (\<lambda>d. if routeListed existing d then ok else onError (wrapping (routeText fam table d)) (RouteAdd nl d)) desired)
            (eachDo (\<lambda>e. if \<not> routeWanted desired e then RouteDel nl e else ok) existing) k)"

definition routesFor :: "(Route \<times> NLRoute) list \<Rightarrow> 32 word \<Rightarrow> Family \<Rightarrow> NLRoute list" where
  "routesFor rs table fam = map snd (filter (\<lambda>(r, _). rtTable r = table \<and> routeFamily r = fam) rs)"

definition applyRoutes :: "'k NetlinkConn \<Rightarrow> Route list \<Rightarrow> 'k nlop" where
  "applyRoutes nl routes =
     reads (resolveRoutes nl routes) (\<lambda>rs.
       eachDo (\<lambda>table. eachDo (\<lambda>fam. applyRoutesIn nl (routesFor rs table fam) table fam) families) (planTables routes))"

section \<open>Teardown\<close>

text \<open>Listing that a kernel without the family refuses is skipped.\<close>

definition readsFamily :: "('k \<Rightarrow> NLErr + 'a) \<Rightarrow> ('a \<Rightarrow> 'k nlop) \<Rightarrow> 'k nlop" where
  "readsFamily r f k = (case r k of Inl e \<Rightarrow> if ipv6Absent e then (k, None) else (k, Some e) | Inr x \<Rightarrow> f x k)"

definition dropLink :: "'k NetlinkConn \<Rightarrow> NLLink \<Rightarrow> 'k nlop" where
  "dropLink nl l =
     (if \<not> hasPrefix linkPrefix (nlName l) then ok
      else thenDo (eachDo (\<lambda>fam. readsFamily (RoutesOnLink nl fam (nlIndex l)) (eachDo (RouteDel nl))) families) (LinkDel nl l))"

definition dropFamily :: "'k NetlinkConn \<Rightarrow> Family \<Rightarrow> 'k nlop" where
  "dropFamily nl fam =
     readsFamily (RuleList nl fam) (\<lambda>rules.
       thenDo (eachDo (\<lambda>r. if ownedRule r then RuleDel nl r else ok) rules)
         (readsFamily (RoutesInTable nl fam (uint EgressBlockedTable)) (eachDo (RouteDel nl))))"

definition teardownNetlink :: "'k NetlinkConn \<Rightarrow> 'k nlop" where
  "teardownNetlink nl = thenDo (reads (LinkList nl) (eachDo (dropLink nl))) (eachDo (dropFamily nl) families)"

section \<open>Apply\<close>

text \<open>
  The host as a whole: its netlink state and the nftables transactions committed so far. \<open>ctxErr\<close> is
  the error of a context that is done.
\<close>

record 'k Host =
  hsNet :: 'k
  hsNft :: "NFTOp list list"

definition onNet :: "'k nlop \<Rightarrow> 'k Host nlop" where
  "onNet f h = (case f (hsNet h) of (k, e) \<Rightarrow> (h\<lparr>hsNet := k\<rparr>, e))"

definition onNft :: "(string + NFTOp list) \<Rightarrow> 'k Host nlop" where
  "onNft r h =
     (case r of
        Inl e \<Rightarrow> (h, Some \<lparr>errText = e, errNoFamily = False\<rparr>)
      | Inr ops \<Rightarrow> (h\<lparr>hsNft := hsNft h @ [ops]\<rparr>, None))"

definition Apply ::
  "NLErr option \<Rightarrow> (32 word \<Rightarrow> bytes) \<Rightarrow> (NftSet \<Rightarrow> SetElement list \<Rightarrow> string + nat) \<Rightarrow> (NFTOp list \<Rightarrow> string option) \<Rightarrow>
   'k NetlinkConn \<Rightarrow> Plan \<Rightarrow> 'k Host nlop" where
  "Apply ctxErr native addSet flush nl plan =
     (case ctxErr of
        Some e \<Rightarrow> failWith e
      | None \<Rightarrow>
          thenDo (onError (wrapping ''links: '') (onNet (applyLinks nl (plLinks plan))))
         (thenDo (onError (wrapping ''nftables: '') (onNft (applyNFT native addSet flush plan)))
         (thenDo (onError (wrapping ''ip rules: '') (onNet (applyRules nl (plIPRules plan))))
                 (onError (wrapping ''routes: '') (onNet (applyRoutes nl (plRoutes plan)))))))"

definition Teardown :: "NLErr option \<Rightarrow> (NFTOp list \<Rightarrow> string option) \<Rightarrow> 'k NetlinkConn \<Rightarrow> 'k Host nlop" where
  "Teardown ctxErr flush nl =
     (case ctxErr of Some e \<Rightarrow> failWith e | None \<Rightarrow> thenDo (onNet (teardownNetlink nl)) (onNft (teardownNFT flush)))"

end
