(* ===== verification/Agent.thy ===== *)
theory Agent
  imports AgentStatus Netlink
begin

text \<open>
  The agent around the reconcile: what it reads from its host (\<open>agent/hostcheck.go\<close>), the inputs of a
  pass (\<open>agent/inputs.go\<close>), the pass (\<open>agent/agent.go\<close>) and the shutdown (\<open>agent/shutdown.go\<close>). The
  informer cache, procfs and Cilium's ConfigMap are parameters; log lines are left out, and of the
  metrics only the snapshot the agent keeps.
\<close>

section \<open>Questions to the host (hostcheck.go)\<close>

definition ciliumTunnelPort :: int where [const_defs]: "ciliumTunnelPort = 8472"

text \<open>\<open>cm\<close> is the answer for \<open>kube-system/cilium-config\<close>; the result is whether the mode is a tunnel and whether it is known.\<close>

definition TunnelMode :: "APIErr + (string, string) gomap \<Rightarrow> APIErr + bool \<times> bool" where
  "TunnelMode cm =
     (case cm of
        Inl NotFound \<Rightarrow> Inr (False, False)
      | Inl e \<Rightarrow> Inl e
      | Inr cfg \<Rightarrow>
          (case map_of cfg ''routing-mode'' of
             Some mode \<Rightarrow> Inr (mode = ''tunnel'', True)
           | None \<Rightarrow>
               (case map_of cfg ''tunnel'' of
                  Some tunnel \<Rightarrow> Inr (tunnel = ''vxlan'' \<or> tunnel = ''geneve'', True)
                | None \<Rightarrow> Inr (False, False))))"

text \<open>\<open>net.IP.String\<close> prints a mapped address as IPv4.\<close>

definition ipText :: "addr \<Rightarrow> string" where
  "ipText a = addrText (unmapAddr a)"

definition addrIPs :: "NLAddr list \<Rightarrow> addr list" where
  "addrIPs as = List.map_filter (map_option ipnAddr \<circ> naNet) as"

fun underlayMTUOf :: "'k NetlinkConn \<Rightarrow> string \<Rightarrow> NLLink list \<Rightarrow> 'k \<Rightarrow> NLErr + int" where
  "underlayMTUOf nl ip [] k =
     Inl \<lparr>errText = ''no interface bears InternalIP '' @ ip, errNoFamily = False\<rparr>"
| "underlayMTUOf nl ip (l # ls) k =
     (case AddrList nl l (Some FamilyIPv4) k of
        Inl e \<Rightarrow> Inl e
      | Inr as \<Rightarrow> if list_ex (\<lambda>a. ipText a = ip) (addrIPs as) then Inr (nlMTU l)
                  else underlayMTUOf nl ip ls k)"

definition UnderlayMTU :: "'k NetlinkConn \<Rightarrow> string \<Rightarrow> 'k \<Rightarrow> NLErr + int" where
  "UnderlayMTU nl ip k = (case LinkList nl k of Inl e \<Rightarrow> Inl e | Inr ls \<Rightarrow> underlayMTUOf nl ip ls k)"

definition InterfaceAddr :: "'k NetlinkConn \<Rightarrow> string \<Rightarrow> 'k \<Rightarrow> NLErr + string" where
  "InterfaceAddr nl name k =
     (case LinkByName nl name k of
        Inl e \<Rightarrow> Inl e
      | Inr l \<Rightarrow> (case AddrList nl l (Some FamilyIPv4) k of
          Inl e \<Rightarrow> Inl e
        | Inr as \<Rightarrow> (case addrIPs as of
            a # _ \<Rightarrow> Inr (ipText a)
          | [] \<Rightarrow> Inl \<lparr>errText = ''interface '' @ name @ '' has no IPv4 address'', errNoFamily = False\<rparr>)))"

definition globalIPv6 :: "addr \<Rightarrow> bool" where
  "globalIPv6 a \<longleftrightarrow> \<not> is4 (unmapAddr a) \<and> \<not> isLinkLocalUnicast a"

definition InterfaceAddr6 :: "'k NetlinkConn \<Rightarrow> string \<Rightarrow> 'k \<Rightarrow> NLErr + string" where
  "InterfaceAddr6 nl name k =
     (case LinkByName nl name k of
        Inl e \<Rightarrow> Inl e
      | Inr l \<Rightarrow> (case AddrList nl l (Some FamilyIPv6) k of
          Inl e \<Rightarrow> Inl e
        | Inr as \<Rightarrow> (case find globalIPv6 (addrIPs as) of
            Some a \<Rightarrow> Inr (ipText a)
          | None \<Rightarrow> Inl \<lparr>errText = ''interface '' @ name @ '' has no global IPv6 address'', errNoFamily = False\<rparr>)))"

text \<open>\<open>file\<close> is the content of the sysctl's file, or an error. \<open>strings.TrimSpace\<close> on ASCII text.\<close>

definition isSpaceChar :: "char \<Rightarrow> bool" where
  "isSpaceChar c \<longleftrightarrow> c \<in> {CHR 0x09, CHR 0x0a, CHR 0x0b, CHR 0x0c, CHR 0x0d, CHR '' ''}"

definition trimSpace :: "string \<Rightarrow> string" where
  "trimSpace s = rev (dropWhile isSpaceChar (rev (dropWhile isSpaceChar s)))"

definition IPv6Forwarding :: "NLErr + string \<Rightarrow> NLErr + bool" where
  "IPv6Forwarding file = (case file of Inl e \<Rightarrow> Inl e | Inr b \<Rightarrow> Inr (trimSpace b = ''1''))"

text \<open>The address classes of \<open>net/netip\<close>: 127.0.0.0/8 and ::1, 224.0.0.0/4 and ff00::/8, 0.0.0.0 and ::.\<close>

fun isLoopback :: "addr \<Rightarrow> bool" where
  "isLoopback (V4 w) = (drop_bit 24 w = 127)"
| "isLoopback (V6 w _) = (w = 1)"
| "isLoopback AddrZero = False"

fun isMulticast :: "addr \<Rightarrow> bool" where
  "isMulticast (V4 w) = (drop_bit 28 w = 0xe)"
| "isMulticast (V6 w _) = (drop_bit 120 w = 0xff)"
| "isMulticast AddrZero = False"

definition isUnspecified :: "addr \<Rightarrow> bool" where
  "isUnspecified a \<longleftrightarrow> a = V4 0 \<or> a = V6 0 []"

definition dialable :: "addr \<Rightarrow> bool" where
  "dialable a \<longleftrightarrow> \<not> (isLoopback a \<or> isLinkLocalUnicast a \<or> isMulticast a \<or> isUnspecified a)"

definition LocalAddrs :: "'k NetlinkConn \<Rightarrow> 'k \<Rightarrow> NLErr + addr list" where
  "LocalAddrs nl k =
     (case LinkList nl k of
        Inl e \<Rightarrow> Inl e
      | Inr ls \<Rightarrow>
          Inr (concat (map (\<lambda>l. concat (map (\<lambda>fam.
            case AddrList nl l (Some fam) k of
              Inl _ \<Rightarrow> [] | Inr as \<Rightarrow> filter dialable (map unmapAddr (addrIPs as))) [FamilyIPv4, FamilyIPv6])) ls)))"

section \<open>The agent and its inputs (agent.go, inputs.go)\<close>

text \<open>What the node's kernel and the CNI answer, the interface \<open>Host\<close>.\<close>

record hostAnswers =
  haTunnelMode :: "APIErr + bool \<times> bool"
  haCNITunnelPort :: int
  haUnderlayMTU :: "string \<Rightarrow> NLErr + int"
  haInterfaceAddr :: "string \<Rightarrow> NLErr + string"
  haInterfaceAddr6 :: "string \<Rightarrow> NLErr + string"
  haIPv6Forwarding :: "NLErr + bool"
  haLocalAddrs :: "NLErr + addr list"

definition realHost :: "'k NetlinkConn \<Rightarrow> APIErr + (string, string) gomap \<Rightarrow> NLErr + string \<Rightarrow> 'k \<Rightarrow> hostAnswers" where
  "realHost nl cm file k =
     \<lparr>haTunnelMode = TunnelMode cm, haCNITunnelPort = ciliumTunnelPort,
      haUnderlayMTU = (\<lambda>ip. UnderlayMTU nl ip k), haInterfaceAddr = (\<lambda>n. InterfaceAddr nl n k),
      haInterfaceAddr6 = (\<lambda>n. InterfaceAddr6 nl n k), haIPv6Forwarding = IPv6Forwarding file,
      haLocalAddrs = LocalAddrs nl k\<rparr>"

text \<open>The objects in the informer cache.\<close>

record cache =
  caNodes :: "Node list"
  caNamespaces :: "Namespace list"
  caClasses :: "PortMapClass list"
  caPortMaps :: "PortMap list"
  caSlices :: "EndpointSlice list"
  caLinks :: "LinkObj list"
  caEgressClasses :: "EgressClass list"
  caEgresses :: "Egress list"
  caPods :: "Pod list"

record config =
  cfNodeName :: string
  cfLinkPort :: "16 word"
  cfRepair :: int

definition agentLinkPort :: "config \<Rightarrow> 16 word" where
  "agentLinkPort cf = (if cfLinkPort cf \<noteq> 0 then cfLinkPort cf else 4790)"

definition repair :: "config \<Rightarrow> int" where
  "repair cf = (if cfRepair cf \<noteq> 0 then cfRepair cf else 5 * 60 * 1000000000)"

text \<open>An interface that resolves goes into the map; each interface is read once.\<close>

fun resolveInterfaces ::
  "(string \<Rightarrow> NLErr + string) \<Rightarrow> string set \<Rightarrow> string list \<Rightarrow> (string, string) gomap" where
  "resolveInterfaces read seen [] = []"
| "resolveInterfaces read seen (iface # ifs) =
     (if iface \<in> seen then resolveInterfaces read seen ifs
      else (case read iface of
              Inr a \<Rightarrow> (iface, a) # resolveInterfaces read (insert iface seen) ifs
            | Inl _ \<Rightarrow> resolveInterfaces read (insert iface seen) ifs))"

definition nodeInterfaces :: "string \<Rightarrow> PortMapClass list \<Rightarrow> string list" where
  "nodeInterfaces node classes =
     concat (map (\<lambda>c. case map_of (csNodes (pcSpec c)) node of Some ni \<Rightarrow> niInterfaces ni | None \<Rightarrow> []) classes)"

definition localAddrs :: "hostAnswers \<Rightarrow> addr list" where
  "localAddrs host = (case haLocalAddrs host of Inr as \<Rightarrow> as | Inl _ \<Rightarrow> [])"

definition ipv6Forwarding :: "hostAnswers \<Rightarrow> bool" where
  "ipv6Forwarding host = (case haIPv6Forwarding host of Inr on \<Rightarrow> on | Inl _ \<Rightarrow> False)"

definition buildInputs :: "config \<Rightarrow> hostAnswers \<Rightarrow> int \<Rightarrow> APIErr + cache \<Rightarrow> APIErr + Inputs" where
  "buildInputs cf host now listed =
     (case listed of
        Inl e \<Rightarrow> Inl e
      | Inr ca \<Rightarrow>
          Inr \<lparr>inNodeName = cfNodeName cf, inNodes = caNodes ca, inNamespaces = caNamespaces ca, inClasses = caClasses ca,
               inPortMaps = caPortMaps ca, inSlices = caSlices ca, inNow = now, inLinks = caLinks ca,
               inEgressClasses = caEgressClasses ca, inEgresses = caEgresses ca, inPods = caPods ca,
               inLinkPort = agentLinkPort cf,
               inInterfaceAddrs = resolveInterfaces (haInterfaceAddr host) {} (nodeInterfaces (cfNodeName cf) (caClasses ca)),
               inInterfaceAddrs6 = resolveInterfaces (haInterfaceAddr6 host) {} (nodeInterfaces (cfNodeName cf) (caClasses ca)),
               inLocalAddrs = localAddrs host, inIPv6Forwarding = ipv6Forwarding host\<rparr>)"

text \<open>A watch event of a node or a pod starts a pass only when a field the reconcile reads changed.\<close>

definition readyStatus :: "Node \<Rightarrow> CondStatus option" where
  "readyStatus n = map_option snd (find (\<lambda>(t, _). t = NodeReady) (ndConditions n))"

definition nodeChanged :: "Node \<Rightarrow> bool \<Rightarrow> Node \<Rightarrow> bool \<Rightarrow> bool" where
  "nodeChanged a deletedA b deletedB \<longleftrightarrow>
     ndPodCIDRs a \<noteq> ndPodCIDRs b \<or> ndAddresses a \<noteq> ndAddresses b \<or> readyStatus a \<noteq> readyStatus b \<or> deletedA \<noteq> deletedB"

definition podChanged :: "Pod \<Rightarrow> bool \<Rightarrow> Pod \<Rightarrow> bool \<Rightarrow> bool" where
  "podChanged a deletedA b deletedB \<longleftrightarrow>
     omLabels (pdMeta a) \<noteq> omLabels (pdMeta b) \<or> pdNodeName a \<noteq> pdNodeName b \<or> pdPhase a \<noteq> pdPhase b \<or>
     pdPodIPs a \<noteq> pdPodIPs b \<or> deletedA \<noteq> deletedB"

definition internalIPOf :: "Node list \<Rightarrow> string \<Rightarrow> string" where
  "internalIPOf nodes name =
     (case List.map_filter (\<lambda>n. if nodeName n = name
             then map_option snd (find (\<lambda>(t, _). t = NodeInternalIP) (ndAddresses n)) else None) nodes of
        a # _ \<Rightarrow> a | [] \<Rightarrow> [])"

definition gatherHostState :: "config \<Rightarrow> hostAnswers \<Rightarrow> Inputs \<Rightarrow> hostState" where
  "gatherHostState cf host inp =
     (let hs = \<lparr>htTunnelOK = False, htTunnelKnown = False, htCniPort = haCNITunnelPort host,
                htLinkPort = uint (agentLinkPort cf), htUnderlayMTU = 0, htLinkMTU = 0\<rparr>;
          hs1 = (case haTunnelMode host of
                   Inr (okay, True) \<Rightarrow> hs\<lparr>htTunnelOK := okay, htTunnelKnown := True\<rparr> | _ \<Rightarrow> hs);
          ip = internalIPOf (inNodes inp) (cfNodeName cf)
      in if ip = [] then hs1
         else (case haUnderlayMTU host ip of
                 Inl _ \<Rightarrow> hs1 | Inr mtu \<Rightarrow> hs1\<lparr>htUnderlayMTU := mtu, htLinkMTU := LinkMTU mtu\<rparr>))"

section \<open>The pass\<close>

text \<open>The devices a State holds, with their Links (agent/metrics.go).\<close>

record LinkInfo =
  liDevice :: string
  liSlot :: string
  liClass :: string
  liPeer :: string

definition linkInfoOf :: "string set \<Rightarrow> string \<Rightarrow> LinkObj \<Rightarrow> LinkInfo option" where
  "linkInfoOf held node l =
     (if take 5 (linkObjName l) = ''slot-'' then
        (let slot = drop 5 (linkObjName l)
         in if ''kup-'' @ slot \<in> held \<and> node \<in> set (lkPeers (lkSpec l))
            then Some \<lparr>liDevice = ''kup-'' @ slot, liSlot = slot, liClass = lkClassName (lkSpec l),
                       liPeer = (case rev (filter (\<lambda>p. p \<noteq> node) (lkPeers (lkSpec l))) of p # _ \<Rightarrow> p | [] \<Rightarrow> [])\<rparr>
            else None)
      else None)"

definition linkInfos :: "Inputs \<Rightarrow> State \<Rightarrow> string \<Rightarrow> LinkInfo list" where
  "linkInfos inp st node =
     sortBy (\<lambda>a b. liDevice a < liDevice b)
       (List.map_filter (linkInfoOf (lnName ` set (stLinks st)) node) (inLinks inp))"

record Snapshot =
  snIndex :: MetricsIndex
  snDNAT :: "DNATRule list"
  snLinks :: "LinkInfo list"

record Reconciler =
  rcApplied :: "State option"
  rcAppliedAt :: int
  rcKeep :: "State option"
  rcReady :: bool
  rcSnap :: "Snapshot option"

definition KeepState :: "Reconciler \<Rightarrow> State" where
  "KeepState r = (case rcKeep r of Some k \<Rightarrow> k | None \<Rightarrow> emptyState)"

text \<open>The datapath the agent drives, on a host of type \<open>'h\<close>.\<close>

record 'h Datapath =
  dpApply :: "State \<Rightarrow> 'h nlop"
  dpTeardown :: "'h nlop"

text \<open>
  The States compared are results of \<open>Compute\<close>, which only ever appends to nil slices and returns an
  empty one as it is, so \<open>reflect.DeepEqual\<close> on them is equality of their elements.
\<close>

definition applyState :: "config \<Rightarrow> 'h Datapath \<Rightarrow> int \<Rightarrow> State \<Rightarrow> Reconciler \<Rightarrow> 'h \<Rightarrow> Reconciler \<times> 'h \<times> NLErr option" where
  "applyState cf dp now st r h =
     (if rcApplied r = Some st \<and> now - rcAppliedAt r < repair cf then (r, h, None)
      else (case dpApply dp st h of
              (h', Some e) \<Rightarrow> (r\<lparr>rcApplied := None\<rparr>, h', Some e)
            | (h', None) \<Rightarrow> (r\<lparr>rcApplied := Some st, rcAppliedAt := now\<rparr>, h', None)))"

definition recordApply :: "Inputs \<Rightarrow> Result \<Rightarrow> string \<Rightarrow> Reconciler \<Rightarrow> Reconciler" where
  "recordApply inp res node r =
     r\<lparr>rcSnap := Some \<lparr>snIndex = rsMetrics res, snDNAT = stDNAT (rsState res), snLinks = linkInfos inp (rsState res) node\<rparr>\<rparr>"

datatype passError = AssembleInputs APIErr | ApplyDatapath NLErr | WriteStatus APIErr

definition okOption :: "'e + 'a \<Rightarrow> 'a option" where
  "okOption r = (case r of Inr x \<Rightarrow> Some x | Inl _ \<Rightarrow> None)"

definition Reconcile ::
  "selector_fn \<Rightarrow> ('w apiop \<Rightarrow> 'w apiop) \<Rightarrow> 'w APIClient \<Rightarrow> cond_setter \<Rightarrow> config \<Rightarrow> 'h Datapath \<Rightarrow> hostAnswers \<Rightarrow> int \<Rightarrow> APIErr + cache \<Rightarrow>
   Reconciler \<Rightarrow> 'h \<Rightarrow> 'w \<Rightarrow> Reconciler \<times> 'h \<times> 'w \<times> passError option" where
  "Reconcile asSel retry client setCond cf dp host now listed r h w =
     (case buildInputs cf host now listed of
        Inl e \<Rightarrow> (r, h, w, Some (AssembleInputs e))
      | Inr inp \<Rightarrow>
          (let res = Compute asSel inp; r1 = r\<lparr>rcKeep := Some (rsKeep res)\<rparr>
           in case applyState cf dp now (rsState res) r1 h of
                (r2, h', Some e) \<Rightarrow> (r2, h', w, Some (ApplyDatapath e))
              | (r2, h', None) \<Rightarrow>
                  (let r3 = recordApply inp res (cfNodeName cf) r2
                   in case writeStatuses retry client setCond (cfNodeName cf) (okOption \<circ> haInterfaceAddr host)
                             (okOption \<circ> haInterfaceAddr6 host) res (gatherHostState cf host inp) now w of
                        (w', Some e) \<Rightarrow> (r3, h', w', Some (WriteStatus e))
                      | (w', None) \<Rightarrow> (r3\<lparr>rcReady := True\<rparr>, h', w', None))))"

section \<open>Shutdown (shutdown.go)\<close>

text \<open>The production datapath. Folding the counters first, when the agent keeps totals, reads the table and changes only the totals; an error of it does not stop the apply.\<close>

definition HostDatapath ::
  "(32 word \<Rightarrow> bytes) \<Rightarrow> (NftSet \<Rightarrow> SetElement list \<Rightarrow> string + nat) \<Rightarrow> (NFTOp list \<Rightarrow> string option) \<Rightarrow> 'k NetlinkConn \<Rightarrow> 'k Host Datapath" where
  "HostDatapath native addSet flush nl =
     \<lparr>dpApply = (\<lambda>st. Apply None native addSet flush nl (Render st)), dpTeardown = Teardown None flush nl\<rparr>"

text \<open>What runs when the agent is told to stop.\<close>

definition shutdown :: "'h Datapath \<Rightarrow> Reconciler \<Rightarrow> 'h nlop" where
  "shutdown dp r =
     (let keep = KeepState r in if stEgress keep \<noteq> [] then dpApply dp keep else dpTeardown dp)"

end
