(* ===== verification/AgentServer.thy ===== *)
theory AgentServer
  imports AgentStatus
begin

text \<open>
  Many agents write to one API server. A class row is written by an atomic merge into the class as it
  is when the write goes through; the writes to the Link pool are the decisions of the pass, each over
  the version the pass saw, or nothing. A server that numbers its versions meets the laws.
\<close>

section \<open>Rows and conditions\<close>

definition rowsOf :: "string \<Rightarrow> PortMapClass \<Rightarrow> NodeStatus list" where
  "rowsOf n c = filter (\<lambda>r. nsName r = n) (ctNodes (pcStatus c))"

definition forgetClass :: "PortMapClass \<Rightarrow> PortMapClass" where
  "forgetClass c = c\<lparr>pcMeta := (pcMeta c)\<lparr>omResourceVersion := []\<rparr>\<rparr>"

definition forgetLink :: "LinkObj \<Rightarrow> LinkObj" where
  "forgetLink l = l\<lparr>lkMeta := (lkMeta l)\<lparr>omResourceVersion := []\<rparr>\<rparr>"

lemma forgetClass_status: "forgetClass a = forgetClass b \<Longrightarrow> pcStatus a = pcStatus b \<and> pcSpec a = pcSpec b"
  unfolding forgetClass_def by (metis PortMapClass.ext_inject PortMapClass.surjective PortMapClass.update_convs(1))

lemma upsert_other: "n \<noteq> nsName row \<Longrightarrow> filter (\<lambda>r. nsName r = n) (upsertNodeRow rows row) = filter (\<lambda>r. nsName r = n) rows"
  by (induction rows) auto

lemma upsert_own: "find (\<lambda>r. nsName r = nsName row) (upsertNodeRow rows row) = Some row"
  by (induction rows) auto

lemma hostRow_name [simp]: "nsName (hostRow hs row) = nsName row"
  by (simp add: hostRow_def)

lemma classNext_rows:
  "n \<noteq> nsName (ccNode contrib) \<Longrightarrow> rowsOf n (classNext setCond contrib hs now c) = rowsOf n c"
  "nsName (ccNode contrib) \<noteq> [] \<Longrightarrow>
     find (\<lambda>r. nsName r = nsName (ccNode contrib)) (ctNodes (pcStatus (classNext setCond contrib hs now c))) = Some (hostRow hs (ccNode contrib))"
  using upsert_own [of "hostRow hs (ccNode contrib)"] by (simp_all add: rowsOf_def classNext_def upsert_other)

text \<open>A condition that is set leaves those of other types alone; so does a sequence of them.\<close>

lemma foldl_setCond:
  assumes law: "\<And>cs c. filter (\<lambda>x. cdType x \<noteq> cdType c) (setCond cs c) = filter (\<lambda>x. cdType x \<noteq> cdType c) cs"
    and "\<forall>d \<in> set ds. cdType d \<noteq> t"
  shows "filter (\<lambda>c. cdType c = t) (foldl setCond cs ds) = filter (\<lambda>c. cdType c = t) cs"
  using assms(2)
proof (induction ds arbitrary: cs)
  case (Cons d ds)
  have other: "filter (\<lambda>c. cdType c = t) ys = filter (\<lambda>c. cdType c = t) (filter (\<lambda>x. cdType x \<noteq> cdType d) ys)" for ys
    using Cons.prems by (auto intro: filter_cong)
  have "filter (\<lambda>c. cdType c = t) (setCond cs d) = filter (\<lambda>c. cdType c = t) cs"
    using other [of "setCond cs d"] other [of cs] law [of d cs] by simp
  then show ?case using Cons by simp
qed simp

lemma rejected_conditions:
  assumes "uniquePortMaps inp" and "m \<in> set (computeMappings asSel inp)" and "\<not> mpAccepted m"
  shows "\<forall>d \<in> set (psConditions (portMapStatusOf inp m)). cdType d \<noteq> ConditionProgrammed"
proof -
  obtain m0 where m0: "m0 \<in> set (resolveMappings asSel inp (newIndex inp))"
      "m = (if \<not> mpGated m0 then m0 else case (mpClass m0, mpEndpoint m0) of
         (Some c, Some e) \<Rightarrow> programmedOf inp (newIndex inp) (computeAlloc asSel inp) c e m0 | _ \<Rightarrow> m0)"
    using assms(2) by (auto simp: computeMappings_def Let_def resolveProgrammed_def)
  have "mpAccepted m = mpAccepted m0" using m0(2) by (simp split: option.splits if_splits)
  then have "m = m0" using resolved_gated [OF assms(1) m0(1)] assms(3) m0(2) by auto
  obtain held where "m = settle inp (admit asSel inp (newIndex inp) held (newMapping (newIndex inp) (mpPm m)))" (is "_ = settle inp ?d")
    using resolveMappings_decision [OF assms(1) m0(1)] \<open>m = m0\<close> by metis
  moreover from this have "\<not> mpAccepted ?d" using assms(3) by (metis settle_sel(3))
  ultimately have d: "m = ?d" unfolding settle_def by argo
  have "mpProgrammedCond m = None" by (subst d) simp
  moreover have "cdType c = ConditionAccepted" if "mpAcceptedCond m = Some c" for c
    using that by (subst (asm) d)
      (auto simp: admit_def Let_def setAccepted_def mkCondition_def split: prod.splits option.splits if_splits)
  ultimately show ?thesis by (auto simp: portMapStatusOf_def sortConditions_def split: option.splits)
qed

section \<open>The pool of Links\<close>

text \<open>What may happen to the pool during a pass: others' steps, and each decision of the pass.\<close>

inductive poolStep :: "('w \<Rightarrow> string \<rightharpoonup> LinkObj) \<Rightarrow> ('w \<Rightarrow> 'w \<Rightarrow> bool) \<Rightarrow> LinkActions \<Rightarrow> 'w \<Rightarrow> 'w \<Rightarrow> bool"
  for stored later acts where
  others: "later w w' \<Longrightarrow> poolStep stored later acts w w'"
| creates: "l \<in> set (acCreate acts) \<Longrightarrow> stored w (linkObjName l) = None \<Longrightarrow> forgetLink new = forgetLink l \<Longrightarrow>
    stored w' = (stored w)(linkObjName l \<mapsto> new) \<Longrightarrow> poolStep stored later acts w w'"
| marks: "u \<in> set (acStatus acts) \<Longrightarrow> stored w (luName u) = Some cur \<Longrightarrow> omResourceVersion (lkMeta cur) = luResourceVersion u \<Longrightarrow>
    forgetLink new = forgetLink (cur\<lparr>lkStatus := \<lparr>lkUnusedSince = luUnusedSince u\<rparr>\<rparr>) \<Longrightarrow>
    stored w' = (stored w)(luName u \<mapsto> new) \<Longrightarrow> poolStep stored later acts w w'"
| deletes: "d \<in> set (acDelete acts) \<Longrightarrow> stored w (ldName d) = Some cur \<Longrightarrow> omResourceVersion (lkMeta cur) = ldResourceVersion d \<Longrightarrow>
    stored w' = (stored w)(ldName d := None) \<Longrightarrow> poolStep stored later acts w w'"

text \<open>
  The laws for Links, whatever a call answers: it did nothing, or exactly what it was asked for. A
  create needs a free name, a delete with a precondition the version it names.
\<close>

locale link_store = versioned_store stored "\<lambda>l. omResourceVersion (lkMeta l)" later "getLink client" "updateLink client" "\<lambda>l. omName (lkMeta l)" forgetLink
  for stored :: "'w \<Rightarrow> string \<rightharpoonup> LinkObj" and later and client :: "'w APIClient" +
  assumes update_any: "updateLink client l w = (w', e) \<Longrightarrow> later w w' \<or>
      (\<exists>w1 cur new. later w w1 \<and> stored w1 (linkObjName l) = Some cur \<and> omResourceVersion (lkMeta cur) = omResourceVersion (lkMeta l) \<and>
        forgetLink new = forgetLink l \<and> stored w' = (stored w1)(linkObjName l \<mapsto> new))"
    and create_any: "createLinkObj client l w = (w', e) \<Longrightarrow> later w w' \<or>
      (\<exists>w1 new. later w w1 \<and> stored w1 (linkObjName l) = None \<and> forgetLink new = forgetLink l \<and>
        stored w' = (stored w1)(linkObjName l \<mapsto> new))"
    and delete_any: "deleteLinkObj client n v w = (w', e) \<Longrightarrow> later w w' \<or>
      (\<exists>w1 cur. later w w1 \<and> stored w1 n = Some cur \<and> omResourceVersion (lkMeta cur) = v \<and> stored w' = (stored w1)(n := None))"
begin

lemma ignoring_world: "fst (ignoring es f w) = fst (f w)"
  by (auto simp: ignoring_def split: prod.splits option.splits)

lemma keepFirst_steps:
  "(\<And>x w. x \<in> set xs \<Longrightarrow> R\<^sup>*\<^sup>* w (fst (f x w))) \<Longrightarrow> R\<^sup>*\<^sup>* w (fst (keepFirst f xs w))"
proof (induction xs arbitrary: w)
  case (Cons x xs)
  have "R\<^sup>*\<^sup>* w (fst (f x w))" using Cons.prems by simp
  also have "R\<^sup>*\<^sup>* (fst (f x w)) (fst (keepFirst f xs (fst (f x w))))" using Cons by simp
  finally show ?case by (auto split: prod.splits)
qed simp

lemma andThen_world: "fst (andThen f g w) = fst (g (fst (f w)))"
  by (simp add: andThen_def split: prod.splits)

lemma createLink1_steps:
  assumes "l \<in> set (acCreate acts)"
  shows "(poolStep stored later acts)\<^sup>*\<^sup>* w (fst (createLink1 client l w))"
proof -
  obtain w' e where c: "createLinkObj client l w = (w', e)" by fastforce
  have "(poolStep stored later acts)\<^sup>*\<^sup>* w w'"
    using create_any [OF c]
  proof
    assume "\<exists>w1 new. later w w1 \<and> stored w1 (linkObjName l) = None \<and> forgetLink new = forgetLink l \<and> stored w' = (stored w1)(linkObjName l \<mapsto> new)"
    then obtain w1 where "poolStep stored later acts w w1" "poolStep stored later acts w1 w'"
      using poolStep.others poolStep.creates [OF assms] by metis
    then show ?thesis by simp
  qed (simp add: poolStep.others r_into_rtranclp)
  then show ?thesis by (simp add: createLink1_def ignoring_world c)
qed

lemma deleteLink1_steps:
  assumes "d \<in> set (acDelete acts)"
  shows "(poolStep stored later acts)\<^sup>*\<^sup>* w (fst (deleteLink1 client d w))"
proof -
  obtain w' e where c: "deleteLinkObj client (ldName d) (ldResourceVersion d) w = (w', e)" by fastforce
  have "(poolStep stored later acts)\<^sup>*\<^sup>* w w'"
    using delete_any [OF c]
  proof
    assume "\<exists>w1 cur. later w w1 \<and> stored w1 (ldName d) = Some cur \<and> omResourceVersion (lkMeta cur) = ldResourceVersion d \<and> stored w' = (stored w1)(ldName d := None)"
    then obtain w1 where "poolStep stored later acts w w1" "poolStep stored later acts w1 w'"
      using poolStep.others poolStep.deletes [OF assms] by metis
    then show ?thesis by simp
  qed (simp add: poolStep.others r_into_rtranclp)
  then show ?thesis by (simp add: deleteLink1_def ignoring_world c)
qed

lemma statusLink1_steps:
  assumes "u \<in> set (acStatus acts)"
  shows "(poolStep stored later acts)\<^sup>*\<^sup>* w (fst (statusLink1 client u w))"
proof -
  obtain v r where g: "getLink client (luName u) w = (v, r)" by fastforce
  have v: "later w v" using get_later [of w "luName u"] g by simp
  have stay: "(poolStep stored later acts)\<^sup>*\<^sup>* w v" using v by (simp add: poolStep.others r_into_rtranclp)
  show ?thesis
  proof (cases r)
    case (Inl e)
    then show ?thesis using g stay by (cases e) (simp_all add: statusLink1_def)
  next
    case (Inr l)
    note l = get_key [OF g [unfolded Inr]] get_version [OF g [unfolded Inr]]
    let ?new = "l\<lparr>lkStatus := \<lparr>lkUnusedSince = luUnusedSince u\<rparr>\<rparr>"
    show ?thesis
    proof (cases "omResourceVersion (lkMeta l) = luResourceVersion u")
      case False
      then show ?thesis using g Inr stay by (simp add: statusLink1_def)
    next
      case True
      obtain w' e where up: "updateLink client ?new v = (w', e)" by fastforce
      have "(poolStep stored later acts)\<^sup>*\<^sup>* v w'"
        using update_any [OF up]
      proof
        assume "\<exists>w1 cur new. later v w1 \<and> stored w1 (linkObjName ?new) = Some cur \<and> omResourceVersion (lkMeta cur) = omResourceVersion (lkMeta ?new) \<and>
          forgetLink new = forgetLink ?new \<and> stored w' = (stored w1)(linkObjName ?new \<mapsto> new)"
        then obtain w1 cur new where w1: "later v w1" "stored w1 (luName u) = Some cur" "omResourceVersion (lkMeta cur) = omResourceVersion (lkMeta l)"
            "forgetLink new = forgetLink ?new" "stored w' = (stored w1)(luName u \<mapsto> new)" using l(1) by auto
        then have "cur = l" using l(2) by blast
        then have "poolStep stored later acts w1 w'" using poolStep.marks [OF assms w1(2) _ _ w1(5)] w1(4) True by simp
        then show ?thesis using poolStep.others [of later, OF w1(1)] by (meson rtranclp.rtrancl_into_rtrancl rtranclp.rtrancl_refl)
      qed (simp add: poolStep.others r_into_rtranclp)
      then show ?thesis using stay g Inr True up by (simp add: statusLink1_def ignoring_world)
    qed
  qed
qed

lemma writeLinks_steps: "(poolStep stored later acts)\<^sup>*\<^sup>* w (fst (writeLinks client acts w))"
  unfolding writeLinks_def andThen_world
  using keepFirst_steps [of "acCreate acts" "poolStep stored later acts" "createLink1 client" w]
    keepFirst_steps [of "acStatus acts" "poolStep stored later acts" "statusLink1 client"]
    keepFirst_steps [of "acDelete acts" "poolStep stored later acts" "deleteLink1 client"]
    createLink1_steps statusLink1_steps deleteLink1_steps
  by (meson rtranclp_trans)

end

section \<open>A server\<close>

text \<open>
  Classes and Links by name, and the number of the next version; a version is its number in unary. The
  maps are read through a view that shows only objects under their own name with a version given out.
  Other kinds are not held. Another writer may put any object with a newer version, or delete one.
\<close>

record server =
  svClasses :: "string \<rightharpoonup> PortMapClass"
  svLinks :: "string \<rightharpoonup> LinkObj"
  svNext :: nat

definition view :: "nat \<Rightarrow> ('o \<Rightarrow> ObjectMeta) \<Rightarrow> (string \<rightharpoonup> 'o) \<Rightarrow> string \<rightharpoonup> 'o" where
  "view next meta m k =
     (case m k of Some x \<Rightarrow> if omName (meta x) = k \<and> length (omResourceVersion (meta x)) < next then Some x else None | None \<Rightarrow> None)"

definition newer :: "nat \<Rightarrow> ('o \<Rightarrow> ObjectMeta) \<Rightarrow> (string \<rightharpoonup> 'o) \<Rightarrow> (string \<rightharpoonup> 'o) \<Rightarrow> bool" where
  "newer next meta m m' \<longleftrightarrow> (\<forall>k x. m' k = Some x \<longrightarrow> m k = Some x \<or> next \<le> length (omResourceVersion (meta x)))"

definition heldClasses :: "server \<Rightarrow> string \<rightharpoonup> PortMapClass" where
  "heldClasses s = view (svNext s) pcMeta (svClasses s)"

definition heldLinks :: "server \<Rightarrow> string \<rightharpoonup> LinkObj" where
  "heldLinks s = view (svNext s) lkMeta (svLinks s)"

definition serverLater :: "server \<Rightarrow> server \<Rightarrow> bool" where
  "serverLater s s' \<longleftrightarrow>
     svNext s \<le> svNext s' \<and> newer (svNext s) pcMeta (heldClasses s) (heldClasses s') \<and> newer (svNext s) lkMeta (heldLinks s) (heldLinks s')"

definition stamp :: "server \<Rightarrow> ObjectMeta \<Rightarrow> ObjectMeta" where
  "stamp s m = m\<lparr>omResourceVersion := replicate (svNext s) (CHR ''1'')\<rparr>"

definition putClass :: "PortMapClass \<Rightarrow> server \<Rightarrow> server" where
  "putClass c s =
     \<lparr>svClasses = (heldClasses s)(className c \<mapsto> c\<lparr>pcMeta := stamp s (pcMeta c)\<rparr>), svLinks = heldLinks s, svNext = svNext s + 1\<rparr>"

definition putLink :: "LinkObj \<Rightarrow> server \<Rightarrow> server" where
  "putLink l s =
     \<lparr>svClasses = heldClasses s, svLinks = (heldLinks s)(linkObjName l \<mapsto> l\<lparr>lkMeta := stamp s (lkMeta l)\<rparr>), svNext = svNext s + 1\<rparr>"

definition dropLinkObj :: "string \<Rightarrow> server \<Rightarrow> server" where
  "dropLinkObj n s = \<lparr>svClasses = heldClasses s, svLinks = (heldLinks s)(n := None), svNext = svNext s\<rparr>"

definition answer :: "(server \<Rightarrow> string \<rightharpoonup> 'o) \<Rightarrow> string \<Rightarrow> server \<Rightarrow> server \<times> (APIErr + 'o)" where
  "answer held n s = (s, case held s n of Some x \<Rightarrow> Inr x | None \<Rightarrow> Inl NotFound)"

definition overVersion :: "ObjectMeta option \<Rightarrow> string \<Rightarrow> (server \<Rightarrow> server) \<Rightarrow> server apiop" where
  "overVersion cur v f s =
     (case cur of
        None \<Rightarrow> (s, Some NotFound)
      | Some m \<Rightarrow> if omResourceVersion m = v then (f s, None) else (s, Some ConflictErr))"

definition serverClient :: "server APIClient" where
  "serverClient =
     \<lparr>getPortMap = (\<lambda>_ s. (s, Inl NotFound)), updatePortMap = (\<lambda>_ s. (s, Some NotFound)),
      getClass = answer heldClasses,
      updateClass = (\<lambda>c s. overVersion (map_option pcMeta (heldClasses s (className c))) (omResourceVersion (pcMeta c)) (putClass c) s),
      getEgress = (\<lambda>_ s. (s, Inl NotFound)), updateEgress = (\<lambda>_ s. (s, Some NotFound)),
      getEgressClass = (\<lambda>_ s. (s, Inl NotFound)), updateEgressClass = (\<lambda>_ s. (s, Some NotFound)),
      getLink = answer heldLinks,
      updateLink = (\<lambda>l s. overVersion (map_option lkMeta (heldLinks s (linkObjName l))) (omResourceVersion (lkMeta l)) (putLink l) s),
      createLinkObj = (\<lambda>l s. if heldLinks s (linkObjName l) = None then (putLink l s, None) else (s, Some AlreadyExists)),
      deleteLinkObj = (\<lambda>n v s. overVersion (map_option lkMeta (heldLinks s n)) v (dropLinkObj n) s)\<rparr>"

lemma view_Some: "view next meta m k = Some x \<longleftrightarrow> m k = Some x \<and> omName (meta x) = k \<and> length (omResourceVersion (meta x)) < next"
  by (auto simp: view_def split: option.splits)

lemma view_view: "next \<le> next' \<Longrightarrow> view next' meta (view next meta m) = view next meta m"
  by (auto simp: view_def fun_eq_iff split: option.splits)

lemma view_put:
  assumes "next < next'" and "omName (meta x) = k" and "length (omResourceVersion (meta x)) = next"
  shows "view next' meta ((view next meta m)(k \<mapsto> x)) = (view next meta m)(k \<mapsto> x)"
  using assms by (auto simp: view_def fun_eq_iff split: option.splits)

lemma view_del: "view next meta ((view next meta m)(k := None)) = (view next meta m)(k := None)"
  by (auto simp: view_def fun_eq_iff split: option.splits)

lemma held_put:
  "heldClasses (putClass c s) = (heldClasses s)(className c \<mapsto> c\<lparr>pcMeta := stamp s (pcMeta c)\<rparr>)"
  "heldLinks (putLink l s) = (heldLinks s)(linkObjName l \<mapsto> l\<lparr>lkMeta := stamp s (lkMeta l)\<rparr>)"
  "heldLinks (dropLinkObj n s) = (heldLinks s)(n := None)"
  by (simp_all add: heldClasses_def heldLinks_def putClass_def putLink_def dropLinkObj_def view_put view_del stamp_def)

lemma forget_stamp [simp]:
  "forgetClass (c\<lparr>pcMeta := stamp s (pcMeta c)\<rparr>) = forgetClass c" "forgetLink (l\<lparr>lkMeta := stamp s (lkMeta l)\<rparr>) = forgetLink l"
  by (simp_all add: forgetClass_def forgetLink_def stamp_def)

lemma newer_trans:
  "n \<le> n' \<Longrightarrow> newer n meta m m' \<Longrightarrow> newer n' meta m' m'' \<Longrightarrow> newer n meta m m''"
  unfolding newer_def by (meson le_trans)

lemma newer_version:
  assumes "newer (svNext s) meta (view (svNext s) meta m) m'" and "view (svNext s) meta m k = Some x" and "m' k = Some y"
    and "omResourceVersion (meta y) = omResourceVersion (meta x)"
  shows "y = x"
proof -
  have "length (omResourceVersion (meta y)) < svNext s" using assms(2,4) by (simp add: view_Some)
  then have "view (svNext s) meta m k = Some y" using assms(1,3) unfolding newer_def by (meson leD)
  with assms(2) show ?thesis by simp
qed

lemma serverLater_refl: "serverLater s s"
  by (simp add: serverLater_def newer_def)

lemma serverLater_trans: "serverLater s s' \<Longrightarrow> serverLater s' s'' \<Longrightarrow> serverLater s s''"
  unfolding serverLater_def using newer_trans by (meson le_trans)

lemma overVersion_None: "overVersion cur v f s = (s', None) \<longleftrightarrow> (\<exists>m. cur = Some m \<and> omResourceVersion m = v \<and> s' = f s)"
  by (auto simp: overVersion_def split: option.splits)

lemma overVersion_cases: "overVersion cur v f s = (s', e) \<Longrightarrow> s' = s \<or> (\<exists>m. cur = Some m \<and> omResourceVersion m = v \<and> s' = f s)"
  by (auto simp: overVersion_def split: option.splits if_splits)

interpretation classes: versioned_store heldClasses "\<lambda>c. omResourceVersion (pcMeta c)" serverLater "getClass serverClient" "updateClass serverClient"
  "\<lambda>c. omName (pcMeta c)" forgetClass
proof unfold_locales
  show "serverLater w w" for w by (rule serverLater_refl)
  show "serverLater w1 w2 \<Longrightarrow> serverLater w2 w3 \<Longrightarrow> serverLater w1 w3" for w1 w2 w3 by (rule serverLater_trans)
  show "serverLater w (fst (getClass serverClient k w))" for w k by (simp add: serverClient_def answer_def serverLater_refl)
  show "getClass serverClient k w \<noteq> (w', Inl ConflictErr)" for k w w' by (auto simp: serverClient_def answer_def split: option.splits)
  show "getClass serverClient k w = (w', Inr obj) \<Longrightarrow> omName (pcMeta obj) = k" for k w w' obj
    by (auto simp: serverClient_def answer_def heldClasses_def view_Some split: option.splits)
  show "getClass serverClient k w = (w', Inr obj) \<Longrightarrow> serverLater w' w2 \<Longrightarrow> heldClasses w2 k = Some obj2 \<Longrightarrow>
      omResourceVersion (pcMeta obj2) = omResourceVersion (pcMeta obj) \<Longrightarrow> obj2 = obj" for k w w' obj w2 obj2
    by (rule newer_version [of w pcMeta "svClasses w" "heldClasses w2" k])
      (auto simp: serverClient_def answer_def serverLater_def heldClasses_def split: option.splits)
  show "updateClass serverClient obj w = (w', Some ConflictErr) \<Longrightarrow> serverLater w w'" for obj w w'
    by (auto simp: serverClient_def overVersion_def serverLater_refl split: option.splits if_splits)
  show "updateClass serverClient obj w = (w', None) \<Longrightarrow>
      \<exists>w1 cur new. serverLater w w1 \<and> heldClasses w1 (omName (pcMeta obj)) = Some cur \<and>
        omResourceVersion (pcMeta cur) = omResourceVersion (pcMeta obj) \<and> forgetClass new = forgetClass obj \<and>
        heldClasses w' = (heldClasses w1)(omName (pcMeta obj) \<mapsto> new)" for obj w w'
    by (rule exI [of _ w], rule exI [of _ "the (heldClasses w (className obj))"], rule exI [of _ "obj\<lparr>pcMeta := stamp w (pcMeta obj)\<rparr>"])
      (auto simp: serverClient_def overVersion_None serverLater_refl held_put)
qed

interpretation links: link_store heldLinks serverLater serverClient
proof unfold_locales
  show "serverLater w w" for w by (rule serverLater_refl)
  show "serverLater w1 w2 \<Longrightarrow> serverLater w2 w3 \<Longrightarrow> serverLater w1 w3" for w1 w2 w3 by (rule serverLater_trans)
  show "serverLater w (fst (getLink serverClient k w))" for w k by (simp add: serverClient_def answer_def serverLater_refl)
  show "getLink serverClient k w \<noteq> (w', Inl ConflictErr)" for k w w' by (auto simp: serverClient_def answer_def split: option.splits)
  show "getLink serverClient k w = (w', Inr obj) \<Longrightarrow> omName (lkMeta obj) = k" for k w w' obj
    by (auto simp: serverClient_def answer_def heldLinks_def view_Some split: option.splits)
  show "getLink serverClient k w = (w', Inr obj) \<Longrightarrow> serverLater w' w2 \<Longrightarrow> heldLinks w2 k = Some obj2 \<Longrightarrow>
      omResourceVersion (lkMeta obj2) = omResourceVersion (lkMeta obj) \<Longrightarrow> obj2 = obj" for k w w' obj w2 obj2
    by (rule newer_version [of w lkMeta "svLinks w" "heldLinks w2" k])
      (auto simp: serverClient_def answer_def serverLater_def heldLinks_def split: option.splits)
  show "updateLink serverClient obj w = (w', Some ConflictErr) \<Longrightarrow> serverLater w w'" for obj w w'
    by (auto simp: serverClient_def overVersion_def serverLater_refl split: option.splits if_splits)
  have upd: "\<exists>w1 cur new. serverLater w w1 \<and> heldLinks w1 (linkObjName l) = Some cur \<and>
      omResourceVersion (lkMeta cur) = omResourceVersion (lkMeta l) \<and> forgetLink new = forgetLink l \<and>
      heldLinks w' = (heldLinks w1)(linkObjName l \<mapsto> new)"
    if "\<exists>m. map_option lkMeta (heldLinks w (linkObjName l)) = Some m \<and> omResourceVersion m = omResourceVersion (lkMeta l) \<and> w' = putLink l w" for l w w'
    using that
    by (intro exI [of _ w] exI [of _ "the (heldLinks w (linkObjName l))"] exI [of _ "l\<lparr>lkMeta := stamp w (lkMeta l)\<rparr>"])
      (auto simp: serverLater_refl held_put)
  show "updateLink serverClient obj w = (w', None) \<Longrightarrow>
      \<exists>w1 cur new. serverLater w w1 \<and> heldLinks w1 (omName (lkMeta obj)) = Some cur \<and>
        omResourceVersion (lkMeta cur) = omResourceVersion (lkMeta obj) \<and> forgetLink new = forgetLink obj \<and>
        heldLinks w' = (heldLinks w1)(omName (lkMeta obj) \<mapsto> new)" for obj w w'
    by (rule upd) (simp add: serverClient_def overVersion_None)
  show "updateLink serverClient l w = (w', e) \<Longrightarrow> serverLater w w' \<or>
      (\<exists>w1 cur new. serverLater w w1 \<and> heldLinks w1 (linkObjName l) = Some cur \<and> omResourceVersion (lkMeta cur) = omResourceVersion (lkMeta l) \<and>
        forgetLink new = forgetLink l \<and> heldLinks w' = (heldLinks w1)(linkObjName l \<mapsto> new))" for l w w' e
  proof -
    assume "updateLink serverClient l w = (w', e)"
    then have "overVersion (map_option lkMeta (heldLinks w (linkObjName l))) (omResourceVersion (lkMeta l)) (putLink l) w = (w', e)"
      by (simp add: serverClient_def)
    from overVersion_cases [OF this] show ?thesis
    proof
      assume "w' = w"
      then show ?thesis using serverLater_refl by simp
    next
      assume "\<exists>m. map_option lkMeta (heldLinks w (linkObjName l)) = Some m \<and> omResourceVersion m = omResourceVersion (lkMeta l) \<and> w' = putLink l w"
      from upd [OF this] show ?thesis by (rule disjI2)
    qed
  qed
  show "createLinkObj serverClient l w = (w', e) \<Longrightarrow> serverLater w w' \<or>
      (\<exists>w1 new. serverLater w w1 \<and> heldLinks w1 (linkObjName l) = None \<and> forgetLink new = forgetLink l \<and>
        heldLinks w' = (heldLinks w1)(linkObjName l \<mapsto> new))" for l w w' e
    by (cases "heldLinks w (linkObjName l) = None")
      (auto simp: serverClient_def serverLater_refl held_put intro!: exI [of _ w] exI [of _ "l\<lparr>lkMeta := stamp w (lkMeta l)\<rparr>"])
  show "deleteLinkObj serverClient n v w = (w', e) \<Longrightarrow> serverLater w w' \<or>
      (\<exists>w1 cur. serverLater w w1 \<and> heldLinks w1 n = Some cur \<and> omResourceVersion (lkMeta cur) = v \<and> heldLinks w' = (heldLinks w1)(n := None))" for n v w w' e
    using serverLater_refl [of w] by (auto simp: serverClient_def held_put dest!: overVersion_cases)
qed

section \<open>What the writes guarantee\<close>

text \<open>
  C26. No update of a class is lost. With other writers at work between the agent's reads and writes,
  and reads that may be stale, a class write that returns no error ended in one of three ways: its
  last call was a read that found the class gone; its last call was a read of a class the merge would
  not change; or it put in one step exactly the merge of its contribution into the class stored at
  that moment, where the rows of all other nodes are the stored ones and its own row is its
  contribution with the host's MTU figures.
\<close>

theorem class_write_atomic:
  assumes "versioned_store stored (\<lambda>c. omResourceVersion (pcMeta c)) later (getClass client) (updateClass client) (\<lambda>c. omName (pcMeta c)) forgetClass"
    and "retriesConflicts retry" and "writeClass retry client setCond name contrib hs now w = (w', None)"
  shows "(\<exists>v. later w v \<and> getClass client name v = (w', Inl NotFound)) \<or>
    (\<exists>v c. later w v \<and> getClass client name v = (w', Inr c) \<and> classNext setCond contrib hs now c = c) \<or>
    (\<exists>w1 cur new. later w w1 \<and> stored w1 name = Some cur \<and> stored w' = (stored w1)(name \<mapsto> new) \<and>
       forgetClass new = forgetClass (classNext setCond contrib hs now cur) \<and>
       (\<forall>node. node \<noteq> nsName (ccNode contrib) \<longrightarrow> rowsOf node new = rowsOf node cur) \<and>
       (nsName (ccNode contrib) \<noteq> [] \<longrightarrow>
          find (\<lambda>r. nsName r = nsName (ccNode contrib)) (ctNodes (pcStatus new)) = Some (hostRow hs (ccNode contrib))))"
proof -
  let ?next = "\<lambda>class w. (w, classNext setCond contrib hs now class)"
  have keeps: "later v v' \<and> omName (pcMeta new) = omName (pcMeta cur) \<and> omResourceVersion (pcMeta new) = omResourceVersion (pcMeta cur)"
    if "?next cur v = (v', new)" for cur v v' new
    using that versioned_store.later_refl [OF assms(1)] by (auto simp: classNext_def)
  from versioned_store.retry_merges [OF assms(1,2) keeps assms(3) [unfolded writeClass_def]]
  consider "versioned_store.settled later (getClass client) pcStatus ?next name w w'"
    | "versioned_store.merged stored later forgetClass ?next name w w'" by blast
  then show ?thesis
  proof cases
    case 1
    have same: "classNext setCond contrib hs now c = c" if "pcStatus (classNext setCond contrib hs now c) = pcStatus c" for c
      using that by (cases c) (simp add: classNext_def)
    from 1 show ?thesis unfolding versioned_store.settled_def [OF assms(1)] using same by auto
  next
    case 2
    then obtain w1 cur new where m: "later w w1" "stored w1 name = Some cur" "stored w' = (stored w1)(name \<mapsto> new)"
        "forgetClass new = forgetClass (classNext setCond contrib hs now cur)"
      unfolding versioned_store.merged_def [OF assms(1)] by auto
    have st: "pcStatus new = pcStatus (classNext setCond contrib hs now cur)" using forgetClass_status [OF m(4)] by simp
    have "rowsOf node new = rowsOf node cur" if "node \<noteq> nsName (ccNode contrib)" for node
      using classNext_rows(1) [OF that, of setCond hs now cur] st by (simp add: rowsOf_def)
    moreover have "find (\<lambda>r. nsName r = nsName (ccNode contrib)) (ctNodes (pcStatus new)) = Some (hostRow hs (ccNode contrib))"
      if "nsName (ccNode contrib) \<noteq> []" using classNext_rows(2) [OF that] st by simp
    ultimately show ?thesis using m by (intro disjI2) blast
  qed
qed

text \<open>
  C27. The writes to the Link pool are the decisions of the pass or nothing. Whatever the calls answer
  and whatever other agents do between them, every change the agent makes to the pool is one of: a
  planned Link created under a free name, a planned mark on a Link that still has the version the pass
  saw, a planned delete of a Link that still has it.
\<close>

theorem pool_writes_exact:
  assumes "link_store stored later client"
  shows "(poolStep stored later acts)\<^sup>*\<^sup>* w (fst (writeLinks client acts w))"
  by (rule link_store.writeLinks_steps [OF assms])

text \<open>
  C29. A PortMap that is rejected keeps the Programmed condition it had. The status computed for it
  holds no Programmed condition, and the merge of conditions never removes one, so a mapping that was
  programmed and is rejected after an edit goes on reporting Programmed as before.
\<close>

theorem rejected_keeps_programmed:
  assumes "\<And>cs c. filter (\<lambda>x. cdType x \<noteq> cdType c) (setCond cs c) = filter (\<lambda>x. cdType x \<noteq> cdType c) cs"
    and "uniquePortMaps inp" and "m \<in> set (computeMappings asSel inp)" and "\<not> mpAccepted m"
  shows "filter (\<lambda>c. cdType c = ConditionProgrammed)
      (psConditions (pmStatus (snd (portMapNext client setCond node addr4 addr6 (portMapStatusOf inp m) pm w)))) =
    filter (\<lambda>c. cdType c = ConditionProgrammed) (psConditions (pmStatus pm))"
proof -
  have "psConditions (pmStatus (snd (portMapNext client setCond node addr4 addr6 (portMapStatusOf inp m) pm w))) =
      foldl setCond (psConditions (pmStatus pm)) (psConditions (portMapStatusOf inp m))"
    by (simp add: portMapNext_def Let_def split: prod.split)
  then show ?thesis using foldl_setCond [OF assms(1) rejected_conditions [OF assms(2-4)]] by simp
qed

section \<open>Concrete runs\<close>

text \<open>\<open>meta.SetStatusCondition\<close> as documented: the time of the last transition moves only with the status.\<close>

fun setStatusCondition :: cond_setter where
  "setStatusCondition [] c = [c]"
| "setStatusCondition (x # xs) c =
     (if cdType x = cdType c
      then c\<lparr>cdLastTransitionTime := (if cdStatus x = cdStatus c then cdLastTransitionTime x else cdLastTransitionTime c)\<rparr> # xs
      else x # setStatusCondition xs c)"

text \<open>\<open>RetryOnConflict\<close> with \<open>n\<close> more attempts after a conflict.\<close>

fun retryTimes :: "nat \<Rightarrow> 'w apiop \<Rightarrow> 'w apiop" where
  "retryTimes 0 f w = f w"
| "retryTimes (Suc n) f w = (case f w of (w', Some ConflictErr) \<Rightarrow> retryTimes n f w' | r \<Rightarrow> r)"

lemma retryTimes_retries: "retriesConflicts (retryTimes n)"
  unfolding retriesConflicts_def
proof (intro allI)
  fix f and w :: 'w
  show "\<exists>v. conflictPath f w v \<and> retryTimes n f w = f v"
  proof (induction n arbitrary: w)
    case (Suc n)
    obtain w1 e where f: "f w = (w1, e)" by fastforce
    show ?case
    proof (cases "e = Some ConflictErr")
      case True
      then show ?thesis using Suc [of w1] f conflictPath.again by fastforce
    next
      case False
      then have "retryTimes (Suc n) f w = f w" using f by (auto split: option.splits APIErr.splits)
      then show ?thesis using conflictPath.here by metis
    qed
  qed (auto intro: conflictPath.here)
qed

definition exServer :: server where
  "exServer =
     \<lparr>svClasses = [''s'' \<mapsto> exClass ''s'' ServingSingle ReturnPathVxlan],
      svLinks = [''slot-5'' \<mapsto> exLink ''slot-5'' ClassKindPortMapClass ''s'' [''c'', ''a''] None,
                 ''slot-7'' \<mapsto> exLink ''slot-7'' ClassKindPortMapClass ''s'' [''b'', ''c''] (Some 0)],
      svNext = 2\<rparr>"

definition exContrib :: ClassContribution where
  "exContrib = \<lparr>ccNode = (exRow ''a'')\<lparr>nsReady := False\<rparr>, ccConditions = [], ccClearLegacyLinks = False\<rparr>"

definition exHostState :: hostState where
  "exHostState = \<lparr>htTunnelOK = True, htTunnelKnown = True, htCniPort = 8472, htLinkPort = 4790, htUnderlayMTU = 1400, htLinkMTU = 1350\<rparr>"

definition exWritten :: server where
  "exWritten = fst (writeClass (retryTimes 4) serverClient setStatusCondition ''s'' exContrib exHostState 5 exServer)"

text \<open>Slot 7 as the pass saw it, slot 5 under an older version.\<close>

definition exActs :: LinkActions where
  "exActs = \<lparr>acCreate = [exLink ''slot-9'' ClassKindPortMapClass ''s'' [''a'', ''b''] None], acStatus = [],
     acDelete = [\<lparr>ldName = ''slot-7'', ldResourceVersion = ''1''\<rparr>, \<lparr>ldName = ''slot-5'', ldResourceVersion = ''0''\<rparr>]\<rparr>"

lemma setStatusCondition_other: "filter (\<lambda>x. cdType x \<noteq> cdType c) (setStatusCondition cs c) = filter (\<lambda>x. cdType x \<noteq> cdType c) cs"
  by (induction cs) auto

theorem class_write_atomic_witness:
  "map (\<lambda>r. (nsName r, nsReady r, nsUnderlayMTU r)) (ctNodes (pcStatus (the (heldClasses exWritten ''s'')))) =
     [(''a'', False, 1400), (''b'', True, 1500), (''c'', True, 1500)] \<and>
   ((\<exists>c. heldClasses exWritten ''s'' = Some c \<and> classNext setStatusCondition exContrib exHostState 5 c = c) \<or>
    (\<exists>w1 cur new. serverLater exServer w1 \<and> heldClasses w1 ''s'' = Some cur \<and> heldClasses exWritten = (heldClasses w1)(''s'' \<mapsto> new) \<and>
       rowsOf ''b'' new = rowsOf ''b'' cur))"
proof -
  have "snd (writeClass (retryTimes 4) serverClient setStatusCondition ''s'' exContrib exHostState 5 exServer) = None" by code_simp
  then have run: "writeClass (retryTimes 4) serverClient setStatusCondition ''s'' exContrib exHostState 5 exServer = (exWritten, None)"
    by (simp add: exWritten_def prod_eq_iff)
  have rows: "map (\<lambda>r. (nsName r, nsReady r, nsUnderlayMTU r)) (ctNodes (pcStatus (the (heldClasses exWritten ''s'')))) =
     [(''a'', False, 1400), (''b'', True, 1500), (''c'', True, 1500)]" by code_simp
  have "heldClasses exWritten ''s'' \<noteq> None" by code_simp
  then have "getClass serverClient ''s'' v \<noteq> (exWritten, Inl NotFound)"
    and "\<And>c. getClass serverClient ''s'' v = (exWritten, Inr c) \<Longrightarrow> heldClasses exWritten ''s'' = Some c" for v
    by (auto simp: serverClient_def answer_def split: option.splits)
  moreover have "''b'' \<noteq> nsName (ccNode exContrib)" by (simp add: exContrib_def exRow_def)
  ultimately show ?thesis using class_write_atomic [OF classes.versioned_store_axioms retryTimes_retries run] rows by blast
qed

theorem pool_writes_exact_witness:
  "map (\<lambda>n. heldLinks (fst (writeLinks serverClient exActs exServer)) n = None) [''slot-5'', ''slot-7'', ''slot-9''] = [False, True, False] \<and>
   (poolStep heldLinks serverLater exActs)\<^sup>*\<^sup>* exServer (fst (writeLinks serverClient exActs exServer))"
proof
  show "map (\<lambda>n. heldLinks (fst (writeLinks serverClient exActs exServer)) n = None) [''slot-5'', ''slot-7'', ''slot-9''] = [False, True, False]"
    by code_simp
  show "(poolStep heldLinks serverLater exActs)\<^sup>*\<^sup>* exServer (fst (writeLinks serverClient exActs exServer))"
    by (rule pool_writes_exact [OF links.link_store_axioms])
qed

text \<open>Mapping \<open>h\<close> of the example is refused for its port; it was programmed before.\<close>

definition exProgrammed :: Condition where
  "exProgrammed = mkCondition ConditionProgrammed CondTrue ReasonAllNodesReady [] 1 1"

definition exOldPM :: PortMap where
  "exOldPM = (exPM ''h'' 2 ''s'' ProtocolUDP 71 None ''u'')\<lparr>pmStatus := exStatus\<lparr>psConditions := [exProgrammed]\<rparr>\<rparr>"

theorem rejected_keeps_programmed_witness:
  "\<exists>m \<in> set (computeMappings exSel (exInputs ''a'')). \<not> mpAccepted m \<and> pmName (mpPm m) = ''h'' \<and>
     filter (\<lambda>c. cdType c = ConditionProgrammed)
       (psConditions (pmStatus (snd (portMapNext serverClient setStatusCondition ''a'' (\<lambda>_. None) (\<lambda>_. None)
          (portMapStatusOf (exInputs ''a'') m) exOldPM exServer)))) = [exProgrammed]"
proof -
  have u: "uniquePortMaps (exInputs ''a'')" by code_simp
  have "list_ex (\<lambda>m. \<not> mpAccepted m \<and> pmName (mpPm m) = ''h'') (computeMappings exSel (exInputs ''a''))" by code_simp
  then obtain m where m: "m \<in> set (computeMappings exSel (exInputs ''a''))" "\<not> mpAccepted m" "pmName (mpPm m) = ''h''"
    by (auto simp: list_ex_iff)
  from rejected_keeps_programmed [OF setStatusCondition_other u m(1,2), of serverClient "''a''" "\<lambda>_. None" "\<lambda>_. None" exOldPM exServer]
  have "filter (\<lambda>c. cdType c = ConditionProgrammed)
       (psConditions (pmStatus (snd (portMapNext serverClient setStatusCondition ''a'' (\<lambda>_. None) (\<lambda>_. None)
          (portMapStatusOf (exInputs ''a'') m) exOldPM exServer)))) = [exProgrammed]"
    by (simp add: exOldPM_def exPM_def exProgrammed_def mkCondition_def)
  with m show ?thesis by blast
qed

end
