(* ===== verification/NetlinkHost.thy ===== *)
theory NetlinkHost
  imports Netlink
begin

text \<open>
  Applying a plan converges. The contract \<open>reconciled\<close> is shared by the rules of a family and the
  routes of a table: a list of objects, calls that add and delete one, and the comparison the code
  uses. The locale \<open>netlink_host\<close> states what the kernel's calls do, as documented; a host kept in
  lists meets it.
\<close>

section \<open>Lemmas: sequences of calls\<close>

lemma thenDo_ok: "thenDo f g k = (k', None) \<longleftrightarrow> (\<exists>k1. f k = (k1, None) \<and> g k1 = (k', None))"
  by (auto simp: thenDo_def split: prod.splits option.splits)

lemma thenDo_run [simp]: "f k = (k1, None) \<Longrightarrow> thenDo f g k = g k1"
  by (simp add: thenDo_def)

lemma eachDo_ok_Cons [simp]:
  "eachDo f (x # xs) k = (k', None) \<longleftrightarrow> (\<exists>k1. f x k = (k1, None) \<and> eachDo f xs k1 = (k', None))"
  by (simp add: thenDo_ok)

declare eachDo.simps(2) [simp del]

lemma onError_ok [simp]: "onError w f k = (k', None) \<longleftrightarrow> f k = (k', None)"
  by (auto simp: onError_def split: prod.splits option.splits)

lemma ok_ok [simp]: "ok k = (k', None) \<longleftrightarrow> k' = k"
  by (auto simp: ok_def)

lemma reads_ok: "reads r f k = (k', None) \<longleftrightarrow> (\<exists>x. r k = Inr x \<and> f x k = (k', None))"
  by (auto simp: reads_def split: sum.splits)

lemma eachDo_skip: "(\<And>x. x \<in> set xs \<Longrightarrow> f x k = (k, None)) \<Longrightarrow> eachDo f xs k = (k, None)"
  by (induction xs) (simp_all add: eachDo.simps(2))

text \<open>A property of the host that every call keeps is kept by the loop, whether or not it ends in an error.\<close>

lemma eachDo_invariant:
  assumes "\<And>x k. x \<in> set xs \<Longrightarrow> P k \<Longrightarrow> P (fst (f x k))" and "P k"
  shows "P (fst (eachDo f xs k))"
  using assms
proof (induction xs arbitrary: k)
  case (Cons x xs)
  obtain k1 e where f: "f x k = (k1, e)" by fastforce
  have "P k1" using Cons.prems f by (metis fst_conv list.set_intros(1))
  then have "P (fst (eachDo f xs k1))" using Cons by simp
  then show ?case using f \<open>P k1\<close> by (cases e) (simp_all add: eachDo.simps(2) thenDo_def)
qed simp

text \<open>Each step establishes its own part and keeps the others'.\<close>

lemma eachDo_establishes:
  assumes "\<And>x k k'. x \<in> set xs \<Longrightarrow> f x k = (k', None) \<Longrightarrow> Q x k' \<and> (\<forall>y \<in> set xs. y \<noteq> x \<longrightarrow> Q y k \<longrightarrow> Q y k')"
    and "eachDo f xs k = (k', None)"
  shows "\<forall>x \<in> set xs. Q x k'"
proof -
  have "\<forall>x \<in> set ys. Q x k'" if "eachDo f ys k = (k', None)" "set ys \<subseteq> set xs" for ys k k'
    using that
  proof (induction ys arbitrary: k' rule: rev_induct)
    case (snoc y ys)
    have app: "eachDo f (zs @ [z]) k = (k', None) \<longleftrightarrow> (\<exists>k1. eachDo f zs k = (k1, None) \<and> f z k1 = (k', None))" for zs z k k'
      by (induction zs arbitrary: k) auto
    obtain k1 where k1: "eachDo f ys k = (k1, None)" "f y k1 = (k', None)" using snoc.prems(1) app by blast
    then have "\<forall>x \<in> set ys. Q x k1" using snoc by simp
    then show ?case using assms(1) [of y k1 k'] k1(2) snoc.prems(2) by (auto split: if_splits)
  qed simp
  with assms(2) show ?thesis by blast
qed

text \<open>A relation between hosts that each step keeps.\<close>

lemma eachDo_keeps:
  assumes "\<And>x k k'. x \<in> set xs \<Longrightarrow> f x k = (k', None) \<Longrightarrow> P k' = P k" and "eachDo f xs k = (k', None)"
  shows "P k' = P k"
  using assms
proof (induction xs arbitrary: k)
  case (Cons x xs)
  then obtain k1 where "f x k = (k1, None)" "eachDo f xs k1 = (k', None)" by auto
  with Cons show ?case by (metis list.set_intros)
qed simp

lemma list_all2_partner:
  "list_all2 P xs ys \<Longrightarrow> y \<in> set ys \<Longrightarrow> \<exists>x \<in> set xs. P x y"
  "list_all2 P xs ys \<Longrightarrow> x \<in> set xs \<Longrightarrow> \<exists>y \<in> set ys. P x y"
  by (induction xs ys rule: list_all2_induct) auto

section \<open>The shared contract\<close>

text \<open>A list in step with what is desired: nothing desired is missing from it, nothing owned in it is stale.\<close>

definition inStep :: "('o \<Rightarrow> 'o \<Rightarrow> bool) \<Rightarrow> ('o \<Rightarrow> bool) \<Rightarrow> 'o list \<Rightarrow> 'o list \<Rightarrow> bool" where
  "inStep same owned desired xs \<longleftrightarrow>
     (\<forall>d \<in> set desired. \<exists>x \<in> set xs. same x d) \<and> (\<forall>x \<in> set xs. owned x \<longrightarrow> (\<exists>d \<in> set desired. same d x))"

locale reconciled =
  fixes view :: "'k \<Rightarrow> 'o list" and rest :: "'k \<Rightarrow> 'r" and add :: "'o \<Rightarrow> 'k nlop" and del :: "'o \<Rightarrow> 'k nlop"
    and same :: "'o \<Rightarrow> 'o \<Rightarrow> bool" and mine :: "'o \<Rightarrow> bool" and owned :: "'o \<Rightarrow> bool"
  assumes same_refl: "same x x" and same_sym: "same x y \<Longrightarrow> same y x" and same_trans: "same x y \<Longrightarrow> same y z \<Longrightarrow> same x z"
    and add_ok: "mine x \<Longrightarrow> add x k = (k', None) \<Longrightarrow>
      \<exists>y. same y x \<and> mset (view k') = add_mset y (mset (view k)) \<and> rest k' = rest k"
    and del_ok: "x \<in> set (view k) \<Longrightarrow> del x k = (k', None) \<Longrightarrow> mset (view k') = mset (view k) - {#x#} \<and> rest k' = rest k"
begin

definition missing :: "'o list \<Rightarrow> 'o list \<Rightarrow> 'o list" where
  "missing desired existing = filter (\<lambda>d. \<not> list_ex (\<lambda>r. same r d) existing) desired"

definition stale :: "'o list \<Rightarrow> 'o \<Rightarrow> bool" where
  "stale desired x \<longleftrightarrow> owned x \<and> \<not> list_ex (\<lambda>d. same d x) desired"

lemma adds:
  assumes "\<forall>d \<in> set desired. mine d"
    and "eachDo (\<lambda>d. if list_ex (\<lambda>r. same r d) existing then ok else onError (w d) (add d)) desired k = (k', None)"
  shows "\<exists>new. list_all2 same new (missing desired existing) \<and> mset (view k') = mset (view k) + mset new \<and> rest k' = rest k"
  using assms
proof (induction desired arbitrary: k)
  case (Cons d ds)
  let ?f = "\<lambda>d. if list_ex (\<lambda>r. same r d) existing then ok else onError (w d) (add d)"
  obtain k1 where k1: "?f d k = (k1, None)" "eachDo ?f ds k1 = (k', None)" using Cons.prems(2) by auto
  then obtain new where new: "list_all2 same new (missing ds existing)" "mset (view k') = mset (view k1) + mset new" "rest k' = rest k1"
    using Cons.IH [OF _ k1(2)] Cons.prems(1) by auto
  show ?case
  proof (cases "list_ex (\<lambda>r. same r d) existing")
    case True
    then show ?thesis using new k1(1) by (auto simp: missing_def)
  next
    case False
    then obtain y where y: "same y d" "mset (view k1) = add_mset y (mset (view k))" "rest k1 = rest k"
      using k1(1) add_ok [of d k k1] Cons.prems(1) by auto
    then have "list_all2 same (y # new) (missing (d # ds) existing)" using new(1) False by (simp add: missing_def)
    moreover have "mset (view k') = mset (view k) + mset (y # new)" "rest k' = rest k" using new y by simp_all
    ultimately show ?thesis by blast
  qed
qed (auto simp: missing_def)

lemma dels:
  assumes "mset (filter (stale desired) existing) \<subseteq># mset (view k)"
    and "eachDo (\<lambda>e. if \<not> owned e then ok else if \<not> list_ex (\<lambda>d. same d e) desired then del e else ok) existing k = (k', None)"
  shows "mset (view k') = mset (view k) - mset (filter (stale desired) existing) \<and> rest k' = rest k"
  using assms
proof (induction existing arbitrary: k)
  case (Cons e es)
  let ?f = "\<lambda>e. if \<not> owned e then ok else if \<not> list_ex (\<lambda>d. same d e) desired then del e else ok"
  obtain k1 where k1: "?f e k = (k1, None)" "eachDo ?f es k1 = (k', None)" using Cons.prems(2) by auto
  show ?case
  proof (cases "stale desired e")
    case True
    then have "e \<in> set (view k)" using Cons.prems(1) by (metis filter.simps(2) insert_subset_eq_iff mset.simps(2) set_mset_mset)
    moreover have "del e k = (k1, None)" using k1(1) True by (simp add: stale_def)
    ultimately have d: "mset (view k1) = mset (view k) - {#e#}" "rest k1 = rest k" using del_ok by blast+
    moreover have "mset (filter (stale desired) es) \<subseteq># mset (view k1)"
      using Cons.prems(1) True by (simp add: d insert_subset_eq_iff)
    ultimately show ?thesis using Cons.IH [OF _ k1(2)] True by simp
  next
    case False
    then have "k1 = k" using k1(1) by (auto simp: stale_def split: if_splits)
    then show ?thesis using Cons.IH [OF _ k1(2)] Cons.prems(1) False by simp
  qed
qed simp

lemma dels_all:
  assumes "eachDo (\<lambda>e. if owned e then del e else ok) (view k) k = (k', None)"
  shows "mset (view k') = mset (filter (\<lambda>x. \<not> owned x) (view k))" and "rest k' = rest k"
proof -
  have fn: "(\<lambda>e. if \<not> owned e then ok else if \<not> list_ex (\<lambda>d. same d e) [] then del e else ok) = (\<lambda>e. if owned e then del e else ok)"
    by auto
  have st: "stale [] = owned" by (auto simp: stale_def)
  have "mset (filter (stale []) (view k)) \<subseteq># mset (view k)" by simp
  note d = dels [OF this, unfolded fn st, OF assms]
  have "mset (view k) = mset (filter owned (view k)) + mset (filter (\<lambda>x. \<not> owned x) (view k))" by (simp flip: multiset_partition)
  then show "mset (view k') = mset (filter (\<lambda>x. \<not> owned x) (view k))" using d by (metis add_diff_cancel_left')
  show "rest k' = rest k" using d by simp
qed

text \<open>The two loops over what was listed.\<close>

definition recon :: "('o \<Rightarrow> NLErr \<Rightarrow> NLErr) \<Rightarrow> 'o list \<Rightarrow> 'o list \<Rightarrow> 'k nlop" where
  "recon w desired existing =
     thenDo (eachDo (\<lambda>d. if list_ex (\<lambda>r. same r d) existing then ok else onError (w d) (add d)) desired)
       (eachDo (\<lambda>e. if \<not> owned e then ok else if \<not> list_ex (\<lambda>d. same d e) desired then del e else ok) existing)"

lemma recon_view:
  assumes "\<forall>d \<in> set desired. mine d" and "recon w desired (view k) k = (k', None)"
  obtains new where "list_all2 same new (missing desired (view k))" and "rest k' = rest k"
    and "mset (view k') = mset (filter (\<lambda>x. \<not> stale desired x) (view k)) + mset new"
proof -
  from assms(2) obtain k1 where k1:
      "eachDo (\<lambda>d. if list_ex (\<lambda>r. same r d) (view k) then ok else onError (w d) (add d)) desired k = (k1, None)"
      "eachDo (\<lambda>e. if \<not> owned e then ok else if \<not> list_ex (\<lambda>d. same d e) desired then del e else ok) (view k) k1 = (k', None)"
    unfolding recon_def thenDo_ok by blast
  obtain new where new: "list_all2 same new (missing desired (view k))" "mset (view k1) = mset (view k) + mset new" "rest k1 = rest k"
    using adds [OF assms(1) k1(1)] by blast
  have "mset (filter (stale desired) (view k)) \<subseteq># mset (view k1)" by (simp add: new(2) subset_mset.add_increasing2)
  from dels [OF this k1(2)] have d: "mset (view k') = mset (view k1) - mset (filter (stale desired) (view k))" "rest k' = rest k1"
    by simp_all
  have "mset (view k) = mset (filter (stale desired) (view k)) + mset (filter (\<lambda>x. \<not> stale desired x) (view k))"
    by (simp flip: multiset_partition)
  then have "mset (view k') = mset (filter (\<lambda>x. \<not> stale desired x) (view k)) + mset new"
    using d(1) new(2) by (metis add_diff_cancel_left' union_assoc)
  with new d(2) that show ?thesis by simp
qed

definition converged :: "'o list \<Rightarrow> 'k \<Rightarrow> bool" where
  "converged desired k \<longleftrightarrow> inStep same owned desired (view k)"

lemma recon_converges:
  assumes "\<forall>d \<in> set desired. mine d" and "recon w desired (view k) k = (k', None)"
  shows "converged desired k'" and "mset (filter (\<lambda>x. \<not> owned x) (view k)) \<subseteq># mset (view k')" and "rest k' = rest k"
proof -
  obtain new where new: "list_all2 same new (missing desired (view k))" and rest: "rest k' = rest k"
    and v: "mset (view k') = mset (filter (\<lambda>x. \<not> stale desired x) (view k)) + mset new"
    using recon_view [OF assms] by blast
  from v have sv: "set (view k') = {x \<in> set (view k). \<not> stale desired x} \<union> set new"
    by (metis mset_append mset_eq_setD set_append set_filter)
  have "\<exists>x \<in> set (view k'). same x d" if "d \<in> set desired" for d
  proof (cases "list_ex (\<lambda>r. same r d) (view k)")
    case True
    then obtain r where "r \<in> set (view k)" "same r d" by (auto simp: list_ex_iff)
    moreover from this have "\<not> stale desired r" using that same_sym by (auto simp: stale_def list_ex_iff)
    ultimately show ?thesis using sv by blast
  next
    case False
    then have "d \<in> set (missing desired (view k))" using that by (simp add: missing_def)
    then show ?thesis using list_all2_partner(1) [OF new] sv by auto
  qed
  moreover have "\<exists>d \<in> set desired. same d x" if "x \<in> set (view k')" "owned x" for x
  proof (cases "x \<in> set new")
    case True
    then obtain d where "d \<in> set (missing desired (view k))" "same x d"
      using list_all2_partner(2) [OF new] by blast
    then show ?thesis using same_sym by (auto simp: missing_def)
  next
    case False
    then show ?thesis using that sv by (auto simp: stale_def list_ex_iff)
  qed
  ultimately show "converged desired k'" by (simp add: converged_def inStep_def)
  have "mset (filter (\<lambda>x. \<not> owned x) (view k)) \<subseteq># mset (filter (\<lambda>x. \<not> stale desired x) (view k))"
  proof -
    have "filter (\<lambda>x. \<not> owned x) (view k) = filter (\<lambda>x. \<not> owned x) (filter (\<lambda>x. \<not> stale desired x) (view k))"
      by (auto simp: stale_def intro: filter_cong)
    then show ?thesis by (metis mset_filter multiset_filter_subset)
  qed
  then show "mset (filter (\<lambda>x. \<not> owned x) (view k)) \<subseteq># mset (view k')" unfolding v by (simp add: subset_mset.add_increasing2)
  show "rest k' = rest k" by (rule rest)
qed

lemma recon_again: "converged desired k \<Longrightarrow> recon w desired (view k) k = (k, None)"
proof -
  assume c: "converged desired k"
  have "eachDo (\<lambda>d. if list_ex (\<lambda>r. same r d) (view k) then ok else onError (w d) (add d)) desired k = (k, None)"
    by (rule eachDo_skip) (use c in \<open>auto simp: converged_def inStep_def list_ex_iff ok_def\<close>)
  moreover have "eachDo (\<lambda>e. if \<not> owned e then ok else if \<not> list_ex (\<lambda>d. same d e) desired then del e else ok) (view k) k = (k, None)"
    by (rule eachDo_skip) (use c in \<open>auto simp: converged_def inStep_def list_ex_iff ok_def\<close>)
  ultimately show ?thesis by (simp add: recon_def)
qed

end

section \<open>The host\<close>

text \<open>
  What the netlink calls do to the rules of each family, the routes of each table and family and the
  devices. A call that fails may be refused for any reason; only what a call that succeeds does, and
  that a refused one changes nothing, is stated. The kernel may complete the object it is given, so a
  new entry need only compare equal to it. A call on a device concerns that device and the routes
  through it, which the kernel adds and removes with the device and its addresses; deleting a device
  takes its routes with it, and a route is deleted from the device it names.
\<close>

definition normUnderlay :: "underlay \<Rightarrow> underlay" where
  "normUnderlay u = u\<lparr>ulLocal := map_option unmapAddr (ulLocal u), ulRemote := map_option unmapAddr (ulRemote u)\<rparr>"

definition devsOf :: "NLLink list \<Rightarrow> string \<rightharpoonup> underlay option" where
  "devsOf ls = map_of (map (\<lambda>l. (nlName l, map_option normUnderlay (nlVxlan l))) ls)"

definition retarget :: "addr option \<Rightarrow> addr option \<Rightarrow> underlay \<Rightarrow> underlay" where
  "retarget local remote u =
     u\<lparr>ulLocal := (if local = None then ulLocal u else map_option unmapAddr local),
       ulRemote := (if remote = None then ulRemote u else map_option unmapAddr remote)\<rparr>"

definition indexOf :: "NLLink list \<Rightarrow> string \<rightharpoonup> int" where
  "indexOf ls = map_of (map (\<lambda>l. (nlName l, nlIndex l)) ls)"

definition devicesBut :: "string \<Rightarrow> NLLink list \<Rightarrow> NLLink set" where
  "devicesBut n ls = {m \<in> set ls. nlName m \<noteq> n}"

definition routesBut :: "int \<Rightarrow> NLRoute list \<Rightarrow> NLRoute list" where
  "routesBut i xs = filter (\<lambda>x. noLinkIndex x \<noteq> i) xs"

locale netlink_host =
  fixes nl :: "'k NetlinkConn" and rulesOf :: "'k \<Rightarrow> Family \<Rightarrow> NLRule list" and routesOf :: "'k \<Rightarrow> Family \<Rightarrow> int \<Rightarrow> NLRoute list"
    and linksOf :: "'k \<Rightarrow> NLLink list"
  assumes rule_list: "RuleList nl f k = Inr xs \<Longrightarrow> xs = rulesOf k f"
    and rule_absent: "RuleList nl f k = Inl e \<Longrightarrow> errNoFamily e \<Longrightarrow> rulesOf k f = [] \<and> routesOf k f t = []"
    and rule_family: "r \<in> set (rulesOf k f) \<Longrightarrow> nuFamily r = f"
    and rule_add: "RuleAdd nl r k = (k', None) \<Longrightarrow>
      \<exists>y. ruleEqual y r \<and> mset (rulesOf k' (nuFamily r)) = add_mset y (mset (rulesOf k (nuFamily r))) \<and>
        (\<forall>g. g \<noteq> nuFamily r \<longrightarrow> rulesOf k' g = rulesOf k g) \<and> routesOf k' = routesOf k \<and> linksOf k' = linksOf k"
    and rule_del: "r \<in> set (rulesOf k (nuFamily r)) \<Longrightarrow> RuleDel nl r k = (k', None) \<Longrightarrow>
      mset (rulesOf k' (nuFamily r)) = mset (rulesOf k (nuFamily r)) - {#r#} \<and>
        (\<forall>g. g \<noteq> nuFamily r \<longrightarrow> rulesOf k' g = rulesOf k g) \<and> routesOf k' = routesOf k \<and> linksOf k' = linksOf k"
    and route_list: "RoutesInTable nl f t k = Inr ys \<Longrightarrow> ys = routesOf k f t"
    and route_absent: "RoutesInTable nl f t k = Inl e \<Longrightarrow> errNoFamily e \<Longrightarrow> routesOf k f t = []"
    and route_place: "x \<in> set (routesOf k f t) \<Longrightarrow> noFamily x = f \<and> noTable x = t"
    and route_add: "RouteAdd nl x k = (k', None) \<Longrightarrow>
      \<exists>z. routeEqual z x \<and> mset (routesOf k' (noFamily x) (noTable x)) = add_mset z (mset (routesOf k (noFamily x) (noTable x))) \<and>
        (\<forall>g t. (g, t) \<noteq> (noFamily x, noTable x) \<longrightarrow> routesOf k' g t = routesOf k g t) \<and> rulesOf k' = rulesOf k \<and> linksOf k' = linksOf k"
    and route_del: "x \<in> set (routesOf k (noFamily x) (noTable x)) \<Longrightarrow> RouteDel nl x k = (k', None) \<Longrightarrow>
      mset (routesOf k' (noFamily x) (noTable x)) = mset (routesOf k (noFamily x) (noTable x)) - {#x#} \<and>
        (\<forall>g t. (g, t) \<noteq> (noFamily x, noTable x) \<longrightarrow> routesOf k' g t = routesOf k g t) \<and> rulesOf k' = rulesOf k \<and> linksOf k' = linksOf k"
    and route_gone: "rulesOf (fst (RouteDel nl x k)) = rulesOf k" "linksOf (fst (RouteDel nl x k)) = linksOf k"
    and route_gone_dev: "noLinkIndex x \<in> nlIndex ` set (linksOf k) \<Longrightarrow>
      routesBut (noLinkIndex x) (routesOf (fst (RouteDel nl x k)) f t) = routesBut (noLinkIndex x) (routesOf k f t)"
    and route_on_link: "RoutesOnLink nl f i k = Inr ys \<Longrightarrow> x \<in> set ys \<Longrightarrow> noLinkIndex x = i"
    and link_list: "LinkList nl k = Inr ls \<Longrightarrow> ls = linksOf k"
    and link_unique: "distinct (map nlName (linksOf k))"
    and link_found: "LinkByName nl n k = Inr l \<Longrightarrow> l \<in> set (linksOf k) \<and> nlName l = n"
    and link_add: "LinkAdd nl l k = (k', Inr v) \<Longrightarrow>
      nlName l \<notin> dom (devsOf (linksOf k)) \<and>
      devsOf (linksOf k') = (devsOf (linksOf k))(nlName l \<mapsto> map_option normUnderlay (nlVxlan l))"
    and link_add_dev: "LinkAdd nl l k = (k', Inr v) \<Longrightarrow>
      nlName v = nlName l \<and> indexOf (linksOf k') (nlName l) = Some (nlIndex v) \<and>
      routesBut (nlIndex v) (routesOf k' f t) = routesBut (nlIndex v) (routesOf k f t)"
    and link_del: "l \<in> set (linksOf k) \<Longrightarrow> LinkDel nl l k = (k', None) \<Longrightarrow>
      linksOf k' = filter (\<lambda>m. nlName m \<noteq> nlName l) (linksOf k)"
    and link_del_routes: "l \<in> set (linksOf k) \<Longrightarrow> LinkDel nl l k = (k', None) \<Longrightarrow>
      routesOf k' f t = routesBut (nlIndex l) (routesOf k f t)"
    and link_retarget: "LinkSetUnderlay nl = Some setu \<Longrightarrow> setu i n a b k = (k', None) \<Longrightarrow>
      devsOf (linksOf k') = (devsOf (linksOf k))(n := map_option (map_option (retarget a b)) (devsOf (linksOf k) n))"
    and devs_untouched: "devsOf (linksOf (fst (LinkSetUp nl l k))) = devsOf (linksOf k)"
      "devsOf (linksOf (fst (LinkSetMTU nl l i k))) = devsOf (linksOf k)"
      "devsOf (linksOf (fst (AddrAdd nl l ad k))) = devsOf (linksOf k)"
      "devsOf (linksOf (fst (AddrDel nl l ad k))) = devsOf (linksOf k)"
    and rules_untouched: "rulesOf (fst (LinkAdd nl l k)) = rulesOf k" "rulesOf (fst (LinkDel nl l k)) = rulesOf k"
      "rulesOf (fst (LinkSetUp nl l k)) = rulesOf k" "rulesOf (fst (LinkSetMTU nl l i k)) = rulesOf k"
      "rulesOf (fst (AddrAdd nl l ad k)) = rulesOf k" "rulesOf (fst (AddrDel nl l ad k)) = rulesOf k"
    and own_device: "devicesBut (nlName l) (linksOf (fst (LinkAdd nl l k))) = devicesBut (nlName l) (linksOf k)"
      "devicesBut (nlName l) (linksOf (fst (LinkSetUp nl l k))) = devicesBut (nlName l) (linksOf k)"
      "devicesBut (nlName l) (linksOf (fst (LinkSetMTU nl l i k))) = devicesBut (nlName l) (linksOf k)"
      "devicesBut (nlName l) (linksOf (fst (AddrAdd nl l ad k))) = devicesBut (nlName l) (linksOf k)"
      "devicesBut (nlName l) (linksOf (fst (AddrDel nl l ad k))) = devicesBut (nlName l) (linksOf k)"
    and own_index: "indexOf (linksOf (fst (LinkSetUp nl l k))) = indexOf (linksOf k)"
      "indexOf (linksOf (fst (LinkSetMTU nl l i k))) = indexOf (linksOf k)"
      "indexOf (linksOf (fst (AddrAdd nl l ad k))) = indexOf (linksOf k)"
      "indexOf (linksOf (fst (AddrDel nl l ad k))) = indexOf (linksOf k)"
    and own_routes: "routesBut (nlIndex l) (routesOf (fst (LinkSetUp nl l k)) f t) = routesBut (nlIndex l) (routesOf k f t)"
      "routesBut (nlIndex l) (routesOf (fst (LinkSetMTU nl l i k)) f t) = routesBut (nlIndex l) (routesOf k f t)"
      "routesBut (nlIndex l) (routesOf (fst (AddrAdd nl l ad k)) f t) = routesBut (nlIndex l) (routesOf k f t)"
      "routesBut (nlIndex l) (routesOf (fst (AddrDel nl l ad k)) f t) = routesBut (nlIndex l) (routesOf k f t)"
    and own_retarget: "LinkSetUnderlay nl = Some setu \<Longrightarrow>
      devicesBut n (linksOf (fst (setu i n a b k))) = devicesBut n (linksOf k) \<and>
      indexOf (linksOf (fst (setu i n a b k))) = indexOf (linksOf k) \<and>
      routesBut i (routesOf (fst (setu i n a b k)) f t) = routesBut i (routesOf k f t)"
    and rules_retarget: "LinkSetUnderlay nl = Some setu \<Longrightarrow> rulesOf (fst (setu i n a b k)) = rulesOf k"
begin

end

text \<open>Both comparisons compare a key.\<close>

definition nlRuleKey :: "NLRule \<Rightarrow> int \<times> 32 word \<times> int \<times> bool \<times> string option" where
  "nlRuleKey r = (nuPriority r, nuMark r, nuTable r, suppressed r, map_option ipNetText (nuDst r))"

definition nlRouteKey :: "NLRoute \<Rightarrow> bool \<times> int \<times> (int \<times> addr option) option" where
  "nlRouteKey r =
     (noBlackhole r, noTable r, if noBlackhole r then None else Some (noLinkIndex r, map_option unmapAddr (noGw r)))"

lemma ruleEqual_key: "ruleEqual a b \<longleftrightarrow> nlRuleKey a = nlRuleKey b"
  by (simp add: ruleEqual_def ipNetEqual_def nlRuleKey_def)

lemma routeEqual_key: "routeEqual a b \<longleftrightarrow> nlRouteKey a = nlRouteKey b"
  by (simp add: routeEqual_def nlRouteKey_def)

text \<open>The rules of a family and the routes of a table and family meet the shared contract.\<close>

sublocale netlink_host \<subseteq> rules: reconciled "\<lambda>k. rulesOf k f"
  "\<lambda>k. ((\<lambda>g. if g = f then [] else rulesOf k g), routesOf k, linksOf k)" "RuleAdd nl" "RuleDel nl" ruleEqual
  "\<lambda>r. nuFamily r = f" ownedRule for f
proof unfold_locales
  show "ruleEqual x x" for x by (simp add: ruleEqual_key)
  show "ruleEqual x y \<Longrightarrow> ruleEqual y x" for x y by (simp add: ruleEqual_key)
  show "ruleEqual x y \<Longrightarrow> ruleEqual y z \<Longrightarrow> ruleEqual x z" for x y z by (simp add: ruleEqual_key)
  show "nuFamily x = f \<Longrightarrow> RuleAdd nl x k = (k', None) \<Longrightarrow>
      \<exists>y. ruleEqual y x \<and> mset (rulesOf k' f) = add_mset y (mset (rulesOf k f)) \<and>
        ((\<lambda>g. if g = f then [] else rulesOf k' g), routesOf k', linksOf k') =
        ((\<lambda>g. if g = f then [] else rulesOf k g), routesOf k, linksOf k)" for x k k'
    by (drule rule_add) (auto simp: fun_eq_iff)
  show "x \<in> set (rulesOf k f) \<Longrightarrow> RuleDel nl x k = (k', None) \<Longrightarrow>
      mset (rulesOf k' f) = mset (rulesOf k f) - {#x#} \<and>
        ((\<lambda>g. if g = f then [] else rulesOf k' g), routesOf k', linksOf k') =
        ((\<lambda>g. if g = f then [] else rulesOf k g), routesOf k, linksOf k)" for x k k'
    using rule_del [of x k k'] rule_family [of x k f] by (auto simp: fun_eq_iff)
qed

sublocale netlink_host \<subseteq> routes: reconciled "\<lambda>k. routesOf k f t"
  "\<lambda>k. ((\<lambda>g u. if g = f \<and> u = t then [] else routesOf k g u), rulesOf k, linksOf k)" "RouteAdd nl" "RouteDel nl" routeEqual
  "\<lambda>x. noFamily x = f \<and> noTable x = t" "\<lambda>_. True" for f t
proof unfold_locales
  show "routeEqual x x" for x by (simp add: routeEqual_key)
  show "routeEqual x y \<Longrightarrow> routeEqual y x" for x y by (simp add: routeEqual_key)
  show "routeEqual x y \<Longrightarrow> routeEqual y z \<Longrightarrow> routeEqual x z" for x y z by (simp add: routeEqual_key)
  show "noFamily x = f \<and> noTable x = t \<Longrightarrow> RouteAdd nl x k = (k', None) \<Longrightarrow>
      \<exists>y. routeEqual y x \<and> mset (routesOf k' f t) = add_mset y (mset (routesOf k f t)) \<and>
        ((\<lambda>g u. if g = f \<and> u = t then [] else routesOf k' g u), rulesOf k', linksOf k') =
        ((\<lambda>g u. if g = f \<and> u = t then [] else routesOf k g u), rulesOf k, linksOf k)" for x k k'
    by (drule route_add) (auto simp: fun_eq_iff)
  show "x \<in> set (routesOf k f t) \<Longrightarrow> RouteDel nl x k = (k', None) \<Longrightarrow>
      mset (routesOf k' f t) = mset (routesOf k f t) - {#x#} \<and>
        ((\<lambda>g u. if g = f \<and> u = t then [] else routesOf k' g u), rulesOf k', linksOf k') =
        ((\<lambda>g u. if g = f \<and> u = t then [] else routesOf k g u), rulesOf k, linksOf k)" for x k k'
    using route_del [of x k k'] route_place [of x k f t] by (auto simp: fun_eq_iff)
qed

context netlink_host
begin

text \<open>One family of rules.\<close>

definition rulesMatch :: "IPRule list \<Rightarrow> Family \<Rightarrow> 'k \<Rightarrow> bool" where
  "rulesMatch rules f k \<longleftrightarrow> rules.converged f (map toNLRule (filter (\<lambda>r. irFamily r = f) rules)) k"

lemma applyRulesIn_recon:
  "applyRulesIn nl rules f k =
     (case RuleList nl f k of
        Inl e \<Rightarrow> if map toNLRule (filter (\<lambda>r. irFamily r = f) rules) = [] \<and> ipv6Absent e then (k, None) else (k, Some e)
      | Inr existing \<Rightarrow> rules.recon (\<lambda>d. wrapping (ruleText f d)) (map toNLRule (filter (\<lambda>r. irFamily r = f) rules)) existing k)"
  unfolding applyRulesIn_def rules.recon_def ruleListed_def ruleWanted_def Let_def by (rule refl)

lemma applyRulesIn_ok:
  assumes "applyRulesIn nl rules f k = (k', None)"
  shows "rulesMatch rules f k'" and "mset (filter (\<lambda>x. \<not> ownedRule x) (rulesOf k f)) \<subseteq># mset (rulesOf k' f)"
    and "g \<noteq> f \<Longrightarrow> rulesOf k' g = rulesOf k g" and "routesOf k' = routesOf k" and "linksOf k' = linksOf k"
proof -
  let ?desired = "map toNLRule (filter (\<lambda>r. irFamily r = f) rules)"
  have mine: "\<forall>d \<in> set ?desired. nuFamily d = f" by (auto simp: toNLRule_def)
  have "rulesMatch rules f k' \<and> mset (filter (\<lambda>x. \<not> ownedRule x) (rulesOf k f)) \<subseteq># mset (rulesOf k' f) \<and>
    (\<forall>g. g \<noteq> f \<longrightarrow> rulesOf k' g = rulesOf k g) \<and> routesOf k' = routesOf k \<and> linksOf k' = linksOf k"
  proof (cases "RuleList nl f k")
    case (Inl e)
    then have k: "k' = k" "?desired = []" "errNoFamily e" using assms unfolding applyRulesIn_recon by (auto simp: ipv6Absent_def split: if_splits)
    then have "rulesOf k f = []" using rule_absent Inl by blast
    then show ?thesis using k by (simp add: rulesMatch_def rules.converged_def inStep_def)
  next
    case (Inr xs)
    then have "rules.recon (\<lambda>d. wrapping (ruleText f d)) ?desired (rulesOf k f) k = (k', None)"
      using assms rule_list [OF Inr] unfolding applyRulesIn_recon by simp
    from rules.recon_converges [OF mine this] show ?thesis by (auto simp: rulesMatch_def fun_eq_iff split: if_splits)
  qed
  then show "rulesMatch rules f k'" "mset (filter (\<lambda>x. \<not> ownedRule x) (rulesOf k f)) \<subseteq># mset (rulesOf k' f)"
    "g \<noteq> f \<Longrightarrow> rulesOf k' g = rulesOf k g" "routesOf k' = routesOf k" "linksOf k' = linksOf k" by simp_all
qed

lemma applyRulesIn_again: "rulesMatch rules f k \<Longrightarrow> fst (applyRulesIn nl rules f k) = k"
proof -
  assume m: "rulesMatch rules f k"
  show ?thesis
  proof (cases "RuleList nl f k")
    case (Inr xs)
    show ?thesis unfolding applyRulesIn_recon Inr rule_list [OF Inr]
      using rules.recon_again m by (simp add: rulesMatch_def)
  qed (simp add: applyRulesIn_recon)
qed

text \<open>All rules: each family in turn, the other one untouched by it.\<close>

lemma applyRules_ok:
  assumes "applyRules nl rules k = (k', None)"
  shows "rulesMatch rules f k'" and "mset (filter (\<lambda>x. \<not> ownedRule x) (rulesOf k f)) \<subseteq># mset (rulesOf k' f)"
    and "routesOf k' = routesOf k" and "linksOf k' = linksOf k"
proof -
  obtain k1 where k1: "applyRulesIn nl rules FamilyIPv4 k = (k1, None)" "applyRulesIn nl rules FamilyIPv6 k1 = (k', None)"
    using assms by (auto simp: applyRules_def families_def)
  note first = applyRulesIn_ok [OF k1(1)] and second = applyRulesIn_ok [OF k1(2)]
  have "rulesOf k1 FamilyIPv6 = rulesOf k FamilyIPv6" "rulesOf k' FamilyIPv4 = rulesOf k1 FamilyIPv4"
    using first(3) second(3) by simp_all
  moreover from this have "rulesMatch rules FamilyIPv4 k'" using first(1) by (simp add: rulesMatch_def rules.converged_def inStep_def)
  ultimately show "rulesMatch rules f k'" "mset (filter (\<lambda>x. \<not> ownedRule x) (rulesOf k f)) \<subseteq># mset (rulesOf k' f)"
    using first second by (cases f; simp)+
  show "routesOf k' = routesOf k" "linksOf k' = linksOf k" using first second by simp_all
qed

lemma applyRules_again:
  assumes "\<And>f. rulesMatch rules f k"
  shows "fst (applyRules nl rules k) = k"
  unfolding applyRules_def
  by (rule eachDo_invariant [of families "\<lambda>x. x = k" "applyRulesIn nl rules" k]) (use applyRulesIn_again assms in auto)

text \<open>The routes of a table and family.\<close>

lemma applyRoutesIn_recon:
  "applyRoutesIn nl desired table f k =
     (case RoutesInTable nl f (uint table) k of
        Inl e \<Rightarrow> if desired = [] \<and> ipv6Absent e then (k, None) else (k, Some e)
      | Inr existing \<Rightarrow> routes.recon (\<lambda>d. wrapping (routeText f table d)) desired existing k)"
  unfolding applyRoutesIn_def routes.recon_def routeListed_def routeWanted_def
  by (cases "RoutesInTable nl f (uint table) k") simp_all

lemma applyRoutesIn_ok:
  assumes "applyRoutesIn nl desired table f k = (k', None)"
    and "\<forall>d \<in> set desired. noFamily d = f \<and> noTable d = uint table"
  shows "routes.converged f (uint table) desired k' \<and>
    (\<forall>g t. (g, t) \<noteq> (f, uint table) \<longrightarrow> routesOf k' g t = routesOf k g t) \<and> rulesOf k' = rulesOf k \<and> linksOf k' = linksOf k"
proof (cases "RoutesInTable nl f (uint table) k")
  case (Inl e)
  then have k: "k' = k" "desired = []" "errNoFamily e"
    using assms unfolding applyRoutesIn_recon by (auto simp: ipv6Absent_def split: if_splits)
  then have "routesOf k f (uint table) = []" using route_absent Inl by blast
  then show ?thesis using k by (simp add: routes.converged_def inStep_def)
next
  case (Inr xs)
  then have "routes.recon (\<lambda>d. wrapping (routeText f table d)) desired (routesOf k f (uint table)) k = (k', None)"
    using assms(1) route_list [OF Inr] unfolding applyRoutesIn_recon by simp
  from routes.recon_converges [OF assms(2) this] show ?thesis by (auto simp: fun_eq_iff split: if_splits)
qed

lemma applyRoutesIn_again: "routes.converged f (uint table) desired k \<Longrightarrow> fst (applyRoutesIn nl desired table f k) = k"
proof -
  assume c: "routes.converged f (uint table) desired k"
  show ?thesis
  proof (cases "RoutesInTable nl f (uint table) k")
    case (Inr xs)
    show ?thesis unfolding applyRoutesIn_recon Inr route_list [OF Inr] using routes.recon_again c by simp
  qed (simp add: applyRoutesIn_recon)
qed

text \<open>All routes: every table of the plan, and the blocked table, in both families.\<close>

definition routesMatch :: "(Route \<times> NLRoute) list \<Rightarrow> 32 word \<Rightarrow> Family \<Rightarrow> 'k \<Rightarrow> bool" where
  "routesMatch rs t f k \<longleftrightarrow> routes.converged f (uint t) (routesFor rs t f) k"

lemma resolveRoutes_place:
  "resolveRoutes nl routes k = Inr rs \<Longrightarrow> (r, x) \<in> set rs \<Longrightarrow> noTable x = uint (rtTable r) \<and> noFamily x = routeFamily r"
  by (induction routes arbitrary: rs) (auto simp: toNLRoute_def split: sum.splits if_splits)

lemma routesMatch_cong: "routesOf k' f (uint t) = routesOf k f (uint t) \<Longrightarrow> routesMatch rs t f k' = routesMatch rs t f k"
  by (simp add: routesMatch_def routes.converged_def inStep_def)

lemma applyRoutes_step:
  assumes "resolveRoutes nl routes k0 = Inr rs" and "applyRoutesIn nl (routesFor rs t f) t f k = (k', None)"
  shows "routesMatch rs t f k'" and "(g, u) \<noteq> (f, t) \<Longrightarrow> routesMatch rs u g k' = routesMatch rs u g k"
    and "(g, i) \<noteq> (f, uint t) \<Longrightarrow> routesOf k' g i = routesOf k g i" and "rulesOf k' = rulesOf k" and "linksOf k' = linksOf k"
proof -
  have "\<forall>d \<in> set (routesFor rs t f). noFamily d = f \<and> noTable d = uint t"
    using resolveRoutes_place [OF assms(1)] by (auto simp: routesFor_def)
  note step = applyRoutesIn_ok [OF assms(2) this]
  then show "routesMatch rs t f k'" "(g, i) \<noteq> (f, uint t) \<Longrightarrow> routesOf k' g i = routesOf k g i" "rulesOf k' = rulesOf k" "linksOf k' = linksOf k"
    by (simp_all add: routesMatch_def)
  assume "(g, u) \<noteq> (f, t)"
  then have "(g, uint u) \<noteq> (f, uint t)" by (auto simp: word_uint_eq_iff)
  with step show "routesMatch rs u g k' = routesMatch rs u g k" by (intro routesMatch_cong) auto
qed

lemma applyRoutes_table:
  assumes "resolveRoutes nl routes k0 = Inr rs" and "eachDo (\<lambda>f. applyRoutesIn nl (routesFor rs t f) t f) families k = (k', None)"
  shows "routesMatch rs t f k'" and "u \<noteq> t \<Longrightarrow> routesMatch rs u f k' = routesMatch rs u f k"
    and "i \<noteq> uint t \<Longrightarrow> routesOf k' g i = routesOf k g i" and "rulesOf k' = rulesOf k" and "linksOf k' = linksOf k"
proof -
  obtain k1 where k1: "applyRoutesIn nl (routesFor rs t FamilyIPv4) t FamilyIPv4 k = (k1, None)"
      "applyRoutesIn nl (routesFor rs t FamilyIPv6) t FamilyIPv6 k1 = (k', None)"
    using assms(2) by (auto simp: families_def)
  note steps = applyRoutes_step [OF assms(1) k1(1)] applyRoutes_step [OF assms(1) k1(2)]
  show "routesMatch rs t f k'" using steps by (cases f) simp_all
  show "u \<noteq> t \<Longrightarrow> routesMatch rs u f k' = routesMatch rs u f k" "i \<noteq> uint t \<Longrightarrow> routesOf k' g i = routesOf k g i"
    "rulesOf k' = rulesOf k" "linksOf k' = linksOf k" using steps by simp_all
qed

lemma applyRoutes_ok:
  assumes "applyRoutes nl routes k = (k', None)"
  shows "\<exists>rs. resolveRoutes nl routes k = Inr rs \<and> (\<forall>t \<in> set (planTables routes). \<forall>f. routesMatch rs t f k') \<and>
    (\<forall>i g. i \<notin> uint ` set (planTables routes) \<longrightarrow> routesOf k' g i = routesOf k g i) \<and> rulesOf k' = rulesOf k \<and> linksOf k' = linksOf k"
proof -
  from assms obtain rs where rs: "resolveRoutes nl routes k = Inr rs"
    and run: "eachDo (\<lambda>t. eachDo (\<lambda>f. applyRoutesIn nl (routesFor rs t f) t f) families) (planTables routes) k = (k', None)"
    by (auto simp: applyRoutes_def reads_ok)
  note step = applyRoutes_table [OF rs]
  have "\<forall>t \<in> set (planTables routes). \<forall>f. routesMatch rs t f k'"
    by (rule eachDo_establishes [OF _ run]) (use step(1,2) in blast)
  moreover have "routesOf k' g i = routesOf k g i" if "i \<notin> uint ` set (planTables routes)" for g i
  proof (rule eachDo_keeps [OF _ run, where P = "\<lambda>k. routesOf k g i"])
    fix t k1 k2
    assume "t \<in> set (planTables routes)" and "eachDo (\<lambda>f. applyRoutesIn nl (routesFor rs t f) t f) families k1 = (k2, None)"
    then show "routesOf k2 g i = routesOf k1 g i" using step(3) that by blast
  qed
  moreover have "rulesOf k' = rulesOf k" by (rule eachDo_keeps [OF _ run]) (rule step(4))
  moreover have "linksOf k' = linksOf k" by (rule eachDo_keeps [OF _ run]) (rule step(5))
  ultimately show ?thesis using rs by blast
qed

end

end
