(* ===== verification/ApplyHost.thy ===== *)
theory ApplyHost
  imports NetlinkHost
begin

text \<open>
  The devices, the order of the stages of \<open>Apply\<close> and the teardown, under the laws of \<open>netlink_host\<close>,
  with what each result means for the plan's own objects. A host kept in lists, after the fake the
  repository tests with, meets the laws and carries the concrete runs.
\<close>

section \<open>What a plan asks of the host\<close>

text \<open>A rule of the kernel that carries what a planned rule says, and a route likewise.\<close>

definition realisesRule :: "IPRule \<Rightarrow> NLRule \<Rightarrow> bool" where
  "realisesRule r x \<longleftrightarrow>
     nuPriority x = uint (irPref r) \<and> nuMark x = irMark r \<and> nuTable x = uint (irTable r) \<and>
     (nuSuppressPrefixlen x = 0 \<longleftrightarrow> irSuppressDefault r) \<and>
     map_option ipNetText (nuDst x) =
       map_option (\<lambda>p. ipNetText \<lparr>ipnAddr = pfxAddr p, ipnBits = nat (prefixBits p)\<rparr>) (irTo r)"

definition realisesRoute :: "NLLink list \<Rightarrow> Route \<Rightarrow> NLRoute \<Rightarrow> bool" where
  "realisesRoute ls r x \<longleftrightarrow>
     noTable x = uint (rtTable r) \<and> noBlackhole x = rtBlackhole r \<and>
     (rtBlackhole r \<or>
      (\<exists>l \<in> set ls. nlName l = rtDev r \<and> noLinkIndex x = nlIndex l) \<and>
      map_option unmapAddr (noGw x) = map_option unmapAddr (asSlice (rtVia r)))"

text \<open>The rules of every family and the routes of the plan's tables are the plan's.\<close>

definition rulesSettled :: "IPRule list \<Rightarrow> (Family \<Rightarrow> NLRule list) \<Rightarrow> bool" where
  "rulesSettled rules has \<longleftrightarrow>
     (\<forall>f. (\<forall>r \<in> set rules. irFamily r = f \<longrightarrow> (\<exists>x \<in> set (has f). realisesRule r x)) \<and>
          (\<forall>x \<in> set (has f). ownedRule x \<longrightarrow> (\<exists>r \<in> set rules. irFamily r = f \<and> realisesRule r x)))"

definition routesSettled :: "NLLink list \<Rightarrow> Route list \<Rightarrow> (Family \<Rightarrow> int \<Rightarrow> NLRoute list) \<Rightarrow> bool" where
  "routesSettled ls routes has \<longleftrightarrow>
     (\<forall>f. \<forall>t \<in> insert EgressBlockedTable (rtTable ` set routes).
        (\<forall>r \<in> set routes. rtTable r = t \<and> routeFamily r = f \<longrightarrow> (\<exists>x \<in> set (has f (uint t)). realisesRoute ls r x)) \<and>
        (\<forall>x \<in> set (has f (uint t)). \<exists>r \<in> set routes. rtTable r = t \<and> routeFamily r = f \<and> realisesRoute ls r x))"

text \<open>A tunnel between the planned endpoints, and one that also has the planned VNI and port.\<close>

definition endsAt :: "Link \<Rightarrow> underlay \<Rightarrow> bool" where
  "endsAt l u \<longleftrightarrow> ulLocal u = Some (unmapAddr (lnLocalAddr l)) \<and> ulRemote u = Some (unmapAddr (lnRemoteAddr l))"

definition carries :: "Link \<Rightarrow> underlay \<Rightarrow> bool" where
  "carries l u \<longleftrightarrow> endsAt l u \<and> ulVNI u = uint (lnVNI l) \<and> ulPort u = uint (lnPort l)"

definition plainAddr :: "addr \<Rightarrow> bool" where
  "plainAddr a \<longleftrightarrow> addrIsValid a \<and> addrZone a = []"

definition plannedLinks :: "Link list \<Rightarrow> bool" where
  "plannedLinks links \<longleftrightarrow>
     distinct (map lnName links) \<and> (\<forall>l \<in> set links. plainAddr (lnLocalAddr l) \<and> plainAddr (lnRemoteAddr l))"

text \<open>
  The devices under kuport's prefix are the planned ones, between the planned endpoints; every other
  device is as it was.
\<close>

definition linksSettled :: "Link list \<Rightarrow> (string \<rightharpoonup> underlay option) \<Rightarrow> (string \<rightharpoonup> underlay option) \<Rightarrow> bool" where
  "linksSettled links before after \<longleftrightarrow>
     (\<forall>l \<in> set links. \<exists>u. after (lnName l) = Some (Some u) \<and> endsAt l u) \<and>
     (\<forall>n. n \<notin> lnName ` set links \<longrightarrow> after n = (if hasPrefix linkPrefix n then None else before n))"

text \<open>
  What is not kuport's: the devices whose names are neither under its prefix nor planned, and the
  routes through no device of its own.
\<close>

definition ours :: "Link list \<Rightarrow> string \<Rightarrow> bool" where
  "ours links n \<longleftrightarrow> hasPrefix linkPrefix n \<or> n \<in> lnName ` set links"

definition foreignDevices :: "Link list \<Rightarrow> NLLink list \<Rightarrow> NLLink set" where
  "foreignDevices links ls = {m \<in> set ls. \<not> ours links (nlName m)}"

definition ownIndices :: "Link list \<Rightarrow> NLLink list \<Rightarrow> int set" where
  "ownIndices links ls = nlIndex ` {m \<in> set ls. ours links (nlName m)}"

definition foreignRoutes :: "int set \<Rightarrow> NLRoute list \<Rightarrow> NLRoute list" where
  "foreignRoutes own xs = filter (\<lambda>x. noLinkIndex x \<notin> own) xs"

lemma foreignRoutes_but: "routesBut i xs = routesBut i ys \<Longrightarrow> i \<in> own \<Longrightarrow> foreignRoutes own xs = foreignRoutes own ys"
proof -
  assume e: "routesBut i xs = routesBut i ys" and i: "i \<in> own"
  have "foreignRoutes own zs = foreignRoutes own (routesBut i zs)" for zs
    using i by (auto simp: foreignRoutes_def routesBut_def intro!: filter_cong)
  with e show ?thesis by metis
qed

lemma indexOf_iff: "distinct (map nlName ls) \<Longrightarrow> indexOf ls n = Some i \<longleftrightarrow> (\<exists>m \<in> set ls. nlName m = n \<and> nlIndex m = i)"
  unfolding indexOf_def by (subst map_of_eq_Some_iff) (auto simp: comp_def)

lemma indexOf_cong:
  assumes "distinct (map nlName ls)" and "distinct (map nlName ls')" and "\<And>m. nlName m = n \<Longrightarrow> m \<in> set ls \<longleftrightarrow> m \<in> set ls'"
  shows "indexOf ls n = indexOf ls' n"
proof -
  have "indexOf ls n = Some i \<longleftrightarrow> indexOf ls' n = Some i" for i
    unfolding indexOf_iff [OF assms(1)] indexOf_iff [OF assms(2)] using assms(3) by blast
  then show ?thesis by (metis option.exhaust)
qed

section \<open>Lemmas: what a call leaves alone\<close>

definition leaves :: "('k \<Rightarrow> 'a) \<Rightarrow> 'k nlop \<Rightarrow> bool" where
  "leaves v f \<longleftrightarrow> (\<forall>k. v (fst (f k)) = v k)"

named_theorems leaves_intros

lemma leaves_ok [leaves_intros]: "leaves v ok"
  by (simp add: leaves_def ok_def)

lemma leaves_fail [leaves_intros]: "leaves v (failWith e)"
  by (simp add: leaves_def failWith_def)

lemma leaves_thenDo [leaves_intros]: "leaves v f \<Longrightarrow> leaves v g \<Longrightarrow> leaves v (thenDo f g)"
  unfolding leaves_def thenDo_def by (auto split: prod.splits option.splits) (metis fst_conv)+

lemma leaves_eachDo [leaves_intros]: "(\<And>x. x \<in> set xs \<Longrightarrow> leaves v (f x)) \<Longrightarrow> leaves v (eachDo f xs)"
  unfolding leaves_def by (intro allI) (rule eachDo_invariant [where P = "\<lambda>k'. v k' = v _"]; simp)

lemma leaves_onError [leaves_intros]: "leaves v f \<Longrightarrow> leaves v (onError w f)"
  unfolding leaves_def onError_def by (auto split: prod.splits option.splits) (metis fst_conv)+

lemma leaves_reads [leaves_intros]: "(\<And>x. leaves v (f x)) \<Longrightarrow> leaves v (reads r f)"
  by (auto simp: leaves_def reads_def split: sum.splits)

lemma leaves_readsFamily [leaves_intros]: "(\<And>x. leaves v (f x)) \<Longrightarrow> leaves v (readsFamily r f)"
  by (auto simp: leaves_def readsFamily_def split: sum.splits)

lemma leaves_if [leaves_intros]: "leaves v f \<Longrightarrow> leaves v g \<Longrightarrow> leaves v (if b then f else g)"
  by simp

lemma leaves_apply: "leaves v f \<Longrightarrow> v (fst (f k)) = v k"
  by (simp add: leaves_def)

lemma leavesD: "leaves v f \<Longrightarrow> f k = (k', e) \<Longrightarrow> v k' = v k"
  unfolding leaves_def by (metis fst_conv)

section \<open>Devices\<close>

lemma asSlice_plain [simp]: "plainAddr a \<Longrightarrow> asSlice a = Some a"
  by (cases a) (auto simp: plainAddr_def asSlice_def)

text \<open>What is decided for an existing device says what its underlay is.\<close>

lemma linkActionFor_keep:
  "linkActionFor e l = linkKeep \<Longrightarrow> \<exists>u. map_option normUnderlay (nlVxlan e) = Some u \<and> carries l u"
  by (auto simp: linkActionFor_def underlayOf_def unmap_def Let_def carries_def endsAt_def normUnderlay_def split: option.splits if_splits)

lemma linkActionFor_retarget:
  "linkActionFor e l = linkRetarget \<Longrightarrow> \<exists>u. map_option normUnderlay (nlVxlan e) = Some u \<and> \<not> endsAt l u"
  by (auto simp: linkActionFor_def underlayOf_def unmap_def Let_def endsAt_def normUnderlay_def split: option.splits if_splits)

lemma vxlanFor_carries:
  assumes "plainAddr (lnLocalAddr l)" and "plainAddr (lnRemoteAddr l)"
  shows "\<exists>u. map_option normUnderlay (nlVxlan (vxlanFor l)) = Some u \<and> carries l u"
  using assms by (simp add: vxlanFor_def carries_def endsAt_def normUnderlay_def)

lemma vxlanFor_name [simp]: "nlName (vxlanFor l) = lnName l"
  by (simp add: vxlanFor_def)

lemma retarget_ends:
  assumes "plainAddr (lnLocalAddr l)" and "plainAddr (lnRemoteAddr l)"
  shows "endsAt l (retarget (asSlice (lnLocalAddr l)) (asSlice (lnRemoteAddr l)) u)"
  using assms by (simp add: endsAt_def retarget_def)

lemma devsOf_filter: "devsOf (filter (\<lambda>m. P (nlName m)) ls) n = (if P n then devsOf ls n else None)"
  by (induction ls) (auto simp: devsOf_def)

context netlink_host
begin

definition devs :: "'k \<Rightarrow> string \<rightharpoonup> underlay option" where
  "devs k = devsOf (linksOf k)"

lemma link_found_dev: "LinkByName nl n k = Inr l \<Longrightarrow> devs k n = Some (map_option normUnderlay (nlVxlan l))"
  using link_found [of n k l] link_unique [of k]
  by (auto simp: devs_def devsOf_def comp_def intro!: map_of_is_SomeI)

lemma devs_del: "l \<in> set (linksOf k) \<Longrightarrow> LinkDel nl l k = (k', None) \<Longrightarrow> devs k' = (devs k)(nlName l := None)"
  using link_del [of l k k'] devsOf_filter [of "\<lambda>n. n \<noteq> nlName l" "linksOf k"] by (auto simp: devs_def fun_eq_iff)

lemma createLink_ok:
  assumes "plainAddr (lnLocalAddr l)" "plainAddr (lnRemoteAddr l)" and "createLink nl w l k = (k', Inr e)"
  shows "\<exists>u. devs k' = (devs k)(lnName l \<mapsto> Some u) \<and> carries l u"
proof -
  have "LinkAdd nl (vxlanFor l) k = (k', Inr e)"
    using assms(3) by (auto simp: createLink_def split: prod.splits sum.splits)
  from link_add [OF this] show ?thesis using vxlanFor_carries [OF assms(1,2)] by (auto simp: devs_def)
qed

lemma rebuildLink_ok:
  assumes "plainAddr (lnLocalAddr l)" "plainAddr (lnRemoteAddr l)" and "rebuildLink nl x l k = (k', Inr e)"
    and "x \<in> set (linksOf k)" "nlName x = lnName l"
  shows "\<exists>u. devs k' = (devs k)(lnName l \<mapsto> Some u) \<and> carries l u"
proof -
  obtain k1 w where k1: "LinkDel nl x k = (k1, None)" "createLink nl w l k1 = (k', Inr e)"
    using assms(3) by (auto simp: rebuildLink_def split: prod.splits option.splits)
  from createLink_ok [OF assms(1,2) k1(2)] devs_del [OF assms(4) k1(1)] assms(5) show ?thesis by auto
qed

text \<open>
  The device stage of one link: it ends at the planned endpoints, and it carries the plan's VNI and
  port too unless it was a tunnel to other endpoints before, which is only retargeted.
\<close>

lemma ensureLink_ok:
  assumes plain: "plainAddr (lnLocalAddr l)" "plainAddr (lnRemoteAddr l)" and run: "ensureLink nl l k = (k', Inr e)"
  shows "\<exists>u. devs k' = (devs k)(lnName l \<mapsto> Some u) \<and> endsAt l u \<and>
    (carries l u \<or> (\<exists>v. devs k (lnName l) = Some (Some v) \<and> \<not> endsAt l v))"
proof (cases "LinkByName nl (lnName l) k")
  case (Inl err)
  then show ?thesis using run createLink_ok [OF plain] by (fastforce simp: ensureLink_def carries_def)
next
  case (Inr x)
  note x = link_found [OF Inr] link_found_dev [OF Inr]
  show ?thesis
  proof (cases "linkActionFor x l")
    case linkKeep
    then have "k' = k" using run Inr by (simp add: ensureLink_def)
    moreover obtain u where "devs k (lnName l) = Some (Some u)" "carries l u" using linkActionFor_keep [OF linkKeep] x(2) by auto
    ultimately show ?thesis by (intro exI [of _ u]) (auto simp: carries_def)
  next
    case linkRebuild
    then have "rebuildLink nl x l k = (k', Inr e)" using run Inr by (simp add: ensureLink_def)
    from rebuildLink_ok [OF plain this] x(1) show ?thesis by (auto simp: carries_def)
  next
    case linkRetarget
    obtain u where u: "devs k (lnName l) = Some (Some u)" "\<not> endsAt l u" using linkActionFor_retarget [OF linkRetarget] x(2) by auto
    show ?thesis
    proof (cases "LinkSetUnderlay nl")
      case None
      then have "rebuildLink nl x l k = (k', Inr e)" using run Inr linkRetarget by (simp add: ensureLink_def)
      from rebuildLink_ok [OF plain this] x(1) show ?thesis by (auto simp: carries_def)
    next
      case (Some setu)
      then have "setu (nlIndex x) (lnName l) (asSlice (lnLocalAddr l)) (asSlice (lnRemoteAddr l)) k = (k', None)"
        using run Inr linkRetarget by (auto simp: ensureLink_def split: prod.splits option.splits)
      from link_retarget [OF Some this] u show ?thesis using retarget_ends [OF plain] by (auto simp: devs_def)
    qed
  qed
qed

text \<open>The rest of a link's stage changes no device's underlay, and no stage of it a rule.\<close>

lemma link_calls_leave_devs [leaves_intros]:
  "leaves devs (LinkSetUp nl l)" "leaves devs (LinkSetMTU nl l i)" "leaves devs (AddrAdd nl l ad)" "leaves devs (AddrDel nl l ad)"
  by (simp_all add: leaves_def devs_def devs_untouched)

lemma link_calls_leave_rules [leaves_intros]:
  "leaves rulesOf (LinkDel nl l)" "leaves rulesOf (LinkSetUp nl l)" "leaves rulesOf (LinkSetMTU nl l i)"
  "leaves rulesOf (AddrAdd nl l ad)" "leaves rulesOf (AddrDel nl l ad)"
  by (simp_all add: leaves_def rules_untouched)

lemma dressLink_leaves:
  assumes "leaves v (LinkSetUp nl e)" and "\<And>i. leaves v (LinkSetMTU nl e i)"
    and "\<And>a. leaves v (AddrAdd nl e a)" and "\<And>a. leaves v (AddrDel nl e a)"
  shows "leaves v (dressLink nl l e)"
proof -
  have "leaves v (applyLinkAddr6 nl e l)"
    unfolding leaves_def [of v "applyLinkAddr6 nl e l"] applyLinkAddr6_def
    by (auto split: sum.splits option.splits if_splits intro!: leaves_apply leaves_intros assms)
  then show ?thesis unfolding dressLink_def by (intro leaves_intros assms)
qed

lemma applyLink_ok:
  assumes "plainAddr (lnLocalAddr l)" "plainAddr (lnRemoteAddr l)" and "applyLink nl l k = (k', None)"
  shows "\<exists>u. devs k' = (devs k)(lnName l \<mapsto> Some u) \<and> endsAt l u \<and>
    (carries l u \<or> (\<exists>v. devs k (lnName l) = Some (Some v) \<and> \<not> endsAt l v))"
proof -
  obtain k1 e where k1: "ensureLink nl l k = (k1, Inr e)" "dressLink nl l e k1 = (k', None)"
    using assms(3) by (auto simp: applyLink_def split: prod.splits sum.splits)
  have "devs k' = devs k1" using leavesD [OF dressLink_leaves k1(2)] link_calls_leave_devs by blast
  with ensureLink_ok [OF assms(1,2) k1(1)] show ?thesis by simp
qed

lemma createLink_rules: "rulesOf (fst (createLink nl w l k)) = rulesOf k"
  using rules_untouched(1) [of "vxlanFor l" k] by (auto simp: createLink_def split: prod.splits sum.splits)

lemma rebuildLink_rules: "rulesOf (fst (rebuildLink nl x l k)) = rulesOf k"
  using rules_untouched(2) [of x k] createLink_rules by (auto simp: rebuildLink_def split: prod.splits option.splits)

lemma ensureLink_rules: "rulesOf (fst (ensureLink nl l k)) = rulesOf k"
proof (cases "LinkByName nl (lnName l) k")
  case (Inr x)
  show ?thesis
  proof (cases "linkActionFor x l = linkRetarget \<and> LinkSetUnderlay nl \<noteq> None")
    case True
    then obtain setu where "LinkSetUnderlay nl = Some setu" by blast
    with True Inr show ?thesis
      using rules_retarget [of setu "nlIndex x" "lnName l" "asSlice (lnLocalAddr l)" "asSlice (lnRemoteAddr l)" k]
      by (auto simp: ensureLink_def split: prod.splits option.splits)
  next
    case False
    with Inr show ?thesis using rebuildLink_rules by (auto simp: ensureLink_def split: linkAction.splits option.splits)
  qed
qed (simp add: ensureLink_def createLink_rules)

lemma applyLink_leaves_rules [leaves_intros]: "leaves rulesOf (applyLink nl l)"
  unfolding leaves_def
proof
  fix k
  obtain k1 r where k1: "ensureLink nl l k = (k1, r)" by fastforce
  then have "rulesOf k1 = rulesOf k" using ensureLink_rules [of l k] by simp
  moreover have "leaves rulesOf (dressLink nl l e)" for e by (intro dressLink_leaves leaves_intros)
  ultimately show "rulesOf (fst (applyLink nl l k)) = rulesOf k"
    using k1 by (cases r) (simp_all add: applyLink_def leaves_apply)
qed

lemma applyLinks_leaves_rules: "leaves rulesOf (applyLinks nl links)"
  unfolding applyLinks_def by (intro leaves_intros)

text \<open>
  A stage that concerns one device: every other device stays as it is, and so does every route
  through none of the indices the device has before or after.
\<close>

definition concerns :: "string \<Rightarrow> 'k \<Rightarrow> 'k \<Rightarrow> bool" where
  "concerns n k k' \<longleftrightarrow> devicesBut n (linksOf k') = devicesBut n (linksOf k) \<and>
     (\<forall>own f t. (\<forall>i. indexOf (linksOf k) n = Some i \<or> indexOf (linksOf k') n = Some i \<longrightarrow> i \<in> own) \<longrightarrow>
        foreignRoutes own (routesOf k' f t) = foreignRoutes own (routesOf k f t))"

lemma concernsI:
  assumes "devicesBut n (linksOf k') = devicesBut n (linksOf k)" and "indexOf (linksOf k') n = Some i"
    and "\<And>f t. routesBut i (routesOf k' f t) = routesBut i (routesOf k f t)"
  shows "concerns n k k'"
  unfolding concerns_def using assms(1,2) foreignRoutes_but [OF assms(3)] by blast

lemma found_index: "LinkByName nl n k = Inr l \<Longrightarrow> indexOf (linksOf k) n = Some (nlIndex l)"
  using link_found [of n k l] by (auto simp: indexOf_iff [OF link_unique])

lemma createLink_concerns:
  assumes "createLink nl w l k = (k', Inr e)"
  shows "concerns (lnName l) k k'" and "nlName e = lnName l" and "indexOf (linksOf k') (lnName l) = Some (nlIndex e)"
proof -
  have add: "LinkAdd nl (vxlanFor l) k = (k', Inr e)"
    using assms by (auto simp: createLink_def split: prod.splits sum.splits)
  note dev = link_add_dev [OF add, simplified]
  show "nlName e = lnName l" "indexOf (linksOf k') (lnName l) = Some (nlIndex e)" using dev by auto
  have "devicesBut (lnName l) (linksOf k') = devicesBut (lnName l) (linksOf k)"
    using own_device(1) [of "vxlanFor l" k] add by simp
  then show "concerns (lnName l) k k'" by (rule concernsI) (use dev in blast)+
qed

lemma delete_concerns:
  assumes "x \<in> set (linksOf k)" and "LinkDel nl x k = (k1, None)" and "concerns (nlName x) k1 k'"
  shows "concerns (nlName x) k k'"
proof -
  have l1: "linksOf k1 = filter (\<lambda>m. nlName m \<noteq> nlName x) (linksOf k)" by (rule link_del [OF assms(1,2)])
  have "indexOf (linksOf k1) (nlName x) = None" by (auto simp: l1 indexOf_def map_of_eq_None_iff)
  moreover have "indexOf (linksOf k) (nlName x) = Some (nlIndex x)" using assms(1) by (auto simp: indexOf_iff [OF link_unique])
  moreover have "foreignRoutes own (routesOf k1 f t) = foreignRoutes own (routesOf k f t)" if "nlIndex x \<in> own" for own f t
    by (rule foreignRoutes_but [OF _ that]) (simp add: link_del_routes [OF assms(1,2)] routesBut_def)
  ultimately show ?thesis using assms(3) by (simp add: concerns_def l1 devicesBut_def)
qed

lemma rebuildLink_concerns:
  assumes "rebuildLink nl x l k = (k', Inr e)" and "x \<in> set (linksOf k)" and "nlName x = lnName l"
  shows "concerns (lnName l) k k'" and "nlName e = lnName l" and "indexOf (linksOf k') (lnName l) = Some (nlIndex e)"
proof -
  obtain k1 w where k1: "LinkDel nl x k = (k1, None)" "createLink nl w l k1 = (k', Inr e)"
    using assms(1) by (auto simp: rebuildLink_def split: prod.splits option.splits)
  note c = createLink_concerns [OF k1(2)]
  show "nlName e = lnName l" "indexOf (linksOf k') (lnName l) = Some (nlIndex e)" by (rule c)+
  show "concerns (lnName l) k k'" using delete_concerns [OF assms(2) k1(1)] c(1) assms(3) by simp
qed

lemma ensureLink_concerns:
  assumes "ensureLink nl l k = (k', Inr e)"
  shows "concerns (lnName l) k k' \<and> nlName e = lnName l \<and> indexOf (linksOf k') (lnName l) = Some (nlIndex e)"
proof (cases "LinkByName nl (lnName l) k")
  case (Inl err)
  then show ?thesis using assms createLink_concerns by (auto simp: ensureLink_def)
next
  case (Inr x)
  note x = link_found [OF Inr] found_index [OF Inr]
  have rebuilt: ?thesis if "rebuildLink nl x l k = (k', Inr e)"
    using rebuildLink_concerns [OF that] x(1) by blast
  show ?thesis
  proof (cases "linkActionFor x l = linkRetarget \<and> LinkSetUnderlay nl \<noteq> None")
    case True
    then obtain setu where setu: "LinkSetUnderlay nl = Some setu" by blast
    then have "setu (nlIndex x) (lnName l) (asSlice (lnLocalAddr l)) (asSlice (lnRemoteAddr l)) k = (k', None)" "e = x"
      using assms Inr True by (auto simp: ensureLink_def split: prod.splits option.splits)
    with own_retarget [OF setu, of "lnName l" "nlIndex x" "asSlice (lnLocalAddr l)" "asSlice (lnRemoteAddr l)" k]
    have "devicesBut (lnName l) (linksOf k') = devicesBut (lnName l) (linksOf k)" "indexOf (linksOf k') = indexOf (linksOf k)"
      "\<And>f t. routesBut (nlIndex x) (routesOf k' f t) = routesBut (nlIndex x) (routesOf k f t)" by simp_all
    moreover from this have "concerns (lnName l) k k'" using x(2) by (intro concernsI [of _ _ _ "nlIndex x"]) simp_all
    ultimately show ?thesis using x \<open>e = x\<close> by simp
  next
    case False
    then have "rebuildLink nl x l k = (k', Inr e) \<or> k' = k \<and> e = x"
      using assms Inr by (auto simp: ensureLink_def split: linkAction.splits option.splits)
    then show ?thesis using rebuilt x by (auto simp: concerns_def)
  qed
qed

lemma applyLink_concerns:
  assumes "applyLink nl l k = (k', None)"
  shows "concerns (lnName l) k k'"
proof -
  obtain k1 e where k1: "ensureLink nl l k = (k1, Inr e)" "dressLink nl l e k1 = (k', None)"
    using assms by (auto simp: applyLink_def split: prod.splits sum.splits)
  note c = ensureLink_concerns [OF k1(1)]
  have "leaves (\<lambda>k. devicesBut (nlName e) (linksOf k)) (dressLink nl l e)"
    by (rule dressLink_leaves) (simp_all add: leaves_def own_device)
  from leavesD [OF this k1(2)] have "devicesBut (nlName e) (linksOf k') = devicesBut (nlName e) (linksOf k1)" .
  moreover have "leaves (\<lambda>k. indexOf (linksOf k)) (dressLink nl l e)"
    by (rule dressLink_leaves) (simp_all add: leaves_def own_index)
  from leavesD [OF this k1(2)] have "indexOf (linksOf k') = indexOf (linksOf k1)" .
  moreover have "foreignRoutes own (routesOf k' f t) = foreignRoutes own (routesOf k1 f t)" if "nlIndex e \<in> own" for own f t
  proof -
    have "leaves (\<lambda>k. foreignRoutes own (routesOf k f t)) (dressLink nl l e)"
      by (rule dressLink_leaves; unfold leaves_def; intro allI; rule foreignRoutes_but [OF _ that]; rule own_routes)
    from leavesD [OF this k1(2)] show ?thesis .
  qed
  ultimately have "devicesBut (nlName e) (linksOf k') = devicesBut (nlName e) (linksOf k1)" "indexOf (linksOf k') = indexOf (linksOf k1)"
    "\<And>own f t. nlIndex e \<in> own \<Longrightarrow> foreignRoutes own (routesOf k' f t) = foreignRoutes own (routesOf k1 f t)" by blast+
  with c show ?thesis by (simp add: concerns_def)
qed

text \<open>The links one after the other, each touching its own device.\<close>

lemma eachLink_ok:
  assumes "plannedLinks links" and "eachDo (applyLink nl) links k = (k', None)"
  shows "(\<forall>l \<in> set links. \<exists>u. devs k' (lnName l) = Some (Some u) \<and> endsAt l u \<and>
      (carries l u \<or> (\<exists>v. devs k (lnName l) = Some (Some v) \<and> \<not> endsAt l v))) \<and>
    (\<forall>n. n \<notin> lnName ` set links \<longrightarrow> devs k' n = devs k n)"
  using assms
proof (induction links arbitrary: k)
  case (Cons l links)
  obtain k1 where k1: "applyLink nl l k = (k1, None)" "eachDo (applyLink nl) links k1 = (k', None)" using Cons.prems(2) by auto
  have plan: "plannedLinks links" "lnName l \<notin> lnName ` set links" "plainAddr (lnLocalAddr l)" "plainAddr (lnRemoteAddr l)"
    using Cons.prems(1) by (auto simp: plannedLinks_def)
  obtain u where u: "devs k1 = (devs k)(lnName l \<mapsto> Some u)" "endsAt l u"
      "carries l u \<or> (\<exists>v. devs k (lnName l) = Some (Some v) \<and> \<not> endsAt l v)"
    using applyLink_ok [OF plan(3,4) k1(1)] by blast
  note IH = Cons.IH [OF plan(1) k1(2)]
  have kept: "devs k' (lnName l) = Some (Some u)" using IH plan(2) u(1) by simp
  have other: "devs k1 (lnName m) = devs k (lnName m)" if "m \<in> set links" for m
  proof -
    have "lnName m \<noteq> lnName l" using that plan(2) by (metis image_eqI)
    then show ?thesis using u(1) by simp
  qed
  from IH kept other u show ?case by auto
qed simp

lemma concerns_index: "concerns n k k' \<Longrightarrow> m \<noteq> n \<Longrightarrow> indexOf (linksOf k') m = indexOf (linksOf k) m"
  by (rule indexOf_cong [OF link_unique link_unique]) (auto simp: concerns_def devicesBut_def)

lemma eachLink_concerns:
  assumes "distinct (map lnName links)" and "eachDo (applyLink nl) links k = (k', None)"
  shows "\<forall>m. nlName m \<notin> lnName ` set links \<longrightarrow> (m \<in> set (linksOf k') \<longleftrightarrow> m \<in> set (linksOf k))"
    and "(\<And>n i. n \<in> lnName ` set links \<Longrightarrow> indexOf (linksOf k) n = Some i \<or> indexOf (linksOf k') n = Some i \<Longrightarrow> i \<in> own) \<Longrightarrow>
      foreignRoutes own (routesOf k' f t) = foreignRoutes own (routesOf k f t)"
  using assms
proof (induction links arbitrary: k)
  case (Cons l links)
  {
    case 1
    then obtain k1 where k1: "applyLink nl l k = (k1, None)" "eachDo (applyLink nl) links k1 = (k', None)" by auto
    show ?case using Cons.IH(1) [OF _ k1(2)] 1(1) applyLink_concerns [OF k1(1)] by (auto simp: concerns_def devicesBut_def)
  next
    case 2
    then obtain k1 where k1: "applyLink nl l k = (k1, None)" "eachDo (applyLink nl) links k1 = (k', None)" by auto
    have names: "distinct (map lnName links)" "lnName l \<notin> lnName ` set links" using 2(2) by auto
    note c = applyLink_concerns [OF k1(1)]
    have later: "indexOf (linksOf k1) n = indexOf (linksOf k) n" if "n \<in> lnName ` set links" for n
      by (rule concerns_index [OF c]) (use that names(2) in blast)
    have own: "indexOf (linksOf k') (lnName l) = indexOf (linksOf k1) (lnName l)"
      by (rule indexOf_cong [OF link_unique link_unique]) (use Cons.IH(1) [OF names(1) k1(2)] names(2) in auto)
    have "foreignRoutes own (routesOf k' f t) = foreignRoutes own (routesOf k1 f t)"
      by (rule Cons.IH(2) [OF _ names(1) k1(2)]) (use 2(1) later in auto)
    also have "foreignRoutes own (routesOf k1 f t) = foreignRoutes own (routesOf k f t)"
      using c 2(1) [of "lnName l"] own by (simp add: concerns_def)
    finally show ?case .
  }
qed simp_all

text \<open>A loop over the listed devices that deletes the selected ones.\<close>

lemma eachDelete_ok:
  assumes del: "\<And>x k k'. S x \<Longrightarrow> x \<in> set (linksOf k) \<Longrightarrow> f x k = (k', None) \<Longrightarrow> linksOf k' = filter (\<lambda>m. nlName m \<noteq> nlName x) (linksOf k)"
    and skip: "\<And>x k. \<not> S x \<Longrightarrow> f x k = (k, None)"
    and "eachDo f xs k = (k', None)" and "set (filter S xs) \<subseteq> set (linksOf k)" and "distinct (map nlName xs)"
  shows "linksOf k' = filter (\<lambda>m. \<forall>x \<in> set xs. S x \<longrightarrow> nlName m \<noteq> nlName x) (linksOf k)"
  using assms(3-)
proof (induction xs arbitrary: k)
  case (Cons x xs)
  obtain k1 where k1: "f x k = (k1, None)" "eachDo f xs k1 = (k', None)" using Cons.prems(1) by auto
  show ?case
  proof (cases "S x")
    case True
    then have l1: "linksOf k1 = filter (\<lambda>m. nlName m \<noteq> nlName x) (linksOf k)" using del k1(1) Cons.prems(2) by simp
    moreover have "set (filter S xs) \<subseteq> set (linksOf k1)" using Cons.prems(2,3) True unfolding l1 by (auto simp: image_iff)
    ultimately show ?thesis using Cons.IH [OF k1(2)] Cons.prems(3) True by (simp cong: filter_cong)
  next
    case False
    then have "k1 = k" using skip [of x k] k1(1) by simp
    then show ?thesis using Cons.IH [OF k1(2)] Cons.prems False by simp
  qed
qed simp

text \<open>The routes through the deleted devices go, and no others.\<close>

lemma eachDelete_routes:
  assumes del: "\<And>x k k'. S x \<Longrightarrow> x \<in> set (linksOf k) \<Longrightarrow> f x k = (k', None) \<Longrightarrow>
      linksOf k' = filter (\<lambda>m. nlName m \<noteq> nlName x) (linksOf k) \<and> (\<forall>g t. routesOf k' g t = routesBut (nlIndex x) (routesOf k g t))"
    and skip: "\<And>x k. \<not> S x \<Longrightarrow> f x k = (k, None)"
    and "eachDo f xs k = (k', None)" and "set (filter S xs) \<subseteq> set (linksOf k)" and "distinct (map nlName xs)"
  shows "routesOf k' g t = foreignRoutes (nlIndex ` set (filter S xs)) (routesOf k g t)"
  using assms(3-)
proof (induction xs arbitrary: k)
  case (Cons x xs)
  obtain k1 where k1: "f x k = (k1, None)" "eachDo f xs k1 = (k', None)" using Cons.prems(1) by auto
  show ?case
  proof (cases "S x")
    case True
    then have l1: "linksOf k1 = filter (\<lambda>m. nlName m \<noteq> nlName x) (linksOf k)" "routesOf k1 g t = routesBut (nlIndex x) (routesOf k g t)"
      using del k1(1) Cons.prems(2) by simp_all
    moreover have "set (filter S xs) \<subseteq> set (linksOf k1)" using Cons.prems(2,3) True unfolding l1(1) by (auto simp: image_iff)
    ultimately show ?thesis using Cons.IH [OF k1(2)] Cons.prems(3) True
      by (auto simp: foreignRoutes_def routesBut_def intro: filter_cong)
  next
    case False
    then have "k1 = k" using skip [of x k] k1(1) by simp
    then show ?thesis using Cons.IH [OF k1(2)] Cons.prems False by simp
  qed
qed (simp add: foreignRoutes_def)

lemma eachDelete_all:
  assumes "\<And>x k k'. T (nlName x) \<Longrightarrow> x \<in> set (linksOf k) \<Longrightarrow> f x k = (k', None) \<Longrightarrow> linksOf k' = filter (\<lambda>m. nlName m \<noteq> nlName x) (linksOf k)"
    and "\<And>x k. \<not> T (nlName x) \<Longrightarrow> f x k = (k, None)" and "eachDo f (linksOf k) k = (k', None)"
  shows "devs k' n = (if T n then None else devs k n)"
proof -
  have "linksOf k' = filter (\<lambda>m. \<forall>x \<in> set (linksOf k). T (nlName x) \<longrightarrow> nlName m \<noteq> nlName x) (linksOf k)"
    by (rule eachDelete_ok [where S = "\<lambda>x. T (nlName x)", OF assms]) (use link_unique in auto)
  also have "\<dots> = filter (\<lambda>m. \<not> T (nlName m)) (linksOf k)" by (rule filter_cong) auto
  finally show ?thesis using devsOf_filter [of "\<lambda>n. \<not> T n" "linksOf k" n] by (simp add: devs_def)
qed

lemma applyLinks_ok:
  assumes "plannedLinks links" and "applyLinks nl links k = (k', None)"
  shows "linksSettled links (devs k) (devs k')"
    and "l \<in> set links \<Longrightarrow> \<exists>u. devs k' (lnName l) = Some (Some u) \<and>
      (carries l u \<or> (\<exists>v. devs k (lnName l) = Some (Some v) \<and> \<not> endsAt l v))"
proof -
  let ?f = "\<lambda>l. if hasPrefix linkPrefix (nlName l) \<and> nlName l \<notin> lnName ` set links then LinkDel nl l else ok"
  obtain k1 where k1: "eachDo (applyLink nl) links k = (k1, None)" and "\<exists>ls. LinkList nl k1 = Inr ls \<and> eachDo ?f ls k1 = (k', None)"
    using assms(2) unfolding applyLinks_def thenDo_ok reads_ok by blast
  then have del: "eachDo ?f (linksOf k1) k1 = (k', None)" using link_list by blast
  have d: "devs k' n = (if hasPrefix linkPrefix n \<and> n \<notin> lnName ` set links then None else devs k1 n)" for n
    by (rule eachDelete_all [OF _ _ del]) (auto simp: ok_def link_del)
  note each = eachLink_ok [OF assms(1) k1]
  show "linksSettled links (devs k) (devs k')" unfolding linksSettled_def d using each by auto
  show "l \<in> set links \<Longrightarrow> \<exists>u. devs k' (lnName l) = Some (Some u) \<and>
      (carries l u \<or> (\<exists>v. devs k (lnName l) = Some (Some v) \<and> \<not> endsAt l v))"
    using each d by auto
qed

lemma applyLinks_foreign:
  assumes "plannedLinks links" and "applyLinks nl links k = (k', None)"
  shows "foreignDevices links (linksOf k') = foreignDevices links (linksOf k)"
    and "ownIndices links (linksOf k) \<union> ownIndices links (linksOf k') \<subseteq> own \<Longrightarrow>
      foreignRoutes own (routesOf k' f t) = foreignRoutes own (routesOf k f t)"
proof -
  let ?S = "\<lambda>m. hasPrefix linkPrefix (nlName m) \<and> nlName m \<notin> lnName ` set links"
  let ?f = "\<lambda>l. if ?S l then LinkDel nl l else ok"
  obtain k1 where k1: "eachDo (applyLink nl) links k = (k1, None)" and "\<exists>ls. LinkList nl k1 = Inr ls \<and> eachDo ?f ls k1 = (k', None)"
    using assms(2) unfolding applyLinks_def thenDo_ok reads_ok by blast
  then have del: "eachDo ?f (linksOf k1) k1 = (k', None)" using link_list by blast
  have d: "distinct (map lnName links)" using assms(1) by (simp add: plannedLinks_def)
  note each = eachLink_concerns [OF d k1]
  have "linksOf k' = filter (\<lambda>m. \<forall>x \<in> set (linksOf k1). ?S x \<longrightarrow> nlName m \<noteq> nlName x) (linksOf k1)"
    by (rule eachDelete_ok [OF _ _ del]) (use link_unique in \<open>auto simp: ok_def link_del\<close>)
  then have left: "m \<in> set (linksOf k') \<longleftrightarrow> m \<in> set (linksOf k1) \<and> \<not> ?S m" for m by auto
  then show "foreignDevices links (linksOf k') = foreignDevices links (linksOf k)"
    using each(1) by (auto simp: foreignDevices_def ours_def)
  assume own: "ownIndices links (linksOf k) \<union> ownIndices links (linksOf k') \<subseteq> own"
  have "routesOf k' f t = foreignRoutes (nlIndex ` set (filter ?S (linksOf k1))) (routesOf k1 f t)"
    by (rule eachDelete_routes [OF _ _ del]) (use link_unique in \<open>auto simp: ok_def link_del link_del_routes\<close>)
  moreover have "nlIndex ` set (filter ?S (linksOf k1)) \<subseteq> own" using own each(1) by (auto simp: ownIndices_def ours_def)
  ultimately have "foreignRoutes own (routesOf k' f t) = foreignRoutes own (routesOf k1 f t)"
    by (auto simp: foreignRoutes_def intro!: filter_cong)
  also have "\<dots> = foreignRoutes own (routesOf k f t)"
  proof (rule each(2))
    fix n i
    assume n: "n \<in> lnName ` set links" and i: "indexOf (linksOf k) n = Some i \<or> indexOf (linksOf k1) n = Some i"
    have "indexOf (linksOf k1) n = indexOf (linksOf k') n"
      by (rule indexOf_cong [OF link_unique link_unique]) (use left n in auto)
    with i n own show "i \<in> own" by (auto simp: indexOf_iff [OF link_unique] ownIndices_def ours_def)
  qed
  finally show "foreignRoutes own (routesOf k' f t) = foreignRoutes own (routesOf k f t)" .
qed

end

section \<open>Rules and routes\<close>

lemma ruleEqual_realises: "ruleEqual x (toNLRule r) \<longleftrightarrow> realisesRule r x"
  by (auto simp: ruleEqual_def realisesRule_def toNLRule_def suppressed_def ipNetEqual_def option.map_comp comp_def)

lemma ruleEqual_sym: "ruleEqual a b = ruleEqual b a"
  unfolding ruleEqual_key by (rule eq_commute)

lemma routeEqual_sym: "routeEqual a b = routeEqual b a"
  unfolding routeEqual_key by (rule eq_commute)

lemma set_planTables: "set (planTables routes) = insert EgressBlockedTable (rtTable ` set routes)"
proof -
  have "set (foldl (\<lambda>ts r. if rtTable r \<in> set ts then ts else ts @ [rtTable r]) ts routes) = set ts \<union> rtTable ` set routes" for ts
    by (induction routes arbitrary: ts) auto
  then show ?thesis by (simp add: planTables_def)
qed

lemma resolveRoutes_all:
  "resolveRoutes nl routes k = Inr rs \<Longrightarrow> map fst rs = routes \<and> (\<forall>(r, n) \<in> set rs. toNLRoute nl r k = Inr n)"
  by (induction routes arbitrary: rs) (auto split: sum.splits)

context netlink_host
begin

lemma rulesMatch_settled: "(\<forall>f. rulesMatch rules f k) \<longleftrightarrow> rulesSettled rules (rulesOf k)"
  unfolding rulesMatch_def rules.converged_def inStep_def rulesSettled_def
  by (simp add: ruleEqual_sym [of "toNLRule _"] ruleEqual_realises Bex_def) blast

lemma link_by_name_unique: "l \<in> set (linksOf k) \<Longrightarrow> m \<in> set (linksOf k) \<Longrightarrow> nlName l = nlName m \<Longrightarrow> l = m"
  using link_unique [of k] by (auto simp: distinct_map inj_on_def)

lemma toNLRoute_realises:
  assumes "toNLRoute nl r k = Inr n"
  shows "routeEqual x n \<longleftrightarrow> realisesRoute (linksOf k) r x"
proof (cases "rtBlackhole r")
  case True
  then show ?thesis using assms by (auto simp: toNLRoute_def routeEqual_def realisesRoute_def)
next
  case False
  then obtain l where l: "l \<in> set (linksOf k)" "nlName l = rtDev r"
      "n = \<lparr>noTable = uint (rtTable r), noGw = asSlice (rtVia r), noLinkIndex = nlIndex l, noFamily = routeFamily r, noBlackhole = False, noDst = None\<rparr>"
    using assms link_found by (fastforce simp: toNLRoute_def split: sum.splits)
  have "(\<exists>m \<in> set (linksOf k). nlName m = rtDev r \<and> noLinkIndex x = nlIndex m) \<longleftrightarrow> noLinkIndex x = nlIndex l"
    using l(1,2) link_by_name_unique by metis
  then show ?thesis using False l(3) by (auto simp: routeEqual_def realisesRoute_def)
qed

lemma toNLRoute_cong:
  assumes "linksOf k' = linksOf k" and "toNLRoute nl r k = Inr n" and "toNLRoute nl r k' = Inr n'"
  shows "n' = n"
proof (cases "rtBlackhole r")
  case False
  then obtain l l' where "LinkByName nl (rtDev r) k = Inr l" "LinkByName nl (rtDev r) k' = Inr l'"
    using assms(2,3) by (auto simp: toNLRoute_def split: sum.splits)
  moreover from this have "l' = l" using link_found assms(1) link_by_name_unique by metis
  ultimately show ?thesis using assms False by (simp add: toNLRoute_def)
qed (use assms in \<open>simp add: toNLRoute_def\<close>)

lemma routesMatch_settled:
  assumes "resolveRoutes nl routes k0 = Inr rs" and "linksOf k = linksOf k0"
  shows "(\<forall>t \<in> set (planTables routes). \<forall>f. routesMatch rs t f k) \<longleftrightarrow> routesSettled (linksOf k) routes (routesOf k)"
proof -
  have rs: "map fst rs = routes" "\<And>r n x. (r, n) \<in> set rs \<Longrightarrow> routeEqual x n \<longleftrightarrow> realisesRoute (linksOf k) r x"
    using resolveRoutes_all [OF assms(1)] toNLRoute_realises unfolding assms(2) by auto
  have ex: "(\<exists>n. (r, n) \<in> set rs) \<longleftrightarrow> r \<in> set routes" for r using rs(1) by force
  have mem: "n \<in> set (routesFor rs t f) \<longleftrightarrow> (\<exists>r. (r, n) \<in> set rs \<and> rtTable r = t \<and> routeFamily r = f)" for n t f
    by (force simp: routesFor_def)
  have listed: "(\<forall>n \<in> set (routesFor rs t f). \<exists>x \<in> V. routeEqual x n) \<longleftrightarrow>
      (\<forall>r \<in> set routes. rtTable r = t \<and> routeFamily r = f \<longrightarrow> (\<exists>x \<in> V. realisesRoute (linksOf k) r x))" for V t f
  proof -
    have "(\<forall>n \<in> set (routesFor rs t f). \<exists>x \<in> V. routeEqual x n) \<longleftrightarrow>
        (\<forall>r n. (r, n) \<in> set rs \<and> rtTable r = t \<and> routeFamily r = f \<longrightarrow> (\<exists>x \<in> V. routeEqual x n))"
      unfolding Ball_def mem by blast
    also have "\<dots> \<longleftrightarrow> (\<forall>r n. (r, n) \<in> set rs \<and> rtTable r = t \<and> routeFamily r = f \<longrightarrow> (\<exists>x \<in> V. realisesRoute (linksOf k) r x))"
      by (intro iff_allI imp_cong refl bex_cong) (use rs(2) in blast)
    also have "\<dots> \<longleftrightarrow> (\<forall>r \<in> set routes. rtTable r = t \<and> routeFamily r = f \<longrightarrow> (\<exists>x \<in> V. realisesRoute (linksOf k) r x))"
      by (auto simp flip: ex)
    finally show ?thesis .
  qed
  have wanted: "(\<exists>n \<in> set (routesFor rs t f). routeEqual n x) \<longleftrightarrow>
      (\<exists>r \<in> set routes. rtTable r = t \<and> routeFamily r = f \<and> realisesRoute (linksOf k) r x)" for x t f
  proof -
    have "(\<exists>n \<in> set (routesFor rs t f). routeEqual n x) \<longleftrightarrow>
        (\<exists>r n. ((r, n) \<in> set rs \<and> rtTable r = t \<and> routeFamily r = f) \<and> routeEqual x n)"
      unfolding Bex_def mem using routeEqual_sym by blast
    also have "\<dots> \<longleftrightarrow> (\<exists>r n. ((r, n) \<in> set rs \<and> rtTable r = t \<and> routeFamily r = f) \<and> realisesRoute (linksOf k) r x)"
      by (intro iff_exI conj_cong refl) (use rs(2) in blast)
    also have "\<dots> \<longleftrightarrow> (\<exists>r \<in> set routes. rtTable r = t \<and> routeFamily r = f \<and> realisesRoute (linksOf k) r x)"
      unfolding Bex_def ex [symmetric] by blast
    finally show ?thesis .
  qed
  have "routesMatch rs t f k \<longleftrightarrow>
      (\<forall>r \<in> set routes. rtTable r = t \<and> routeFamily r = f \<longrightarrow> (\<exists>x \<in> set (routesOf k f (uint t)). realisesRoute (linksOf k) r x)) \<and>
      (\<forall>x \<in> set (routesOf k f (uint t)). \<exists>r \<in> set routes. rtTable r = t \<and> routeFamily r = f \<and> realisesRoute (linksOf k) r x)" for t f
    unfolding routesMatch_def routes.converged_def inStep_def listed wanted by simp
  then show ?thesis unfolding routesSettled_def set_planTables by blast
qed

lemma resolveRoutes_cong:
  "linksOf k' = linksOf k \<Longrightarrow> resolveRoutes nl routes k = Inr rs \<Longrightarrow> resolveRoutes nl routes k' = Inr rs' \<Longrightarrow> rs' = rs"
proof (induction routes arbitrary: rs rs')
  case (Cons r routes)
  obtain n ns where n: "toNLRoute nl r k = Inr n" "resolveRoutes nl routes k = Inr ns" "rs = (r, n) # ns"
    using Cons.prems(2) by (auto split: sum.splits)
  obtain n' ns' where n': "toNLRoute nl r k' = Inr n'" "resolveRoutes nl routes k' = Inr ns'" "rs' = (r, n') # ns'"
    using Cons.prems(3) by (auto split: sum.splits)
  show ?case using toNLRoute_cong [OF Cons.prems(1) n(1) n'(1)] Cons.IH [OF Cons.prems(1) n(2) n'(2)] n(3) n'(3) by simp
qed simp

lemma applyRoutes_again:
  assumes "applyRoutes nl routes k = (k', None)"
  shows "fst (applyRoutes nl routes k') = k'"
proof (cases "resolveRoutes nl routes k'")
  case (Inr rs')
  obtain rs where rs: "resolveRoutes nl routes k = Inr rs" "\<And>t f. t \<in> set (planTables routes) \<Longrightarrow> routesMatch rs t f k'"
      "\<And>i g. i \<notin> uint ` set (planTables routes) \<Longrightarrow> routesOf k' g i = routesOf k g i" "rulesOf k' = rulesOf k" "linksOf k' = linksOf k"
    using applyRoutes_ok [OF assms] by auto
  have "rs' = rs" by (rule resolveRoutes_cong [OF rs(5) rs(1) Inr])
  then have "fst (applyRoutesIn nl (routesFor rs' t f) t f k') = k'" if "t \<in> set (planTables routes)" for t f
    using applyRoutesIn_again rs(2) that by (simp add: routesMatch_def)
  then show ?thesis unfolding applyRoutes_def reads_def Inr sum.case
    by (intro eachDo_invariant [where P = "\<lambda>x. x = k'"]) auto
qed (simp add: applyRoutes_def reads_def)

lemma applyRoutes_settles:
  assumes "applyRoutes nl routes k = (k', None)"
  shows "routesSettled (linksOf k') routes (routesOf k')" and "linksOf k' = linksOf k" and "rulesOf k' = rulesOf k"
    and "i \<notin> uint ` insert EgressBlockedTable (rtTable ` set routes) \<Longrightarrow> routesOf k' f i = routesOf k f i"
proof -
  obtain rs where rs: "resolveRoutes nl routes k = Inr rs" "\<And>t f. t \<in> set (planTables routes) \<Longrightarrow> routesMatch rs t f k'"
      "\<And>i g. i \<notin> uint ` set (planTables routes) \<Longrightarrow> routesOf k' g i = routesOf k g i" "rulesOf k' = rulesOf k" "linksOf k' = linksOf k"
    using applyRoutes_ok [OF assms] by auto
  show "routesSettled (linksOf k') routes (routesOf k')" using routesMatch_settled [OF rs(1,5)] rs(2) by blast
  show "linksOf k' = linksOf k" "rulesOf k' = rulesOf k" by (rule rs)+
  show "i \<notin> uint ` insert EgressBlockedTable (rtTable ` set routes) \<Longrightarrow> routesOf k' f i = routesOf k f i"
    using rs(3) unfolding set_planTables .
qed

lemma applyRules_settles:
  assumes "applyRules nl rules k = (k', None)"
  shows "rulesSettled rules (rulesOf k')"
  using applyRules_ok [OF assms] rulesMatch_settled by blast

lemma applyRules_resettle: "rulesSettled rules (rulesOf k) \<Longrightarrow> fst (applyRules nl rules k) = k"
  using applyRules_again rulesMatch_settled by blast

end

section \<open>The stages of Apply\<close>

lemma onNet_ok: "onNet f h = (h', None) \<longleftrightarrow> (\<exists>k. f (hsNet h) = (k, None) \<and> h' = h\<lparr>hsNet := k\<rparr>)"
  by (auto simp: onNet_def split: prod.splits)

lemma onNft_ok: "onNft r h = (h', None) \<longleftrightarrow> (\<exists>ops. r = Inr ops \<and> h' = h\<lparr>hsNft := hsNft h @ [ops]\<rparr>)"
  by (auto simp: onNft_def split: sum.splits)

lemma leaves_onNet_nft [leaves_intros]: "leaves hsNft (onNet f)"
  by (auto simp: leaves_def onNet_def split: prod.splits)

lemma leaves_onNet: "leaves v f \<Longrightarrow> leaves (\<lambda>h. v (hsNet h)) (onNet f)"
  unfolding leaves_def onNet_def by (auto split: prod.splits) (metis fst_conv)

text \<open>A successful pass is the four stages, each successful, in this order.\<close>

lemma Apply_stages:
  assumes "Apply ctxErr native addSet flush nl plan h = (h', None)"
  obtains k1 ops k2 where "applyLinks nl (plLinks plan) (hsNet h) = (k1, None)" and "applyNFT native addSet flush plan = Inr ops"
    and "applyRules nl (plIPRules plan) k1 = (k2, None)" and "applyRoutes nl (plRoutes plan) k2 = (hsNet h', None)"
    and "hsNft h' = hsNft h @ [ops]"
  using assms by (auto simp: Apply_def thenDo_ok onNet_ok onNft_ok failWith_def split: option.splits)

text \<open>What a pass has done when it stops anywhere.\<close>

lemma Apply_cases:
  assumes "Apply ctxErr native addSet flush nl plan h = (h', e)"
  shows "h' = h \<or> (hsNft h' = hsNft h \<and> hsNet h' = fst (applyLinks nl (plLinks plan) (hsNet h)) \<and> e \<noteq> None) \<or>
    (\<exists>k1 ops. applyLinks nl (plLinks plan) (hsNet h) = (k1, None) \<and> applyNFT native addSet flush plan = Inr ops \<and>
       hsNft h' = hsNft h @ [ops])"
  using assms
  by (auto simp: Apply_def thenDo_def onError_def onNet_def onNft_def failWith_def split: option.splits prod.splits sum.splits)

context netlink_host
begin

lemma Apply_settles:
  assumes "plannedLinks (plLinks plan)" and "Apply ctxErr native addSet flush nl plan h = (h', None)"
  shows "linksSettled (plLinks plan) (devs (hsNet h)) (devs (hsNet h'))"
    and "rulesSettled (plIPRules plan) (rulesOf (hsNet h'))"
    and "routesSettled (linksOf (hsNet h')) (plRoutes plan) (routesOf (hsNet h'))"
    and "mset (filter (\<lambda>x. \<not> ownedRule x) (rulesOf (hsNet h) f)) \<subseteq># mset (rulesOf (hsNet h') f)"
    and "\<exists>ops. applyNFT native addSet flush plan = Inr ops \<and> hsNft h' = hsNft h @ [ops]"
    and "foreignDevices (plLinks plan) (linksOf (hsNet h')) = foreignDevices (plLinks plan) (linksOf (hsNet h))"
    and "t \<notin> uint ` insert EgressBlockedTable (rtTable ` set (plRoutes plan)) \<Longrightarrow>
      own = ownIndices (plLinks plan) (linksOf (hsNet h)) \<union> ownIndices (plLinks plan) (linksOf (hsNet h')) \<Longrightarrow>
      foreignRoutes own (routesOf (hsNet h') f t) = foreignRoutes own (routesOf (hsNet h) f t)"
proof -
  obtain k1 ops k2 where st: "applyLinks nl (plLinks plan) (hsNet h) = (k1, None)" "applyNFT native addSet flush plan = Inr ops"
      "applyRules nl (plIPRules plan) k1 = (k2, None)" "applyRoutes nl (plRoutes plan) k2 = (hsNet h', None)"
      "hsNft h' = hsNft h @ [ops]"
    by (rule Apply_stages [OF assms(2)])
  note links = applyLinks_ok(1) [OF assms(1) st(1)] and rules = applyRules_ok [OF st(3)] and routes = applyRoutes_settles [OF st(4)]
  have "devs (hsNet h') = devs k1" using rules(4) routes(2) by (simp add: devs_def)
  with links show "linksSettled (plLinks plan) (devs (hsNet h)) (devs (hsNet h'))" by simp
  show "rulesSettled (plIPRules plan) (rulesOf (hsNet h'))" using applyRules_settles [OF st(3)] routes(3) by simp
  show "routesSettled (linksOf (hsNet h')) (plRoutes plan) (routesOf (hsNet h'))" by (rule routes(1))
  have "rulesOf k1 = rulesOf (hsNet h)" using leavesD [OF applyLinks_leaves_rules st(1)] .
  then show "mset (filter (\<lambda>x. \<not> ownedRule x) (rulesOf (hsNet h) f)) \<subseteq># mset (rulesOf (hsNet h') f)"
    using rules(2) [of f] routes(3) by simp
  show "\<exists>ops. applyNFT native addSet flush plan = Inr ops \<and> hsNft h' = hsNft h @ [ops]" using st(2,5) by blast
  have k': "linksOf (hsNet h') = linksOf k1" using rules(4) routes(2) by simp
  then show "foreignDevices (plLinks plan) (linksOf (hsNet h')) = foreignDevices (plLinks plan) (linksOf (hsNet h))"
    using applyLinks_foreign(1) [OF assms(1) st(1)] by simp
  assume t: "t \<notin> uint ` insert EgressBlockedTable (rtTable ` set (plRoutes plan))"
    and own: "own = ownIndices (plLinks plan) (linksOf (hsNet h)) \<union> ownIndices (plLinks plan) (linksOf (hsNet h'))"
  have "routesOf (hsNet h') f t = routesOf k1 f t" using routes(4) [OF t, of f] rules(3) by simp
  then show "foreignRoutes own (routesOf (hsNet h') f t) = foreignRoutes own (routesOf (hsNet h) f t)"
    using applyLinks_foreign(2) [OF assms(1) st(1), of own f t] own k' by simp
qed

lemma Apply_uncommitted_rules:
  assumes "Apply ctxErr native addSet flush nl plan h = (h', e)" and "hsNft h' = hsNft h"
  shows "rulesOf (hsNet h') = rulesOf (hsNet h)"
  using Apply_cases [OF assms(1)] assms(2) leaves_apply [OF applyLinks_leaves_rules] by auto

text \<open>The second of two passes over the same links leaves every tunnel with the plan's VNI and port.\<close>

lemma applyLinks_twice:
  assumes "plannedLinks links" and "applyLinks nl links k = (k1, None)" and "applyLinks nl links k1 = (k2, None)" and "l \<in> set links"
  shows "\<exists>u. devs k2 (lnName l) = Some (Some u) \<and> carries l u"
  using applyLinks_ok(2) [OF assms(1,3,4)] applyLinks_ok(1) [OF assms(1,2)] assms(4) by (fastforce simp: linksSettled_def)

section \<open>Teardown\<close>

lemma RouteDel_leaves [leaves_intros]: "leaves rulesOf (RouteDel nl x)" "leaves linksOf (RouteDel nl x)"
  by (simp_all add: leaves_def route_gone)

lemma readsFamily_ok:
  "readsFamily r f k = (k', None) \<longleftrightarrow> (\<exists>x. r k = Inr x \<and> f x k = (k', None)) \<or> (\<exists>e. r k = Inl e \<and> errNoFamily e \<and> k' = k)"
  by (auto simp: readsFamily_def ipv6Absent_def split: sum.splits)

lemma dropLink_ok:
  assumes "hasPrefix linkPrefix (nlName l)" and "l \<in> set (linksOf k)" and "dropLink nl l k = (k', None)"
  shows "linksOf k' = filter (\<lambda>m. nlName m \<noteq> nlName l) (linksOf k) \<and>
    (\<forall>f t. routesOf k' f t = routesBut (nlIndex l) (routesOf k f t))"
proof -
  let ?on = "\<lambda>f. readsFamily (RoutesOnLink nl f (nlIndex l)) (eachDo (RouteDel nl))"
  obtain k1 where k1: "eachDo ?on families k = (k1, None)" "LinkDel nl l k1 = (k', None)"
    using assms(1,3) by (auto simp: dropLink_def thenDo_ok)
  let ?P = "\<lambda>h. linksOf h = linksOf k \<and> (\<forall>f t. routesBut (nlIndex l) (routesOf h f t) = routesBut (nlIndex l) (routesOf k f t))"
  have one: "?P (fst (RouteDel nl x h))" if "noLinkIndex x = nlIndex l" "?P h" for x h
    using route_gone_dev [of x h] route_gone(2) [of x h] that assms(2) by auto
  have "?P (fst (?on f h))" if "?P h" for f h
  proof (cases "RoutesOnLink nl f (nlIndex l) h")
    case (Inr ys)
    have "?P (fst (eachDo (RouteDel nl) ys h))"
      by (rule eachDo_invariant [where P = ?P]) (use one route_on_link [OF Inr] that in blast)+
    with Inr show ?thesis by (simp add: readsFamily_def)
  qed (use that in \<open>simp add: readsFamily_def\<close>)
  then have "?P (fst (eachDo ?on families k))" by (intro eachDo_invariant [where P = ?P]) blast+
  then have "?P k1" using k1(1) by simp
  with link_del [of l k1 k'] link_del_routes [of l k1 k'] k1(2) assms(2) show ?thesis by simp
qed

lemma dropLink_leaves_rules [leaves_intros]: "leaves rulesOf (dropLink nl l)"
  unfolding dropLink_def by (intro leaves_intros)

text \<open>One family: its owned rules and its blocked table go, and nothing of the other family.\<close>

lemma dropFamily_ok:
  assumes "dropFamily nl f k = (k', None)"
  shows "mset (rulesOf k' f) = mset (filter (\<lambda>x. \<not> ownedRule x) (rulesOf k f))" and "routesOf k' f (uint EgressBlockedTable) = []"
    and "g \<noteq> f \<Longrightarrow> rulesOf k' g = rulesOf k g" and "g \<noteq> f \<or> t \<noteq> uint EgressBlockedTable \<Longrightarrow> routesOf k' g t = routesOf k g t"
    and "linksOf k' = linksOf k"
proof -
  let ?b = "uint EgressBlockedTable"
  have "mset (rulesOf k' f) = mset (filter (\<lambda>x. \<not> ownedRule x) (rulesOf k f)) \<and> routesOf k' f ?b = [] \<and>
    (g \<noteq> f \<longrightarrow> rulesOf k' g = rulesOf k g) \<and> (g \<noteq> f \<or> t \<noteq> ?b \<longrightarrow> routesOf k' g t = routesOf k g t) \<and> linksOf k' = linksOf k"
  proof (cases "RuleList nl f k")
    case (Inl e)
    then have "k' = k" "rulesOf k f = []" "routesOf k f ?b = []"
      using assms rule_absent [OF Inl] by (auto simp: dropFamily_def readsFamily_ok)
    then show ?thesis by simp
  next
    case (Inr xs)
    then obtain k1 where k1: "eachDo (\<lambda>r. if ownedRule r then RuleDel nl r else ok) (rulesOf k f) k = (k1, None)"
        "readsFamily (RoutesInTable nl f ?b) (eachDo (RouteDel nl)) k1 = (k', None)"
      using assms rule_list [OF Inr] by (auto simp: dropFamily_def readsFamily_ok thenDo_ok)
    note rules1 = rules.dels_all [OF k1(1)]
    show ?thesis
    proof (cases "RoutesInTable nl f ?b k1")
      case (Inl e)
      then have "k' = k1" "routesOf k1 f ?b = []" using k1(2) route_absent [OF Inl] by (auto simp: readsFamily_ok)
      then show ?thesis using rules1 by (auto simp: fun_eq_iff split: if_splits)
    next
      case (Inr ys)
      then have "eachDo (\<lambda>e. if True then RouteDel nl e else ok) (routesOf k1 f ?b) k1 = (k', None)"
        using k1(2) route_list [OF Inr] by (auto simp: readsFamily_ok)
      from routes.dels_all [OF this] rules1 show ?thesis by (auto simp: fun_eq_iff split: if_splits)
    qed
  qed
  then show "mset (rulesOf k' f) = mset (filter (\<lambda>x. \<not> ownedRule x) (rulesOf k f))" "routesOf k' f ?b = []"
    "g \<noteq> f \<Longrightarrow> rulesOf k' g = rulesOf k g" "g \<noteq> f \<or> t \<noteq> ?b \<Longrightarrow> routesOf k' g t = routesOf k g t" "linksOf k' = linksOf k"
    by simp_all
qed

lemma teardownNetlink_ok:
  assumes "teardownNetlink nl k = (k', None)"
  shows "linksOf k' = filter (\<lambda>m. \<not> hasPrefix linkPrefix (nlName m)) (linksOf k)"
    and "mset (rulesOf k' f) = mset (filter (\<lambda>x. \<not> ownedRule x) (rulesOf k f))"
    and "routesOf k' f (uint EgressBlockedTable) = []"
    and "t \<noteq> uint EgressBlockedTable \<Longrightarrow> routesOf k' f t = foreignRoutes (ownIndices [] (linksOf k)) (routesOf k f t)"
proof -
  let ?S = "\<lambda>m. hasPrefix linkPrefix (nlName m)"
  obtain k1 k2 where k1: "reads (LinkList nl) (eachDo (dropLink nl)) k = (k1, None)"
      and k2: "dropFamily nl FamilyIPv4 k1 = (k2, None)" "dropFamily nl FamilyIPv6 k2 = (k', None)"
    using assms by (auto simp: teardownNetlink_def thenDo_ok families_def)
  have drop: "eachDo (dropLink nl) (linksOf k) k = (k1, None)" using k1 link_list unfolding reads_ok by blast
  have "linksOf k1 = filter (\<lambda>m. \<forall>x \<in> set (linksOf k). ?S x \<longrightarrow> nlName m \<noteq> nlName x) (linksOf k)"
    by (rule eachDelete_ok [where S = ?S, OF _ _ drop]) (use link_unique dropLink_ok in \<open>auto simp: dropLink_def ok_def\<close>)
  also have "\<dots> = filter (\<lambda>m. \<not> ?S m) (linksOf k)" by (rule filter_cong) auto
  finally show "linksOf k' = filter (\<lambda>m. \<not> ?S m) (linksOf k)"
    using dropFamily_ok(5) [OF k2(1)] dropFamily_ok(5) [OF k2(2)] by simp
  have "leaves rulesOf (reads (LinkList nl) (eachDo (dropLink nl)))" by (intro leaves_intros)
  from leavesD [OF this k1] dropFamily_ok [OF k2(1)] dropFamily_ok [OF k2(2)]
  show "mset (rulesOf k' f) = mset (filter (\<lambda>x. \<not> ownedRule x) (rulesOf k f))" "routesOf k' f (uint EgressBlockedTable) = []"
    by (cases f; simp)+
  have "routesOf k1 f t = foreignRoutes (nlIndex ` set (filter ?S (linksOf k))) (routesOf k f t)"
    by (rule eachDelete_routes [where S = ?S, OF _ _ drop]) (use link_unique dropLink_ok in \<open>auto simp: dropLink_def ok_def\<close>)
  then show "t \<noteq> uint EgressBlockedTable \<Longrightarrow> routesOf k' f t = foreignRoutes (ownIndices [] (linksOf k)) (routesOf k f t)"
    using dropFamily_ok(4) [OF k2(1)] dropFamily_ok(4) [OF k2(2)] by (simp add: ownIndices_def ours_def)
qed

end

end
