(* ===== verification/FakeNetlink.thy ===== *)
theory FakeNetlink
  imports ApplyHost
begin

text \<open>
  A host kept in lists, after the fake handle the repository tests with, and what \<open>Apply\<close> and
  \<open>Teardown\<close> guarantee on every host that meets the laws. Unlike the repository's fake it refuses a
  device whose name is taken and deletes the routes of a deleted device, as the kernel does.
\<close>

section \<open>A host kept in lists\<close>

record fakeNL =
  fkLinks :: "NLLink list"
  fkAddrs :: "(string \<times> NLAddr) list"
  fkRules :: "NLRule list"
  fkRoutes :: "NLRoute list"
  fkNext :: int

text \<open>The devices by name: the first of each name.\<close>

fun byName :: "NLLink list \<Rightarrow> NLLink list" where
  "byName [] = []"
| "byName (l # ls) = l # filter (\<lambda>m. nlName m \<noteq> nlName l) (byName ls)"

definition fakeLinks :: "fakeNL \<Rightarrow> NLLink list" where
  "fakeLinks k = byName (fkLinks k)"

definition fakeRules :: "fakeNL \<Rightarrow> Family \<Rightarrow> NLRule list" where
  "fakeRules k f = filter (\<lambda>r. nuFamily r = f) (fkRules k)"

definition fakeRoutes :: "fakeNL \<Rightarrow> Family \<Rightarrow> int \<Rightarrow> NLRoute list" where
  "fakeRoutes k f t = filter (\<lambda>r. noFamily r = f \<and> noTable r = t) (fkRoutes k)"

definition fakeErr :: "string \<Rightarrow> NLErr" where
  "fakeErr s = \<lparr>errText = s, errNoFamily = False\<rparr>"

definition onDevice :: "string \<Rightarrow> (NLLink \<Rightarrow> NLLink) \<Rightarrow> fakeNL \<Rightarrow> fakeNL" where
  "onDevice n f k = k\<lparr>fkLinks := map (\<lambda>l. if nlName l = n then f l else l) (fakeLinks k)\<rparr>"

definition setUnderlay :: "addr option \<Rightarrow> addr option \<Rightarrow> underlay \<Rightarrow> underlay" where
  "setUnderlay local remote u =
     u\<lparr>ulLocal := (if local = None then ulLocal u else local), ulRemote := (if remote = None then ulRemote u else remote)\<rparr>"

definition fakeConn :: "fakeNL NetlinkConn" where
  "fakeConn =
     \<lparr>LinkByName = (\<lambda>n k. case find (\<lambda>l. nlName l = n) (fakeLinks k) of Some l \<Rightarrow> Inr l | None \<Rightarrow> Inl (fakeErr ''Link not found'')),
      LinkList = (\<lambda>k. Inr (fakeLinks k)),
      LinkAdd = (\<lambda>l k. if nlName l \<in> nlName ` set (fakeLinks k) then (k, Inl (fakeErr ''file exists''))
                       else (let v = l\<lparr>nlIndex := fkNext k + 1\<rparr>
                             in (k\<lparr>fkLinks := fakeLinks k @ [v], fkNext := fkNext k + 1\<rparr>, Inr v))),
      LinkDel = (\<lambda>l k. (k\<lparr>fkLinks := filter (\<lambda>m. nlName m \<noteq> nlName l) (fakeLinks k),
                          fkRoutes := routesBut (nlIndex l) (fkRoutes k)\<rparr>, None)),
      LinkSetUp = (\<lambda>l k. (onDevice (nlName l) (\<lambda>m. m\<lparr>nlUp := True\<rparr>) k, None)),
      LinkSetMTU = (\<lambda>l mtu k. (onDevice (nlName l) (\<lambda>m. m\<lparr>nlMTU := mtu\<rparr>) k, None)),
      LinkSetUnderlay = Some (\<lambda>i n a b k. (onDevice n (\<lambda>m. m\<lparr>nlVxlan := map_option (setUnderlay a b) (nlVxlan m)\<rparr>) k, None)),
      AddrAdd = (\<lambda>l a k. (k\<lparr>fkAddrs := fkAddrs k @ [(nlName l, a)]\<rparr>, None)),
      AddrDel = (\<lambda>l a k. (k\<lparr>fkAddrs := filter (\<lambda>(n, b). n \<noteq> nlName l \<or> map_option ipNetText (naNet b) \<noteq> map_option ipNetText (naNet a)) (fkAddrs k)\<rparr>, None)),
      AddrList = (\<lambda>l f k. Inr (map snd (filter (\<lambda>(n, b). n = nlName l \<and>
         (f = None \<or> map_option (familyOf \<circ> ipnAddr) (naNet b) = f)) (fkAddrs k)))),
      RuleAdd = (\<lambda>r k. (k\<lparr>fkRules := fkRules k @ [r]\<rparr>, None)),
      RuleDel = (\<lambda>r k. (k\<lparr>fkRules := remove1 r (fkRules k)\<rparr>, None)),
      RuleList = (\<lambda>f k. Inr (fakeRules k f)),
      RouteAdd = (\<lambda>r k. (k\<lparr>fkRoutes := fkRoutes k @ [r]\<rparr>, None)),
      RouteDel = (\<lambda>r k. (k\<lparr>fkRoutes := remove1 r (fkRoutes k)\<rparr>, None)),
      RoutesInTable = (\<lambda>f t k. Inr (fakeRoutes k f t)),
      RoutesOnLink = (\<lambda>f i k. Inr (filter (\<lambda>r. noFamily r = f \<and> noLinkIndex r = i) (fkRoutes k))),
      ParseAddr = (\<lambda>s. case parsePrefix s of
         Some p \<Rightarrow> Inr \<lparr>naNet = Some \<lparr>ipnAddr = pfxAddr p, ipnBits = nat (prefixBits p)\<rparr>\<rparr>
       | None \<Rightarrow> Inl (fakeErr ''invalid CIDR address''))\<rparr>"

lemma byName_distinct: "distinct (map nlName (byName ls))"
  by (induction ls) (auto simp: distinct_map intro: inj_on_subset)

lemma byName_same: "distinct (map nlName ls) \<Longrightarrow> byName ls = ls"
  by (induction ls) (auto simp: filter_id_conv image_iff)

lemma fakeLinks_distinct: "distinct (map nlName (fakeLinks k))"
  by (simp add: fakeLinks_def byName_distinct)

lemma fakeLinks_set: "distinct (map nlName ls) \<Longrightarrow> fakeLinks (k\<lparr>fkLinks := ls\<rparr>) = ls"
  by (simp add: fakeLinks_def byName_same)

lemma fakeLinks_onDevice:
  assumes "\<And>l. nlName (f l) = nlName l"
  shows "fakeLinks (onDevice n f k) = map (\<lambda>l. if nlName l = n then f l else l) (fakeLinks k)"
proof -
  have "map nlName (map (\<lambda>l. if nlName l = n then f l else l) (fakeLinks k)) = map nlName (fakeLinks k)" by (simp add: assms)
  then show ?thesis unfolding onDevice_def using fakeLinks_distinct [of k] by (simp only: fakeLinks_set)
qed

lemma devsOf_onDevice:
  assumes "\<And>l. nlName (f l) = nlName l" and "\<And>l. map_option normUnderlay (nlVxlan (f l)) = g (map_option normUnderlay (nlVxlan l))"
  shows "devsOf (fakeLinks (onDevice n f k)) = (devsOf (fakeLinks k))(n := map_option g (devsOf (fakeLinks k) n))"
proof -
  have "devsOf (map (\<lambda>l. if nlName l = n then f l else l) ls) = (devsOf ls)(n := map_option g (devsOf ls n))" for ls
    by (induction ls) (auto simp: devsOf_def assms fun_eq_iff)
  then show ?thesis using fakeLinks_onDevice [OF assms(1)] by simp
qed

lemma devsOf_append: "nlName l \<notin> nlName ` set ls \<Longrightarrow> devsOf (ls @ [l]) = (devsOf ls)(nlName l \<mapsto> map_option normUnderlay (nlVxlan l))"
  by (induction ls) (auto simp: devsOf_def fun_eq_iff)

lemma dom_devsOf: "dom (devsOf ls) = nlName ` set ls"
  by (simp add: devsOf_def dom_map_of_conv_image_fst image_image)

lemma normUnderlay_setUnderlay: "normUnderlay (setUnderlay a b u) = retarget a b (normUnderlay u)"
  by (simp add: normUnderlay_def setUnderlay_def retarget_def)

lemma fake_frame [simp]:
  "fakeRules (onDevice n f k) = fakeRules k" "fakeRoutes (onDevice n f k) = fakeRoutes k"
  "fakeRules (k\<lparr>fkLinks := ls\<rparr>) = fakeRules k" "fakeRules (k\<lparr>fkNext := i\<rparr>) = fakeRules k" "fakeRules (k\<lparr>fkAddrs := as\<rparr>) = fakeRules k"
  "fakeRules (k\<lparr>fkRoutes := rs\<rparr>) = fakeRules k" "fakeRoutes (k\<lparr>fkLinks := ls\<rparr>) = fakeRoutes k" "fakeRoutes (k\<lparr>fkRules := us\<rparr>) = fakeRoutes k"
  "fakeLinks (k\<lparr>fkRules := us\<rparr>) = fakeLinks k" "fakeLinks (k\<lparr>fkRoutes := rs\<rparr>) = fakeLinks k" "fakeLinks (k\<lparr>fkAddrs := as\<rparr>) = fakeLinks k"
  "fakeLinks (k\<lparr>fkNext := i\<rparr>) = fakeLinks k"
  by (simp_all add: fakeRules_def fakeRoutes_def fakeLinks_def onDevice_def fun_eq_iff)

lemma mset_filter_remove1: "P x \<Longrightarrow> mset (filter P (remove1 x xs)) = mset (filter P xs) - {#x#}"
  by (induction xs) auto

lemma filter_remove1_other: "\<not> P x \<Longrightarrow> filter P (remove1 x xs) = filter P xs"
  by (induction xs) auto

lemma devicesBut_onDevice:
  assumes "\<And>l. nlName (f l) = nlName l"
  shows "devicesBut n (fakeLinks (onDevice n f k)) = devicesBut n (fakeLinks k)"
  by (force simp: devicesBut_def fakeLinks_onDevice [OF assms] assms)

lemma indexOf_onDevice:
  assumes "\<And>l. nlName (f l) = nlName l" and "\<And>l. nlIndex (f l) = nlIndex l"
  shows "indexOf (fakeLinks (onDevice n f k)) = indexOf (fakeLinks k)"
proof -
  have "map (\<lambda>l. (nlName l, nlIndex l)) (fakeLinks (onDevice n f k)) = map (\<lambda>l. (nlName l, nlIndex l)) (fakeLinks k)"
    by (simp add: fakeLinks_onDevice [OF assms(1)] assms)
  then show ?thesis by (simp add: indexOf_def)
qed

lemma indexOf_append: "nlName l \<notin> nlName ` set ls \<Longrightarrow> indexOf (ls @ [l]) (nlName l) = Some (nlIndex l)"
  by (induction ls) (auto simp: indexOf_def)

lemma routesBut_remove1:
  "routesBut (noLinkIndex x) (fakeRoutes (k\<lparr>fkRoutes := remove1 x rs\<rparr>) f t) = routesBut (noLinkIndex x) (fakeRoutes (k\<lparr>fkRoutes := rs\<rparr>) f t)"
  by (simp add: fakeRoutes_def routesBut_def filter_remove1_other)

interpretation fake: netlink_host fakeConn fakeRules fakeRoutes fakeLinks
proof unfold_locales
  show "RuleAdd fakeConn r k = (k', None) \<Longrightarrow>
      \<exists>y. ruleEqual y r \<and> mset (fakeRules k' (nuFamily r)) = add_mset y (mset (fakeRules k (nuFamily r))) \<and>
        (\<forall>g. g \<noteq> nuFamily r \<longrightarrow> fakeRules k' g = fakeRules k g) \<and> fakeRoutes k' = fakeRoutes k \<and> fakeLinks k' = fakeLinks k" for r k k'
    by (intro exI [of _ r]) (auto simp: fakeConn_def ruleEqual_key fakeRules_def)
  show "r \<in> set (fakeRules k (nuFamily r)) \<Longrightarrow> RuleDel fakeConn r k = (k', None) \<Longrightarrow>
      mset (fakeRules k' (nuFamily r)) = mset (fakeRules k (nuFamily r)) - {#r#} \<and>
        (\<forall>g. g \<noteq> nuFamily r \<longrightarrow> fakeRules k' g = fakeRules k g) \<and> fakeRoutes k' = fakeRoutes k \<and> fakeLinks k' = fakeLinks k" for r k k'
    by (auto simp: fakeConn_def fakeRules_def mset_filter_remove1 filter_remove1_other)
  show "RouteAdd fakeConn x k = (k', None) \<Longrightarrow>
      \<exists>z. routeEqual z x \<and> mset (fakeRoutes k' (noFamily x) (noTable x)) = add_mset z (mset (fakeRoutes k (noFamily x) (noTable x))) \<and>
        (\<forall>g t. (g, t) \<noteq> (noFamily x, noTable x) \<longrightarrow> fakeRoutes k' g t = fakeRoutes k g t) \<and> fakeRules k' = fakeRules k \<and> fakeLinks k' = fakeLinks k" for x k k'
    by (intro exI [of _ x]) (auto simp: fakeConn_def routeEqual_key fakeRoutes_def)
  show "x \<in> set (fakeRoutes k (noFamily x) (noTable x)) \<Longrightarrow> RouteDel fakeConn x k = (k', None) \<Longrightarrow>
      mset (fakeRoutes k' (noFamily x) (noTable x)) = mset (fakeRoutes k (noFamily x) (noTable x)) - {#x#} \<and>
        (\<forall>g t. (g, t) \<noteq> (noFamily x, noTable x) \<longrightarrow> fakeRoutes k' g t = fakeRoutes k g t) \<and> fakeRules k' = fakeRules k \<and> fakeLinks k' = fakeLinks k" for x k k'
    by (auto simp: fakeConn_def fakeRoutes_def mset_filter_remove1 filter_remove1_other)
  show "LinkByName fakeConn n k = Inr l \<Longrightarrow> l \<in> set (fakeLinks k) \<and> nlName l = n" for n k l
    by (auto simp: fakeConn_def find_Some_iff split: option.splits)
  show "LinkAdd fakeConn l k = (k', Inr v) \<Longrightarrow>
      nlName l \<notin> dom (devsOf (fakeLinks k)) \<and>
      devsOf (fakeLinks k') = (devsOf (fakeLinks k))(nlName l \<mapsto> map_option normUnderlay (nlVxlan l))" for l k k' v
    using fakeLinks_distinct [of k]
    by (auto simp: fakeConn_def Let_def dom_devsOf fakeLinks_set devsOf_append split: if_splits)
  show "l \<in> set (fakeLinks k) \<Longrightarrow> LinkDel fakeConn l k = (k', None) \<Longrightarrow>
      fakeLinks k' = filter (\<lambda>m. nlName m \<noteq> nlName l) (fakeLinks k)" for l k k'
    using fakeLinks_distinct [of k] by (auto simp: fakeConn_def fakeLinks_set distinct_map_filter)
  show "LinkSetUnderlay fakeConn = Some setu \<Longrightarrow> setu i n a b k = (k', None) \<Longrightarrow>
      devsOf (fakeLinks k') = (devsOf (fakeLinks k))(n := map_option (map_option (retarget a b)) (devsOf (fakeLinks k) n))" for setu i n a b k k'
    by (auto simp: fakeConn_def devsOf_onDevice [where g = "map_option (retarget a b)"] option.map_comp comp_def normUnderlay_setUnderlay)
  show "devsOf (fakeLinks (fst (LinkSetUp fakeConn l k))) = devsOf (fakeLinks k)" for l k
    by (simp add: fakeConn_def devsOf_onDevice [where g = "\<lambda>u. u"] option.map_ident)
  show "devsOf (fakeLinks (fst (LinkSetMTU fakeConn l i k))) = devsOf (fakeLinks k)" for l i k
    by (simp add: fakeConn_def devsOf_onDevice [where g = "\<lambda>u. u"] option.map_ident)
  show "distinct (map nlName (fakeLinks k))" for k by (rule fakeLinks_distinct)
  show "routesBut (noLinkIndex x) (fakeRoutes (fst (RouteDel fakeConn x k)) f t) = routesBut (noLinkIndex x) (fakeRoutes k f t)" for x k f t
    by (simp add: fakeConn_def routesBut_remove1)
  show "LinkAdd fakeConn l k = (k', Inr v) \<Longrightarrow>
      nlName v = nlName l \<and> indexOf (fakeLinks k') (nlName l) = Some (nlIndex v) \<and>
      routesBut (nlIndex v) (fakeRoutes k' f t) = routesBut (nlIndex v) (fakeRoutes k f t)" for l k k' v f t
  proof -
    assume "LinkAdd fakeConn l k = (k', Inr v)"
    then have v: "v = l\<lparr>nlIndex := fkNext k + 1\<rparr>" "k' = k\<lparr>fkLinks := fakeLinks k @ [v], fkNext := fkNext k + 1\<rparr>"
      and new: "nlName l \<notin> nlName ` set (fakeLinks k)" by (auto simp: fakeConn_def Let_def split: if_splits)
    have "fakeLinks k' = fakeLinks k @ [v]" using fakeLinks_distinct [of k] new by (simp add: v fakeLinks_set)
    then show ?thesis using indexOf_append [of v "fakeLinks k"] new by (simp add: v fakeRoutes_def)
  qed
  show "LinkDel fakeConn l k = (k', None) \<Longrightarrow> fakeRoutes k' f t = routesBut (nlIndex l) (fakeRoutes k f t)" for l k k' f t
    by (auto simp: fakeConn_def fakeRoutes_def routesBut_def conj_commute)
  show "devicesBut (nlName l) (fakeLinks (fst (LinkAdd fakeConn l k))) = devicesBut (nlName l) (fakeLinks k)" for l k
    using fakeLinks_distinct [of k] by (auto simp: fakeConn_def Let_def fakeLinks_set devicesBut_def)
  show "devicesBut (nlName l) (fakeLinks (fst (LinkSetUp fakeConn l k))) = devicesBut (nlName l) (fakeLinks k)" for l k
    by (simp add: fakeConn_def devicesBut_onDevice)
  show "devicesBut (nlName l) (fakeLinks (fst (LinkSetMTU fakeConn l i k))) = devicesBut (nlName l) (fakeLinks k)" for l i k
    by (simp add: fakeConn_def devicesBut_onDevice)
  show "indexOf (fakeLinks (fst (LinkSetUp fakeConn l k))) = indexOf (fakeLinks k)" for l k
    by (simp add: fakeConn_def indexOf_onDevice)
  show "indexOf (fakeLinks (fst (LinkSetMTU fakeConn l i k))) = indexOf (fakeLinks k)" for l i k
    by (simp add: fakeConn_def indexOf_onDevice)
  show "LinkSetUnderlay fakeConn = Some setu \<Longrightarrow>
      devicesBut n (fakeLinks (fst (setu i n a b k))) = devicesBut n (fakeLinks k) \<and>
      indexOf (fakeLinks (fst (setu i n a b k))) = indexOf (fakeLinks k) \<and>
      routesBut i (fakeRoutes (fst (setu i n a b k)) f t) = routesBut i (fakeRoutes k f t)" for setu i n a b k f t
    by (auto simp: fakeConn_def devicesBut_onDevice indexOf_onDevice)
qed (auto simp: fakeConn_def fakeRules_def fakeRoutes_def onDevice_def Let_def)

section \<open>What applying a plan guarantees\<close>

text \<open>
  C6. On a host that keeps the netlink laws, a pass of Apply that returns no error leaves the host
  as the plan says. The devices under kuport's prefix are exactly the planned ones, between the
  planned endpoints, and every device that is neither under the prefix nor planned is exactly as it
  was. In both families each planned rule is there and each rule with a kuport mark is a planned
  one, while rules with other marks are kept. In every table of the plan and in the blocked table
  each planned route is there, through the device of its name, and nothing else; in every other
  table the routes through no device of kuport's are the same as before. Exactly one nftables
  transaction, the plan's, was committed.
\<close>

theorem apply_converges:
  assumes "netlink_host nl rulesOf routesOf linksOf" and "plannedLinks (plLinks plan)"
    and "Apply ctxErr native addSet flush nl plan h = (h', None)"
  shows "linksSettled (plLinks plan) (devsOf (linksOf (hsNet h))) (devsOf (linksOf (hsNet h'))) \<and>
    foreignDevices (plLinks plan) (linksOf (hsNet h')) = foreignDevices (plLinks plan) (linksOf (hsNet h)) \<and>
    rulesSettled (plIPRules plan) (rulesOf (hsNet h')) \<and>
    (\<forall>f. mset (filter (\<lambda>x. \<not> ownedRule x) (rulesOf (hsNet h) f)) \<subseteq># mset (rulesOf (hsNet h') f)) \<and>
    routesSettled (linksOf (hsNet h')) (plRoutes plan) (routesOf (hsNet h')) \<and>
    (\<forall>own f t. own = ownIndices (plLinks plan) (linksOf (hsNet h)) \<union> ownIndices (plLinks plan) (linksOf (hsNet h')) \<longrightarrow>
       t \<notin> uint ` insert EgressBlockedTable (rtTable ` set (plRoutes plan)) \<longrightarrow>
       foreignRoutes own (routesOf (hsNet h') f t) = foreignRoutes own (routesOf (hsNet h) f t)) \<and>
    (\<exists>ops. applyNFT native addSet flush plan = Inr ops \<and> hsNft h' = hsNft h @ [ops])"
  using netlink_host.Apply_settles [OF assms] by (simp add: netlink_host.devs_def [OF assms(1)])

text \<open>
  C22. The order of the stages (F10), whether or not the pass succeeds: a transaction is committed only
  once the links are current, and it is the plan's; until one is committed no routing rule of the
  host has changed.
\<close>

theorem apply_order:
  assumes "netlink_host nl rulesOf routesOf linksOf" and "Apply ctxErr native addSet flush nl plan h = (h', e)"
  shows "(hsNft h' = hsNft h \<longrightarrow> rulesOf (hsNet h') = rulesOf (hsNet h)) \<and>
    (hsNft h' = hsNft h \<or>
     (\<exists>k ops. applyLinks nl (plLinks plan) (hsNet h) = (k, None) \<and> applyNFT native addSet flush plan = Inr ops \<and>
       hsNft h' = hsNft h @ [ops])) \<and>
    (e = None \<longrightarrow> hsNft h' \<noteq> hsNft h)"
proof (intro conjI impI)
  show "hsNft h' = hsNft h \<Longrightarrow> rulesOf (hsNet h') = rulesOf (hsNet h)"
    using netlink_host.Apply_uncommitted_rules [OF assms] .
  show "hsNft h' = hsNft h \<or> (\<exists>k ops. applyLinks nl (plLinks plan) (hsNet h) = (k, None) \<and>
      applyNFT native addSet flush plan = Inr ops \<and> hsNft h' = hsNft h @ [ops])"
    using Apply_cases [OF assms(2)] by blast
  show "hsNft h' \<noteq> hsNft h" if "e = None"
    using assms(2) that by (auto elim: Apply_stages)
qed

text \<open>
  Applying the rules and the routes of a plan again, on the host a successful pass left, changes
  nothing: not even a failing second pass touches it.
\<close>

theorem apply_again:
  assumes "netlink_host nl rulesOf routesOf linksOf" and "Apply ctxErr native addSet flush nl plan h = (h', None)"
  shows "fst (applyRules nl (plIPRules plan) (hsNet h')) = hsNet h' \<and> fst (applyRoutes nl (plRoutes plan) (hsNet h')) = hsNet h'"
proof -
  obtain k1 ops k2 where st: "applyLinks nl (plLinks plan) (hsNet h) = (k1, None)" "applyNFT native addSet flush plan = Inr ops"
      "applyRules nl (plIPRules plan) k1 = (k2, None)" "applyRoutes nl (plRoutes plan) k2 = (hsNet h', None)"
      "hsNft h' = hsNft h @ [ops]"
    by (rule Apply_stages [OF assms(2)])
  have "rulesSettled (plIPRules plan) (rulesOf (hsNet h'))"
    using netlink_host.applyRules_settles [OF assms(1) st(3)] netlink_host.applyRoutes_settles(3) [OF assms(1) st(4)] by simp
  then show ?thesis
    using netlink_host.applyRules_resettle [OF assms(1)] netlink_host.applyRoutes_again [OF assms(1) st(4)] by blast
qed

text \<open>
  C24. After two successful passes over the same links every planned device carries the planned
  endpoints, VNI and port. One pass is not always enough: a device whose endpoints and VNI both
  differ is only retargeted by it.
\<close>

theorem links_two_passes:
  assumes "netlink_host nl rulesOf routesOf linksOf" and "plannedLinks links"
    and "applyLinks nl links k = (k1, None)" and "applyLinks nl links k1 = (k2, None)" and "l \<in> set links"
  shows "\<exists>u. devsOf (linksOf k2) (lnName l) = Some (Some u) \<and> carries l u"
  using netlink_host.applyLinks_twice [OF assms] by (simp add: netlink_host.devs_def [OF assms(1)])

text \<open>
  C23. A teardown that returns no error removes what kuport owns and nothing else. The devices left
  are exactly those without its prefix, each as it was; the rules left in each family are exactly
  those without a kuport mark; the blocked table is empty in both families; in every other table the
  routes left are exactly those that went through no kuport device; and the nftables tables are
  deleted in one transaction.
\<close>

theorem teardown_clears:
  assumes "netlink_host nl rulesOf routesOf linksOf" and "Teardown ctxErr flush nl h = (h', None)"
  shows "linksOf (hsNet h') = filter (\<lambda>m. \<not> hasPrefix linkPrefix (nlName m)) (linksOf (hsNet h)) \<and>
    (\<forall>f. mset (rulesOf (hsNet h') f) = mset (filter (\<lambda>x. \<not> ownedRule x) (rulesOf (hsNet h) f))) \<and>
    (\<forall>f. routesOf (hsNet h') f (uint EgressBlockedTable) = []) \<and>
    (\<forall>f t. t \<noteq> uint EgressBlockedTable \<longrightarrow>
       routesOf (hsNet h') f t = foreignRoutes (ownIndices [] (linksOf (hsNet h))) (routesOf (hsNet h) f t)) \<and>
    hsNft h' = hsNft h @ [delTable legacyTable @ delTable nftTable]"
proof -
  have t: "teardownNetlink nl (hsNet h) = (hsNet h', None)" and "hsNft h' = hsNft h @ [delTable legacyTable @ delTable nftTable]"
    using assms(2) by (auto simp: Teardown_def thenDo_ok onNet_ok onNft_ok teardownNFT_def failWith_def Let_def split: option.splits)
  with netlink_host.teardownNetlink_ok [OF assms(1) t] show ?thesis by simp
qed

section \<open>Concrete runs\<close>

text \<open>
  A host with a device of its own, a tunnel nobody plans any more and one to an old peer under an old
  VNI, a stale and a foreign rule, a leftover blackhole and a route of the main table through a device
  of each kind; and a plan of one link, rule and route.
\<close>

definition exVxlan :: "string \<Rightarrow> int \<Rightarrow> addr \<Rightarrow> int \<Rightarrow> NLLink" where
  "exVxlan n i remote vni =
     \<lparr>nlName = n, nlIndex = i, nlMTU = 1500, nlUp = True,
      nlVxlan = Some \<lparr>ulLocal = Some (V4 0x0a000001), ulRemote = Some remote, ulVNI = vni, ulPort = 4790\<rparr>\<rparr>"

definition exRuleOf :: "int \<Rightarrow> 32 word \<Rightarrow> NLRule" where
  "exRuleOf pref mark =
     \<lparr>nuPriority = pref, nuMark = mark, nuTable = 11001, nuFamily = FamilyIPv4, nuSuppressPrefixlen = -1, nuDst = None\<rparr>"

definition exMainRoute :: "int \<Rightarrow> NLRoute" where
  "exMainRoute i = \<lparr>noTable = 254, noGw = None, noLinkIndex = i, noFamily = FamilyIPv4, noBlackhole = False, noDst = None\<rparr>"

definition exNet :: fakeNL where
  "exNet =
     \<lparr>fkLinks = [\<lparr>nlName = ''eth0'', nlIndex = 2, nlMTU = 1500, nlUp = True, nlVxlan = None\<rparr>,
                 exVxlan ''kup-old'' 3 (V4 0x0a000007) 9, exVxlan ''kup-b'' 4 (V4 0x0a000008) 5],
      fkAddrs = [], fkRules = [exRuleOf 90 0x6b700002, exRuleOf 80 0x80000],
      fkRoutes = [\<lparr>noTable = 11024, noGw = None, noLinkIndex = 0, noFamily = FamilyIPv4, noBlackhole = True, noDst = None\<rparr>,
                  exMainRoute 3, exMainRoute 2],
      fkNext = 10\<rparr>"

definition exHost :: "fakeNL Host" where
  "exHost = \<lparr>hsNet = exNet, hsNft = []\<rparr>"

definition exLinkB :: Link where
  "exLinkB =
     \<lparr>lnName = ''kup-b'', lnVNI = 7, lnPort = 4790, lnLocalAddr = V4 0x0a000001, lnRemoteAddr = V4 0x0a000002,
      lnLinkAddr = prefixFrom (V4 0xc6120000) 31, lnLinkAddr6 = prefixZero, lnMTU = 1450\<rparr>"

definition exPlanB :: Plan where
  "exPlanB =
     \<lparr>plRules = [], plSteer = [], plLinks = [exLinkB],
      plIPRules = [\<lparr>irPref = 100, irMark = 0x6b700001, irTo = None, irTable = 11001, irFamily = FamilyIPv4, irSuppressDefault = False\<rparr>],
      plRoutes = [\<lparr>rtTable = 11001, rtVia = V4 0xc6120001, rtDev = ''kup-b'', rtBlackhole = False, rtBlackholeFamily = FamilyIPv4\<rparr>],
      plCluster = []\<rparr>"

definition exApply :: "fakeNL Host nlop" where
  "exApply = Apply None (\<lambda>_. []) (\<lambda>_ elems. Inr (length elems)) (\<lambda>_. None) fakeConn exPlanB"

definition exRefused :: "fakeNL Host nlop" where
  "exRefused = Apply None (\<lambda>_. []) (\<lambda>_ elems. Inr (length elems)) (\<lambda>_. Some ''device or resource busy'') fakeConn exPlanB"

lemma exPlan_links: "plannedLinks (plLinks exPlanB)"
  by (simp add: plannedLinks_def exPlanB_def exLinkB_def plainAddr_def)

lemma exApply_ok: "snd (exApply exHost) = None"
  by code_simp

lemma exTeardown_ok: "snd (Teardown None (\<lambda>_. None) fakeConn exHost) = None"
  by code_simp

lemma exLinks_ok: "snd (applyLinks fakeConn [exLinkB] exNet) = None" "snd (applyLinks fakeConn [exLinkB] (fst (applyLinks fakeConn [exLinkB] exNet))) = None"
  by code_simp+

lemma snd_None: "snd p = None \<Longrightarrow> p = (fst p, None)"
  by (cases p) simp

theorem apply_converges_witness:
  "linksSettled [exLinkB] (devsOf (fakeLinks exNet)) (devsOf (fakeLinks (hsNet (fst (exApply exHost))))) \<and>
   rulesSettled (plIPRules exPlanB) (fakeRules (hsNet (fst (exApply exHost)))) \<and>
   routesSettled (fakeLinks (hsNet (fst (exApply exHost)))) (plRoutes exPlanB) (fakeRoutes (hsNet (fst (exApply exHost)))) \<and>
   foreignRoutes {3, 4} (fakeRoutes (hsNet (fst (exApply exHost))) FamilyIPv4 254) = [exMainRoute 2]"
proof -
  note c = apply_converges [OF fake.netlink_host_axioms exPlan_links snd_None [OF exApply_ok [unfolded exApply_def]], folded exApply_def]
  have own: "ownIndices (plLinks exPlanB) (fakeLinks (hsNet exHost)) \<union> ownIndices (plLinks exPlanB) (fakeLinks (hsNet (fst (exApply exHost)))) = {3, 4}"
    by code_simp
  have "foreignRoutes {3, 4} (fakeRoutes exNet FamilyIPv4 254) = [exMainRoute 2]" by code_simp
  moreover have "(254 :: int) \<notin> uint ` insert EgressBlockedTable (rtTable ` set (plRoutes exPlanB))" by code_simp
  ultimately have "foreignRoutes {3, 4} (fakeRoutes (hsNet (fst (exApply exHost))) FamilyIPv4 254) = [exMainRoute 2]"
    using c own by (simp add: exHost_def)
  with c show ?thesis by (simp add: exHost_def exPlanB_def)
qed

theorem apply_order_witness:
  "hsNft (fst (exRefused exHost)) = [] \<and> fakeRules (hsNet (fst (exRefused exHost))) = fakeRules exNet"
proof -
  have "hsNft (fst (exRefused exHost)) = []" by code_simp
  then show ?thesis
    using apply_order [OF fake.netlink_host_axioms, of None "\<lambda>_. []" "\<lambda>_ elems. Inr (length elems)" "\<lambda>_. Some ''device or resource busy''"
        exPlanB exHost "fst (exRefused exHost)" "snd (exRefused exHost)"]
    by (simp add: exRefused_def exHost_def)
qed

theorem apply_again_witness:
  "fst (applyRules fakeConn (plIPRules exPlanB) (hsNet (fst (exApply exHost)))) = hsNet (fst (exApply exHost))"
  using apply_again [OF fake.netlink_host_axioms snd_None [OF exApply_ok [unfolded exApply_def]]] unfolding exApply_def by blast

text \<open>After the first pass the tunnel has its new peer and the old VNI; the second rebuilds it.\<close>

theorem links_two_passes_witness:
  "(let k1 = fst (applyLinks fakeConn [exLinkB] exNet); k2 = fst (applyLinks fakeConn [exLinkB] k1)
    in map_option (map_option ulVNI) (devsOf (fakeLinks k1) ''kup-b'') = Some (Some 5) \<and>
       (\<exists>u. devsOf (fakeLinks k2) ''kup-b'' = Some (Some u) \<and> carries exLinkB u))"
proof -
  have "map_option (map_option ulVNI) (devsOf (fakeLinks (fst (applyLinks fakeConn [exLinkB] exNet))) ''kup-b'') = Some (Some 5)"
    by code_simp
  moreover have "plannedLinks [exLinkB]" using exPlan_links by (simp add: exPlanB_def)
  moreover have "lnName exLinkB = ''kup-b''" by (simp add: exLinkB_def)
  ultimately show ?thesis
    using links_two_passes [OF fake.netlink_host_axioms _ exLinks_ok [THEN snd_None], of exLinkB] by (simp add: Let_def)
qed

theorem teardown_clears_witness:
  "map nlName (fakeLinks (hsNet (fst (Teardown None (\<lambda>_. None) fakeConn exHost)))) = [''eth0''] \<and>
   mset (fakeRules (hsNet (fst (Teardown None (\<lambda>_. None) fakeConn exHost))) FamilyIPv4) = {#exRuleOf 80 0x80000#} \<and>
   fakeRoutes (hsNet (fst (Teardown None (\<lambda>_. None) fakeConn exHost))) FamilyIPv4 254 = [exMainRoute 2]"
proof -
  have "filter (\<lambda>x. \<not> ownedRule x) (fakeRules exNet FamilyIPv4) = [exRuleOf 80 0x80000]"
    "map nlName (filter (\<lambda>m. \<not> hasPrefix linkPrefix (nlName m)) (fakeLinks exNet)) = [''eth0'']"
    "foreignRoutes (ownIndices [] (fakeLinks exNet)) (fakeRoutes exNet FamilyIPv4 254) = [exMainRoute 2]"
    "(254 :: int) \<noteq> uint EgressBlockedTable" by code_simp+
  then show ?thesis
    using teardown_clears [OF fake.netlink_host_axioms snd_None [OF exTeardown_ok]] by (simp add: exHost_def del: mset_filter)
qed

end
