(* ===== verification/NftMatch.thy ===== *)
theory NftMatch
  imports Nft
begin

text \<open>
  The expressions of a rule do what its semantic fields say. The kernel's evaluation of expressions
  is a parameter: the locale \<open>nft_kernel\<close> states the documented behaviour of each expression the
  program emits, on registers, the packet and the effects so far, and the match of a whole rule is
  then derived once. The laws speak of headers by their standard layout and of families by the
  kernel's numbers, not by the program's tables of offsets and numbers. The interpretation at the
  end runs the laws on a register machine.
\<close>

unbundle bit_operations_syntax

section \<open>What expressions load\<close>

text \<open>An interface name fills a 16-byte register with zeros.\<close>

definition nameBytes :: "string \<Rightarrow> bytes" where
  "nameBytes s = map byteOf s @ replicate (16 - length s) 0"

definition dirByte :: "bool \<Rightarrow> 8 word" where
  "dirByte reply = (if reply then 1 else 0)"

text \<open>\<open>NFPROTO_IPV4\<close> and \<open>NFPROTO_IPV6\<close> of \<open>linux/netfilter.h\<close>.\<close>

fun familyNumber :: "Family \<Rightarrow> 8 word" where
  "familyNumber FamilyIPv4 = 2"
| "familyNumber FamilyIPv6 = 10"

lemma familyNumber_eq: "familyNumber f = familyNumber g \<longleftrightarrow> f = g"
  by (cases f; cases g) simp_all

text \<open>An address in a header, in network order.\<close>

fun wireAddr :: "addr \<Rightarrow> bytes" where
  "wireAddr (V4 w) = be32 w"
| "wireAddr (V6 w _) = be128 w"
| "wireAddr AddrZero = []"

text \<open>
  The fields of the headers a rule reads: the addresses of the IPv4 header (RFC 791) and of the
  IPv6 header (RFC 8200), and the ports both TCP and UDP begin with.
\<close>

definition headerFields :: "(PayloadBase \<Rightarrow> bytes) \<Rightarrow> Packet \<Rightarrow> bool" where
  "headerFields h pk \<longleftrightarrow>
     (case pkFamily pk of
        FamilyIPv4 \<Rightarrow> 20 \<le> length (h PayloadBaseNetworkHeader) \<and>
          take 4 (drop 12 (h PayloadBaseNetworkHeader)) = wireAddr (pkSrc pk) \<and>
          take 4 (drop 16 (h PayloadBaseNetworkHeader)) = wireAddr (pkDst pk)
      | FamilyIPv6 \<Rightarrow> 40 \<le> length (h PayloadBaseNetworkHeader) \<and>
          take 16 (drop 8 (h PayloadBaseNetworkHeader)) = wireAddr (pkSrc pk) \<and>
          take 16 (drop 24 (h PayloadBaseNetworkHeader)) = wireAddr (pkDst pk)) \<and>
     (pkL4 pk \<in> {6, 17} \<longrightarrow> 4 \<le> length (h PayloadBaseTransportHeader) \<and>
        take 2 (h PayloadBaseTransportHeader) = be16 (pkSport pk) \<and>
        take 2 (drop 2 (h PayloadBaseTransportHeader)) = be16 (pkDport pk))"

fun metaOf :: "(32 word \<Rightarrow> bytes) \<Rightarrow> MetaKey \<Rightarrow> Packet \<Rightarrow> bytes" where
  "metaOf native MetaKeyNFPROTO pk = [familyNumber (pkFamily pk)]"
| "metaOf native MetaKeyIIFNAME pk = nameBytes (pkIif pk)"
| "metaOf native MetaKeyOIFNAME pk = nameBytes (pkOif pk)"
| "metaOf native MetaKeyL4PROTO pk = [pkL4 pk]"
| "metaOf native MetaKeyMARK pk = native (pkMark pk)"

fun ctOf :: "(32 word \<Rightarrow> bytes) \<Rightarrow> (Packet \<Rightarrow> 32 word) \<Rightarrow> CtKey \<Rightarrow> Packet \<Rightarrow> bytes" where
  "ctOf native status CtKeyMARK pk = native (pkCtMark pk)"
| "ctOf native status CtKeyDIRECTION pk = [dirByte (pkReply pk)]"
| "ctOf native status CtKeySTATUS pk = native (status pk)"

datatype Effect =
  EffDNAT Family bytes bytes bytes
| EffSNAT Family bytes
| EffMasq
| EffMark bytes
| EffCtMark bytes
| EffWrite nat nat bytes "(nat \<times> bool) option"

text \<open>A packet as the hooks see it: two addresses of one family and interface names Linux allows.\<close>

definition netAddr :: "addr \<Rightarrow> bool" where
  "netAddr a \<longleftrightarrow> addrIsValid a \<and> unmapAddr a = a \<and> addrZone a = []"

definition netName :: "string \<Rightarrow> bool" where
  "netName s \<longleftrightarrow> length s \<le> 15 \<and> CHR 0x00 \<notin> set s"

definition netPacket :: "Packet \<Rightarrow> bool" where
  "netPacket pk \<longleftrightarrow>
     netAddr (pkSrc pk) \<and> netAddr (pkDst pk) \<and> familyOf (pkSrc pk) = familyOf (pkDst pk) \<and>
     netName (pkIif pk) \<and> netName (pkOif pk)"

fun runs :: "(Expr \<Rightarrow> 's \<Rightarrow> 's option) \<Rightarrow> Expr list \<Rightarrow> 's \<Rightarrow> 's option" where
  "runs eval [] \<sigma> = Some \<sigma>"
| "runs eval (e # es) \<sigma> = (case eval e \<sigma> of None \<Rightarrow> None | Some \<sigma>' \<Rightarrow> runs eval es \<sigma>')"

text \<open>
  The rules a plan holds: addresses of one family, a family where one is needed, a target for a
  translation, TCP or UDP where there are ports, names without NUL.
\<close>

definition ruleWf :: "Rule \<Rightarrow> bool" where
  "ruleWf r \<longleftrightarrow>
     (\<forall>a. rlSrcAddr r = Some a \<or> rlDstAddr r = Some a \<longrightarrow>
        addrIsValid a \<and> addrZone a = [] \<and> ruleFamily r = Some (familyOf a)) \<and>
     (rlDstOutsideCluster r \<or> rlKind r = KindSNAT \<longrightarrow> ruleFamily r \<noteq> None) \<and>
     (rlKind r = KindDNAT \<longrightarrow> addrIsValid (rlToAddr r)) \<and> selProto (rlPort r) \<in> {[], ''tcp'', ''udp''} \<and>
     CHR 0x00 \<notin> set (rlIifName r) \<union> set (rlOifName r)"

text \<open>
  What a rule is to do with a packet: nothing when it does not match, else the effect of its kind.
  A steer rule also needs the destination in its map, and then writes what it found there over the
  destination address of the header; for IPv4 it has the header's checksum at offset 10 and the
  pseudo-header's updated. (The MSS clamp is left out: its statement
  depends on the TCP flags and the route, which packets here do not carry.)
\<close>

definition ruleOutcome ::
  "(32 word \<Rightarrow> bytes) \<Rightarrow> (string \<Rightarrow> bytes \<Rightarrow> bool) \<Rightarrow> (string \<Rightarrow> bytes \<Rightarrow> bytes option) \<Rightarrow> Rule \<Rightarrow> Packet \<Rightarrow> Effect list option" where
  "ruleOutcome native setHit mapVal r pk =
     (if \<not> ruleHit (\<lambda>f a. setHit (clusterSet f) (wireAddr a)) r pk then None
      else case rlKind r of
        KindDNAT \<Rightarrow>
          (let (lo, hi) = (if rlToPort r \<noteq> 0 then (rlToPort r, rlToPort r) else (selFirst (rlPort r), selLast (rlPort r)))
           in Some [EffDNAT (familyOf (rlToAddr r)) (wireAddr (unmapAddr (rlToAddr r))) (be16 lo) (be16 hi)])
      | KindSNAT \<Rightarrow> Some [EffSNAT (pkFamily pk) (wireAddr (pkSrc pk))]
      | KindMark \<Rightarrow> Some [EffMark (native (rlMark r))]
      | KindCtSave \<Rightarrow> Some [EffCtMark (native (rlMark r))]
      | KindCtLoad \<Rightarrow> Some [EffMark (native (pkCtMark pk))]
      | KindMasq \<Rightarrow> Some [EffMasq]
      | KindSteer \<Rightarrow>
          (case mapVal (steerMap (pkFamily pk)) (wireAddr (pkDst pk)) of
             None \<Rightarrow> None
           | Some v \<Rightarrow> Some [case pkFamily pk of FamilyIPv4 \<Rightarrow> EffWrite 16 4 v (Some (10, True)) | FamilyIPv6 \<Rightarrow> EffWrite 24 16 v None])
      | _ \<Rightarrow> Some [])"

section \<open>Lemmas: bytes\<close>

text \<open>The bytes of a value, most significant first; each has its own bits.\<close>

lemma bytes_inj:
  fixes v w :: "'a::len word"
  assumes "map (\<lambda>k. ucast (drop_bit (8 * k) v) :: 8 word) ks = map (\<lambda>k. ucast (drop_bit (8 * k) w)) ks"
    and "\<And>n. n < LENGTH('a) \<Longrightarrow> n div 8 \<in> set ks"
  shows "v = w"
proof (rule bit_word_eqI)
  fix n
  assume n: "n < LENGTH('a)"
  have b: "bit u n = bit (ucast (drop_bit (8 * (n div 8)) u) :: 8 word) (n mod 8)" for u :: "'a word"
    by (simp add: bit_simps)
  have "(ucast (drop_bit (8 * (n div 8)) v) :: 8 word) = ucast (drop_bit (8 * (n div 8)) w)"
    using assms(1) assms(2) [OF n] by (simp only: map_eq_conv)
  then show "bit v n = bit w n" using b [of v] b [of w] by simp
qed

lemma be32_inj: "be32 v = be32 w \<longleftrightarrow> v = w"
proof
  assume "be32 v = be32 w"
  moreover have "set [3, 2, 1, 0] = {..<4::nat}" by (simp add: lessThan_nat_numeral lessThan_Suc insert_commute)
  ultimately show "v = w" unfolding be32_def by (elim bytes_inj) simp
qed simp

lemma be128_inj: "be128 v = be128 w \<longleftrightarrow> v = w"
proof
  assume "be128 v = be128 w"
  moreover have "set [15, 14, 13, 12, 11, 10, 9, 8, 7, 6, 5, 4, 3, 2, 1, 0] = {..<16::nat}"
    by (simp add: lessThan_nat_numeral lessThan_Suc insert_commute)
  ultimately show "v = w" unfolding be128_def by (elim bytes_inj) simp
qed simp

lemma uint_be16: "uint w = uint (ucast (drop_bit 8 w) :: 8 word) * 256 + uint (ucast w :: 8 word)" for w :: "16 word"
proof -
  have w: "0 \<le> uint w" "uint w < 65536" using uint_bounded [of w] by simp_all
  then have "uint (drop_bit 8 w) = uint w div 256"
    by (simp only: unsigned_drop_bit_eq) (simp add: drop_bit_eq_div take_bit_int_eq_self)
  then have "uint (ucast (drop_bit 8 w) :: 8 word) = uint w div 256"
    using w by (simp only: unsigned_ucast_eq) (subst take_bit_int_eq_self, auto simp: pos_imp_zdiv_nonneg_iff)
  moreover have "uint (ucast w :: 8 word) = uint w mod 256"
    by (simp only: unsigned_ucast_eq) (simp add: take_bit_eq_mod)
  ultimately show ?thesis by (simp only: div_mult_mod_eq)
qed

lemma two_digits: "b < 256 \<Longrightarrow> d < 256 \<Longrightarrow> 0 \<le> b \<Longrightarrow> 0 \<le> d \<Longrightarrow> (a < c \<or> a = c \<and> b \<le> d) \<longleftrightarrow> a * 256 + b \<le> c * 256 + d"
  for a b c d :: int by arith

lemma be16_le: "be16 v \<le> be16 w \<longleftrightarrow> v \<le> w"
proof -
  have b: "uint (ucast w :: 8 word) < 256" "0 \<le> uint (ucast w :: 8 word)" for w :: "16 word"
    using uint_bounded [of "ucast w :: 8 word"] by simp_all
  have "be16 v \<le> be16 w \<longleftrightarrow> (uint (ucast (drop_bit 8 v) :: 8 word) < uint (ucast (drop_bit 8 w) :: 8 word) \<or>
      uint (ucast (drop_bit 8 v) :: 8 word) = uint (ucast (drop_bit 8 w) :: 8 word) \<and> uint (ucast v :: 8 word) \<le> uint (ucast w :: 8 word))"
    by (auto simp: be16_def word_le_def word_less_def word_uint_eq_iff)
  also have "\<dots> \<longleftrightarrow> uint v \<le> uint w" unfolding uint_be16 [of v] uint_be16 [of w] by (rule two_digits) (rule b)+
  finally show ?thesis by (simp add: word_le_def)
qed

lemma byteOf_inj: "byteOf c = byteOf d \<longleftrightarrow> c = d"
  using nat_of_char_less_256 [of c] nat_of_char_less_256 [of d] by (simp add: byteOf_def word_of_nat_eq_iff take_bit_nat_eq_self)


lemma be_length [simp]: "length (be16 p) = 2" "length (be32 v) = 4" "length (be128 w) = 16"
  by (simp_all add: be16_def be32_def be128_def)

lemma be16_inj: "be16 v = be16 w \<longleftrightarrow> v = w"
  using be16_le [of v w] be16_le [of w v] by auto

lemma byteOf_zero: "byteOf c = 0 \<longleftrightarrow> c = CHR 0x00"
  using byteOf_inj [of c "CHR 0x00"] by (simp add: byteOf_def)

lemma map_byteOf_inj: "map byteOf s = map byteOf t \<longleftrightarrow> s = t"
  using byteOf_inj by (simp add: inj_map_eq_map inj_def)

text \<open>A compare without the terminator is a prefix match, one with it compares the whole name.\<close>

lemma name_ends:
  assumes "netName actual" and "CHR 0x00 \<notin> set pre" and "length actual < length pre"
  shows "take (length pre + k) (nameBytes actual) \<noteq> map byteOf pre @ ys"
proof
  assume e: "take (length pre + k) (nameBytes actual) = map byteOf pre @ ys"
  have "take (length pre + k) (nameBytes actual) ! length actual = 0"
    using assms(1,3) by (simp add: nameBytes_def netName_def nth_append)
  moreover have "(map byteOf pre @ ys) ! length actual = byteOf (pre ! length actual)" using assms(3) by (simp add: nth_append)
  ultimately have "pre ! length actual = CHR 0x00" using e byteOf_zero by metis
  then show False using assms(2,3) nth_mem by metis
qed

lemma name_prefix:
  assumes "netName actual" and "CHR 0x00 \<notin> set pre"
  shows "take (length pre) (nameBytes actual) = map byteOf pre \<longleftrightarrow> take (length pre) actual = pre"
proof (cases "length pre \<le> length actual")
  case True
  then have "take (length pre) (nameBytes actual) = map byteOf (take (length pre) actual)"
    by (simp add: nameBytes_def take_map)
  then show ?thesis by (simp only: map_byteOf_inj)
next
  case False
  then have "take (length pre) actual \<noteq> pre" by (metis length_take min.absorb_iff2 nle_le)
  then show ?thesis using name_ends [OF assms, of 0 "[]"] False by simp
qed

lemma name_exact:
  assumes "netName actual" and "CHR 0x00 \<notin> set name"
  shows "take (length name + 1) (nameBytes actual) = map byteOf name @ [0] \<longleftrightarrow> actual = name"
proof -
  consider "length name < length actual" | "length name = length actual" | "length actual < length name" by linarith
  then show ?thesis
  proof cases
    case 1
    have "last (take (length name + 1) (nameBytes actual)) = byteOf (actual ! length name)"
      using 1 by (simp add: nameBytes_def take_map take_Suc_conv_app_nth)
    moreover have "actual ! length name \<noteq> CHR 0x00" using assms(1) 1 by (metis netName_def nth_mem)
    ultimately have "take (length name + 1) (nameBytes actual) \<noteq> map byteOf name @ [0]" by (metis byteOf_zero last_snoc)
    then show ?thesis using 1 by auto
  next
    case 2
    have "min (Suc 0) (16 - length actual) = Suc 0" using assms(1) by (auto simp: netName_def)
    with 2 have "take (length name + 1) (nameBytes actual) = map byteOf actual @ [0]" by (simp add: nameBytes_def)
    then show ?thesis by (auto simp: map_byteOf_inj)
  next
    case 3
    then show ?thesis using name_ends [OF assms, of 1] by auto
  qed
qed

lemma addrBytes_wire: "addrIsValid a \<Longrightarrow> addrBytes a = wireAddr (unmapAddr a)"
  by (cases a) (auto simp: addrBytes_def familyOf_def)

lemma wireAddr_length: "netAddr a \<Longrightarrow> length (wireAddr a) = (case familyOf a of FamilyIPv4 \<Rightarrow> 4 | FamilyIPv6 \<Rightarrow> 16)"
  by (cases a) (auto simp: netAddr_def familyOf_def)

lemma wireAddr_eq:
  assumes "netAddr a" and "netAddr b" and "familyOf a = familyOf b"
  shows "wireAddr a = wireAddr b \<longleftrightarrow> a = b"
  using assms by (cases a; cases b) (auto simp: netAddr_def familyOf_def be32_inj be128_inj)

lemma netAddr_unmap:
  assumes "addrIsValid a" and "addrZone a = []"
  shows "netAddr (unmapAddr a)" and "familyOf (unmapAddr a) = familyOf a"
  using assms by (cases a; auto simp: netAddr_def familyOf_def)+

section \<open>Lemmas: sequences of matches\<close>

text \<open>
  A block of expressions is a guard for a condition of the packet, given what earlier blocks have
  checked: it runs through exactly when the condition holds and changes only registers.
\<close>

definition isGuard ::
  "(Expr \<Rightarrow> 's \<Rightarrow> 's option) \<Rightarrow> ('s \<Rightarrow> Packet) \<Rightarrow> ('s \<Rightarrow> Effect list) \<Rightarrow> (Packet \<Rightarrow> bool) \<Rightarrow> Expr list \<Rightarrow> (Packet \<Rightarrow> bool) \<Rightarrow> bool" where
  "isGuard eval pkt eff P es c \<longleftrightarrow>
     (\<forall>\<sigma>. P (pkt \<sigma>) \<longrightarrow>
        (if c (pkt \<sigma>) then \<exists>\<sigma>'. runs eval es \<sigma> = Some \<sigma>' \<and> pkt \<sigma>' = pkt \<sigma> \<and> eff \<sigma>' = eff \<sigma>
         else runs eval es \<sigma> = None))"

lemma runs_append: "runs eval (xs @ ys) \<sigma> = (case runs eval xs \<sigma> of None \<Rightarrow> None | Some \<sigma>' \<Rightarrow> runs eval ys \<sigma>')"
  by (induction xs arbitrary: \<sigma>) (auto split: option.splits)

lemma isGuard_Nil: "isGuard eval pkt eff P [] (\<lambda>_. True)"
  by (simp add: isGuard_def)

lemma isGuard_append:
  assumes "isGuard eval pkt eff P xs c" and "isGuard eval pkt eff (\<lambda>p. P p \<and> c p) ys d"
  shows "isGuard eval pkt eff P (xs @ ys) (\<lambda>p. c p \<and> d p)"
  unfolding isGuard_def
proof (intro allI impI)
  fix \<sigma>
  assume P: "P (pkt \<sigma>)"
  show "if c (pkt \<sigma>) \<and> d (pkt \<sigma>) then \<exists>\<sigma>'. runs eval (xs @ ys) \<sigma> = Some \<sigma>' \<and> pkt \<sigma>' = pkt \<sigma> \<and> eff \<sigma>' = eff \<sigma>
      else runs eval (xs @ ys) \<sigma> = None"
  proof (cases "c (pkt \<sigma>)")
    case True
    then obtain \<sigma>' where s: "runs eval xs \<sigma> = Some \<sigma>'" "pkt \<sigma>' = pkt \<sigma>" "eff \<sigma>' = eff \<sigma>"
      using assms(1) P unfolding isGuard_def by force
    then show ?thesis using assms(2) P True unfolding isGuard_def runs_append by (auto dest!: spec [of _ \<sigma>'])
  next
    case False
    then have "runs eval xs \<sigma> = None" using assms(1) P unfolding isGuard_def by force
    then show ?thesis using False by (simp add: runs_append)
  qed
qed

lemma isGuard_weaken: "isGuard eval pkt eff P es c \<Longrightarrow> (\<And>p. Q p \<Longrightarrow> P p) \<Longrightarrow> (\<And>p. Q p \<Longrightarrow> c p = d p) \<Longrightarrow> isGuard eval pkt eff Q es d"
  by (simp add: isGuard_def)

lemma isGuard_if: "(b \<Longrightarrow> isGuard eval pkt eff P es c) \<Longrightarrow> isGuard eval pkt eff P (if b then es else []) (\<lambda>p. b \<longrightarrow> c p)"
  by (cases b) (simp_all add: isGuard_def)

section \<open>The kernel\<close>

text \<open>
  The kernel's evaluation of one expression: \<open>eval\<close> gives the state after it, or \<^term>\<open>None\<close> when the
  rule stops matching there. \<open>put\<close> writes a register, \<open>emit\<close> records an effect, \<open>setHit\<close> and \<open>mapVal\<close>
  are the contents of the sets and maps, \<open>header\<close> the bytes of a packet's headers, \<open>native\<close> is the
  host's byte order and \<open>status\<close> the conntrack status bits of the packet's flow.
\<close>

locale nft_kernel =
  fixes eval :: "Expr \<Rightarrow> 's \<Rightarrow> 's option" and reg :: "'s \<Rightarrow> nat \<Rightarrow> bytes" and pkt :: "'s \<Rightarrow> Packet"
    and eff :: "'s \<Rightarrow> Effect list" and put :: "nat \<Rightarrow> bytes \<Rightarrow> 's \<Rightarrow> 's" and emit :: "Effect \<Rightarrow> 's \<Rightarrow> 's"
    and header :: "Packet \<Rightarrow> PayloadBase \<Rightarrow> bytes" and native :: "32 word \<Rightarrow> bytes" and status :: "Packet \<Rightarrow> 32 word"
    and setHit :: "string \<Rightarrow> bytes \<Rightarrow> bool" and mapVal :: "string \<Rightarrow> bytes \<Rightarrow> bytes option"
  assumes reg_put: "reg (put n v \<sigma>) m = (if m = n then v else reg \<sigma> m)"
    and pkt_put: "pkt (put n v \<sigma>) = pkt \<sigma>" and eff_put: "eff (put n v \<sigma>) = eff \<sigma>"
    and pkt_emit: "pkt (emit x \<sigma>) = pkt \<sigma>" and eff_emit: "eff (emit x \<sigma>) = eff \<sigma> @ [x]"
    and native_inj: "native x32 = native y32 \<longleftrightarrow> x32 = y32" and native_length: "length (native x32) = 4"
    and native_and: "map2 (XOR) (map2 (AND) (native x32) (native y32)) (native 0) = native (x32 AND y32)"
    and status_dnat: "bit (status pk) 5 \<longleftrightarrow> pkDnat pk"
    and meta_load: "eval (ExMeta k False n) \<sigma> = Some (put n (metaOf native k (pkt \<sigma>)) \<sigma>)"
    and meta_mark: "eval (ExMeta MetaKeyMARK True n) \<sigma> = Some (emit (EffMark (reg \<sigma> n)) \<sigma>)"
    and ct_load: "eval (ExCt c False n) \<sigma> = Some (put n (ctOf native status c (pkt \<sigma>)) \<sigma>)"
    and ct_mark: "eval (ExCt CtKeyMARK True n) \<sigma> = Some (emit (EffCtMark (reg \<sigma> n)) \<sigma>)"
    and cmp: "eval (ExCmp op n data) \<sigma> =
      (if (take (length data) (reg \<sigma> n) = data) = (op = CmpOpEq) then Some \<sigma> else None)"
    and range: "eval (ExRange CmpOpEq n lo hi) \<sigma> =
      (if lo \<le> take (length lo) (reg \<sigma> n) \<and> take (length hi) (reg \<sigma> n) \<le> hi then Some \<sigma> else None)"
    and header_fields: "netPacket pk \<Longrightarrow> headerFields (header pk) pk"
    and load: "off + len \<le> length (header (pkt \<sigma>) base) \<Longrightarrow>
      eval (ExPayloadLoad n base off len) \<sigma> = Some (put n (take len (drop off (header (pkt \<sigma>) base))) \<sigma>)"
    and write_header: "eval (ExPayloadWrite n PayloadBaseNetworkHeader off len csum) \<sigma> = Some (emit (EffWrite off len (reg \<sigma> n) csum) \<sigma>)"
    and lookup_set: "eval (ExLookup n None name i invert) \<sigma> = (if setHit name (reg \<sigma> n) \<noteq> invert then Some \<sigma> else None)"
    and lookup_map: "eval (ExLookup n (Some m) name i False) \<sigma> =
      (case mapVal name (reg \<sigma> n) of None \<Rightarrow> None | Some v \<Rightarrow> Some (put m v \<sigma>))"
    and bitwise: "eval (ExBitwise n m len msk flip) \<sigma> =
      Some (put m (map2 (XOR) (map2 (AND) (take len (reg \<sigma> n)) msk) flip) \<sigma>)"
    and counter: "eval (ExCounter cp cb) \<sigma> = Some \<sigma>"
    and immediate: "eval (ExImmediate n data) \<sigma> = Some (put n data \<sigma>)"
    and dnat: "eval (ExNAT NATTypeDestNAT (familyNumber f) a a p q) \<sigma> = Some (emit (EffDNAT f (reg \<sigma> a) (reg \<sigma> p) (reg \<sigma> q)) \<sigma>)"
    and snat: "eval (ExNAT NATTypeSourceNAT (familyNumber f) a a 0 0) \<sigma> = Some (emit (EffSNAT f (reg \<sigma> a)) \<sigma>)"
    and masq: "eval ExMasq \<sigma> = Some (emit EffMasq \<sigma>)"
begin

abbreviation guard :: "(Packet \<Rightarrow> bool) \<Rightarrow> Expr list \<Rightarrow> (Packet \<Rightarrow> bool) \<Rightarrow> bool" where
  "guard \<equiv> isGuard eval pkt eff"

lemmas state_simps = reg_put pkt_put eff_put pkt_emit eff_emit

text \<open>The program's numbers and offsets are those of the kernel and of the headers.\<close>

lemma nfproto_number: "nfproto f = familyNumber f"
  by (cases f) (simp_all add: nfproto_def)

lemma load_addr:
  assumes "netPacket (pkt \<sigma>)" and "addrLoad (pkFamily (pkt \<sigma>)) src = (off, len)"
  shows "eval (ExPayloadLoad n PayloadBaseNetworkHeader off len) \<sigma> =
    Some (put n (wireAddr (if src then pkSrc (pkt \<sigma>) else pkDst (pkt \<sigma>))) \<sigma>)"
  using header_fields [OF assms(1)] assms(2)
  by (cases "pkFamily (pkt \<sigma>)"; cases src) (auto simp: headerFields_def addrLoad_def load)

lemma load_port:
  assumes "netPacket (pkt \<sigma>)" and "pkL4 (pkt \<sigma>) \<in> {6, 17}"
  shows "eval (ExPayloadLoad n PayloadBaseTransportHeader (if src then 0 else 2) 2) \<sigma> =
    Some (put n (be16 (if src then pkSport (pkt \<sigma>) else pkDport (pkt \<sigma>))) \<sigma>)"
proof -
  let ?h = "header (pkt \<sigma>) PayloadBaseTransportHeader"
  have "4 \<le> length ?h" "take 2 ?h = be16 (pkSport (pkt \<sigma>))" "take 2 (drop 2 ?h) = be16 (pkDport (pkt \<sigma>))"
    using header_fields [OF assms(1)] assms(2) by (auto simp: headerFields_def)
  then show ?thesis by (cases src) (simp_all add: load)
qed

lemma guard_meta_cmp:
  "guard P [ExMeta k False 1, ExCmp op 1 data] (\<lambda>p. (take (length data) (metaOf native k p) = data) = (op = CmpOpEq))"
  by (simp add: isGuard_def meta_load cmp state_simps)

lemma guard_ct_cmp:
  "guard P [ExCt k False 1, ExCmp op 1 data] (\<lambda>p. (take (length data) (ctOf native status k p) = data) = (op = CmpOpEq))"
  by (simp add: isGuard_def ct_load cmp state_simps)

lemma guard_family: "guard P [ExMeta MetaKeyNFPROTO False 1, ExCmp CmpOpEq 1 [nfproto f]] (\<lambda>p. pkFamily p = f)"
  unfolding nfproto_number by (rule isGuard_weaken [OF guard_meta_cmp]) (simp_all add: familyNumber_eq)

lemma guard_iface:
  assumes "CHR 0x00 \<notin> set name" and "\<And>p. P p \<Longrightarrow> netPacket p" and "k = MetaKeyIIFNAME \<and> get = pkIif \<or> k = MetaKeyOIFNAME \<and> get = pkOif"
  shows "guard P [ExMeta k False 1, ifnameCmp name neg] (\<lambda>p. ifaceHit name (get p) \<noteq> neg)"
proof -
  have m: "metaOf native k p = nameBytes (get p)" for p using assms(3) by auto
  have n: "netName (get p)" if "P p" for p using assms(2) [OF that] assms(3) by (auto simp: netPacket_def)
  show ?thesis
  proof (cases "name \<noteq> [] \<and> last name = CHR ''*''")
    case True
    have z: "CHR 0x00 \<notin> set (butlast name)" using assms(1) in_set_butlastD by metis
    have e: "ifnameCmp name neg = ExCmp (if neg then CmpOpNeq else CmpOpEq) 1 (map byteOf (butlast name))"
      using True by (simp add: ifnameCmp_def)
    show ?thesis unfolding e
      by (rule isGuard_weaken [OF guard_meta_cmp]) (use True name_prefix [OF n z] in \<open>simp_all add: m ifaceHit_def\<close>)
  next
    case False
    then have e: "ifnameCmp name neg = ExCmp (if neg then CmpOpNeq else CmpOpEq) 1 (map byteOf name @ [0])"
      by (auto simp: ifnameCmp_def)
    show ?thesis unfolding e
      by (rule isGuard_weaken [OF guard_meta_cmp]) (use False name_exact [OF n assms(1)] in \<open>auto simp: m ifaceHit_def\<close>)
  qed
qed

lemma guard_addr:
  assumes "\<And>p. P p \<Longrightarrow> netPacket p \<and> pkFamily p = familyOf a" and "addrIsValid a" and "addrZone a = []"
  shows "guard P (ipCmp a src) (\<lambda>p. unmapAddr a = (if src then pkSrc p else pkDst p))"
  unfolding isGuard_def
proof (intro allI impI)
  fix \<sigma>
  assume P: "P (pkt \<sigma>)"
  let ?b = "if src then pkSrc (pkt \<sigma>) else pkDst (pkt \<sigma>)"
  obtain off len where l: "addrLoad (familyOf a) src = (off, len)" by fastforce
  have pk: "netPacket (pkt \<sigma>)" "pkFamily (pkt \<sigma>) = familyOf a" using assms(1) [OF P] by simp_all
  then have b: "netAddr ?b" "familyOf a = familyOf ?b" by (auto simp: netPacket_def pkFamily_def)
  note u = netAddr_unmap [OF assms(2,3)]
  have w: "length (wireAddr (unmapAddr a)) = length (wireAddr ?b)" unfolding wireAddr_length [OF u(1)] wireAddr_length [OF b(1)] u(2) b(2) ..
  have "runs eval (ipCmp a src) \<sigma> =
      (if wireAddr ?b = wireAddr (unmapAddr a) then Some (put 1 (wireAddr ?b) \<sigma>) else None)"
    using load_addr [OF pk(1), of src off len 1] pk(2) l w by (simp add: ipCmp_def addrBytes_wire [OF assms(2)] cmp reg_put)
  moreover have "wireAddr ?b = wireAddr (unmapAddr a) \<longleftrightarrow> unmapAddr a = ?b"
    using wireAddr_eq [OF u(1) b(1)] u(2) b(2) by (metis (full_types))
  ultimately show "if unmapAddr a = ?b then \<exists>\<sigma>'. runs eval (ipCmp a src) \<sigma> = Some \<sigma>' \<and> pkt \<sigma>' = pkt \<sigma> \<and> eff \<sigma>' = eff \<sigma>
      else runs eval (ipCmp a src) \<sigma> = None" by (simp add: state_simps)
qed

lemma guard_cluster:
  assumes "\<And>p. P p \<Longrightarrow> netPacket p \<and> pkFamily p = f" and "addrLoad f False = (off, len)"
  shows "guard P [ExPayloadLoad 1 PayloadBaseNetworkHeader off len, ExLookup 1 None name i True]
    (\<lambda>p. \<not> setHit name (wireAddr (pkDst p)))"
  using load_addr [of _ False off len 1] assms by (auto simp: isGuard_def lookup_set state_simps)

lemma guard_port:
  assumes "\<And>p. P p \<Longrightarrow> netPacket p \<and> pkL4 p \<in> {6, 17}"
  shows "guard P (portMatch sel src) (\<lambda>p. let port = (if src then pkSport p else pkDport p) in selFirst sel \<le> port \<and> port \<le> selLast sel)"
  unfolding isGuard_def
proof (intro allI impI)
  fix \<sigma>
  assume "P (pkt \<sigma>)"
  then have "netPacket (pkt \<sigma>)" "pkL4 (pkt \<sigma>) \<in> {6, 17}" using assms by blast+
  note load = load_port [OF this, of 1 src]
  let ?port = "if src then pkSport (pkt \<sigma>) else pkDport (pkt \<sigma>)"
  have "runs eval (portMatch sel src) \<sigma> =
      (if selFirst sel \<le> ?port \<and> ?port \<le> selLast sel then Some (put 1 (be16 ?port) \<sigma>) else None)"
  proof (cases "selFirst sel = selLast sel")
    case True
    then show ?thesis using load by (auto simp: portMatch_def Let_def cmp reg_put be16_inj simp del: if_split)
  next
    case False
    then show ?thesis using load by (auto simp: portMatch_def Let_def range reg_put be16_le simp del: if_split)
  qed
  then show "if let port = ?port in selFirst sel \<le> port \<and> port \<le> selLast sel
      then \<exists>\<sigma>'. runs eval (portMatch sel src) \<sigma> = Some \<sigma>' \<and> pkt \<sigma>' = pkt \<sigma> \<and> eff \<sigma>' = eff \<sigma>
      else runs eval (portMatch sel src) \<sigma> = None"
    by (simp add: Let_def state_simps)
qed

lemma guard_proto: "guard P [ExMeta MetaKeyL4PROTO False 1, ExCmp CmpOpEq 1 [n]] (\<lambda>p. pkL4 p = n)"
  by (rule isGuard_weaken [OF guard_meta_cmp]) simp_all

lemma guard_sel:
  assumes "\<And>p. P p \<Longrightarrow> netPacket p" and "selProto sel \<in> {''tcp'', ''udp''}"
  shows "guard P ([ExMeta MetaKeyL4PROTO False 1, ExCmp CmpOpEq 1 [protoNum (selProto sel)]] @ portMatch sel src) (portHit sel src)"
  by (rule isGuard_weaken [OF isGuard_append [OF guard_proto [of P] guard_port]])
    (use assms in \<open>auto simp: portHit_def protoHit_def protoNum_def split: if_splits\<close>)

lemma guard_direction:
  "guard P (case dir of CtDirAny \<Rightarrow> [] | CtDirOriginal \<Rightarrow> ctDirExprs 0 | CtDirReply \<Rightarrow> ctDirExprs 1) (\<lambda>p. ctDirHit dir (pkReply p))"
proof (cases dir)
  case CtDirAny
  then show ?thesis using isGuard_Nil by (simp add: ctDirHit_def)
next
  case CtDirOriginal
  show ?thesis unfolding CtDirOriginal ctDirExprs_def CtDirection.case
    by (intro isGuard_weaken [OF guard_ct_cmp]) (simp_all add: ctDirHit_def dirByte_def)
next
  case CtDirReply
  show ?thesis unfolding CtDirReply ctDirExprs_def CtDirection.case
    by (intro isGuard_weaken [OF guard_ct_cmp]) (simp_all add: ctDirHit_def dirByte_def)
qed

lemma guard_ct_mark: "guard P [ExCt CtKeyMARK False 1, ExCmp CmpOpEq 1 (native m)] (\<lambda>p. pkCtMark p = m)"
  by (rule isGuard_weaken [OF guard_ct_cmp]) (simp_all add: native_length native_inj)

lemma guard_status: "guard P (ctStatusDNATExprs native) pkDnat"
proof -
  have "native (status p AND push_bit 5 1) = native 0 \<longleftrightarrow> \<not> pkDnat p" for p
    using and_exp_eq_0_iff_not_bit [of "status p" 5] by (simp add: native_inj status_dnat push_bit_of_1)
  then show ?thesis
    by (simp add: isGuard_def ctStatusDNATExprs_def ct_load bitwise cmp state_simps native_length native_and)
qed

text \<open>The matches of a whole rule.\<close>

lemma guard_header:
  assumes "ruleWf r"
  shows "guard netPacket (headerMatches sets r) (\<lambda>p.
    (case ruleFamily r of None \<Rightarrow> True | Some f \<Rightarrow> pkFamily p = f) \<and>
    (rlIifName r \<noteq> [] \<longrightarrow> ifaceHit (rlIifName r) (pkIif p)) \<and>
    (rlOifName r \<noteq> [] \<longrightarrow> ifaceHit (rlOifName r) (pkOif p) \<noteq> rlOifNeg r) \<and>
    addrHit (rlSrcAddr r) (pkSrc p) \<and> addrHit (rlDstAddr r) (pkDst p) \<and>
    (rlDstOutsideCluster r \<longrightarrow> \<not> setHit (clusterSet (pkFamily p)) (wireAddr (pkDst p))))"
proof -
  let ?fam = "\<lambda>p. case ruleFamily r of None \<Rightarrow> True | Some f \<Rightarrow> pkFamily p = f"
  have wf: "CHR 0x00 \<notin> set (rlIifName r)" "CHR 0x00 \<notin> set (rlOifName r)" using assms by (auto simp: ruleWf_def)
  have fam: "guard P (case ruleFamily r of None \<Rightarrow> [] | Some f \<Rightarrow> [ExMeta MetaKeyNFPROTO False 1, ExCmp CmpOpEq 1 [nfproto f]]) ?fam" for P
    by (cases "ruleFamily r") (simp_all only: option.case isGuard_Nil guard_family)
  have iif: "guard P (if rlIifName r \<noteq> [] then [ExMeta MetaKeyIIFNAME False 1, ifnameCmp (rlIifName r) False] else [])
      (\<lambda>p. rlIifName r \<noteq> [] \<longrightarrow> ifaceHit (rlIifName r) (pkIif p))" if "\<And>p. P p \<Longrightarrow> netPacket p" for P
    by (rule isGuard_if, rule isGuard_weaken [OF guard_iface [OF wf(1) that, of P MetaKeyIIFNAME pkIif False]]) simp_all
  have oif: "guard P (if rlOifName r \<noteq> [] then [ExMeta MetaKeyOIFNAME False 1, ifnameCmp (rlOifName r) (rlOifNeg r)] else [])
      (\<lambda>p. rlOifName r \<noteq> [] \<longrightarrow> ifaceHit (rlOifName r) (pkOif p) \<noteq> rlOifNeg r)" if "\<And>p. P p \<Longrightarrow> netPacket p" for P
    by (rule isGuard_if, rule guard_iface [OF wf(2) that]) simp_all
  have addr: "guard P (case x of None \<Rightarrow> [] | Some a \<Rightarrow> ipCmp a src) (\<lambda>p. addrHit x (if src then pkSrc p else pkDst p))"
    if "\<And>p. P p \<Longrightarrow> netPacket p \<and> ?fam p" "x = rlSrcAddr r \<or> x = rlDstAddr r" for P x src
  proof (cases x)
    case None
    then show ?thesis by (simp add: addrHit_def isGuard_Nil)
  next
    case (Some a)
    then have "addrIsValid a \<and> addrZone a = [] \<and> ruleFamily r = Some (familyOf a)" using assms that(2) by (auto simp: ruleWf_def)
    then show ?thesis unfolding Some option.case addrHit_def by (intro guard_addr) (use that(1) in auto)
  qed
  have out: "guard P (if rlDstOutsideCluster r
      then let (offset, len) = addrLoad (ruleFam r) False; m = lookupSet sets (clusterSet (ruleFam r))
           in [ExPayloadLoad 1 PayloadBaseNetworkHeader offset len, ExLookup 1 None (fst m) (snd m) True] else [])
      (\<lambda>p. rlDstOutsideCluster r \<longrightarrow> \<not> setHit (clusterSet (pkFamily p)) (wireAddr (pkDst p)))"
    if "\<And>p. P p \<Longrightarrow> netPacket p \<and> ?fam p" for P
  proof (rule isGuard_if)
    assume "rlDstOutsideCluster r"
    then have f: "ruleFamily r = Some (ruleFam r)" using assms by (auto simp: ruleWf_def ruleFam_def)
    obtain off len where l: "addrLoad (ruleFam r) False = (off, len)" by fastforce
    have "fst (lookupSet sets name) = name" for name by (simp add: lookupSet_def split: option.splits)
    then show "guard P (let (offset, len) = addrLoad (ruleFam r) False; m = lookupSet sets (clusterSet (ruleFam r))
           in [ExPayloadLoad 1 PayloadBaseNetworkHeader offset len, ExLookup 1 None (fst m) (snd m) True])
        (\<lambda>p. \<not> setHit (clusterSet (pkFamily p)) (wireAddr (pkDst p)))"
      unfolding l Let_def prod.case
      by (intro isGuard_weaken [OF guard_cluster [OF _ l, of P]]) (use that f in auto)
  qed
  show ?thesis unfolding headerMatches_def
    by (intro isGuard_append fam iif oif out addr [where src = True, simplified] addr [where src = False, simplified]) auto
qed

lemma guard_flow:
  assumes "\<And>p. P p \<Longrightarrow> netPacket p" and "ruleWf r"
  shows "guard P (flowMatches native r) (\<lambda>p.
    (selProto (rlPort r) \<noteq> [] \<longrightarrow> portHit (rlPort r) (rlPortIsSrc r) p) \<and> ctDirHit (rlCtDir r) (pkReply p) \<and>
    (rlCtMark r \<noteq> 0 \<longrightarrow> pkCtMark p = rlCtMark r) \<and> (rlKind r = KindCount \<longrightarrow> pkDnat p))"
  unfolding flowMatches_def
  by (intro isGuard_append isGuard_if guard_sel guard_direction guard_ct_mark guard_status)
    (use assms in \<open>auto simp: ruleWf_def\<close>)

lemma guard_rule:
  assumes "ruleWf r"
  shows "guard netPacket (headerMatches sets r @ flowMatches native r) (ruleHit (\<lambda>f a. setHit (clusterSet f) (wireAddr a)) r)"
  by (rule isGuard_weaken [OF isGuard_append [OF guard_header [OF assms] guard_flow [OF _ assms]]]) (auto simp: ruleHit_def)

lemma guard_then:
  assumes "guard P es c" and "P (pkt \<sigma>)"
    and "\<And>\<sigma>'. c (pkt \<sigma>) \<Longrightarrow> pkt \<sigma>' = pkt \<sigma> \<Longrightarrow> map_option eff (runs eval fs \<sigma>') = map_option ((@) (eff \<sigma>')) x"
  shows "map_option eff (runs eval (es @ fs) \<sigma>) = map_option ((@) (eff \<sigma>)) (if c (pkt \<sigma>) then x else None)"
proof (cases "c (pkt \<sigma>)")
  case True
  then obtain \<sigma>' where "runs eval es \<sigma> = Some \<sigma>'" "pkt \<sigma>' = pkt \<sigma>" "eff \<sigma>' = eff \<sigma>"
    using assms(1,2) unfolding isGuard_def by force
  with assms(3) [OF True] True show ?thesis by (simp add: runs_append)
next
  case False
  then have "runs eval es \<sigma> = None" using assms(1,2) unfolding isGuard_def by force
  with False show ?thesis by (simp add: runs_append)
qed

lemma runs_dnat:
  assumes "addrIsValid to"
  shows "map_option eff (runs eval (dnatExprs to sel toPort) \<sigma>) =
     Some (eff \<sigma> @ [EffDNAT (familyOf to) (wireAddr (unmapAddr to))
       (be16 (if toPort \<noteq> 0 then toPort else selFirst sel)) (be16 (if toPort \<noteq> 0 then toPort else selLast sel))])"
  by (simp add: dnatExprs_def Let_def nfproto_number addrBytes_wire [OF assms] immediate dnat state_simps)

lemma runs_statement:
  assumes "rlKind r \<noteq> KindSteer" and "rlKind r \<noteq> KindMSS" and "netPacket (pkt \<sigma>)" and "ruleWf r"
    and "ruleHit (\<lambda>f a. setHit (clusterSet f) (wireAddr a)) r (pkt \<sigma>)"
  shows "map_option eff (runs eval (ExCounter 0 0 # statement native r) \<sigma>) =
    map_option ((@) (eff \<sigma>)) (ruleOutcome native setHit mapVal r (pkt \<sigma>))"
proof (cases "rlKind r")
  case KindSNAT
  obtain off len where l: "addrLoad (ruleFam r) True = (off, len)" by fastforce
  have f: "pkFamily (pkt \<sigma>) = ruleFam r" using KindSNAT assms(4,5) by (auto simp: ruleWf_def ruleHit_def ruleFam_def)
  show ?thesis using KindSNAT assms(5) load_addr [OF assms(3), of True off len 1] l f
    by (simp add: statement_def ruleOutcome_def snatIdentityExprs_def nfproto_number counter snat state_simps)
next
  case KindDNAT
  then have "addrIsValid (rlToAddr r)" using assms(4) by (simp add: ruleWf_def)
  from runs_dnat [OF this, of "rlPort r" "rlToPort r" \<sigma>] show ?thesis using assms(5) KindDNAT
    by (cases "rlToPort r = 0") (simp_all add: statement_def ruleOutcome_def counter)
qed (use assms in \<open>simp_all add: statement_def ruleOutcome_def counter markExprs_def ctSaveExprs_def ctLoadExprs_def
      immediate meta_mark ct_mark ct_load masq state_simps\<close>)

lemma runs_steer:
  assumes "netPacket (pkt \<sigma>)" and "pkFamily (pkt \<sigma>) = f"
  shows "map_option eff (runs eval (steerExprs f (lookupSet sets (steerMap f)) @ [ExCounter 0 0]) \<sigma>) =
    map_option ((@) (eff \<sigma>)) (case mapVal (steerMap f) (wireAddr (pkDst (pkt \<sigma>))) of None \<Rightarrow> None
      | Some v \<Rightarrow> Some [case f of FamilyIPv4 \<Rightarrow> EffWrite 16 4 v (Some (10, True)) | FamilyIPv6 \<Rightarrow> EffWrite 24 16 v None])"
proof -
  obtain off len where l: "addrLoad f False = (off, len)" by fastforce
  have n: "fst (lookupSet sets name) = name" for name by (simp add: lookupSet_def split: option.splits)
  have w: "(off, len) = (case f of FamilyIPv4 \<Rightarrow> (16, 4) | FamilyIPv6 \<Rightarrow> (24, 16))" using l by (cases f) (auto simp: addrLoad_def)
  show ?thesis using load_addr [OF assms(1), of False off len 1] assms(2) l n w
    by (cases f; cases "mapVal (steerMap f) (wireAddr (pkDst (pkt \<sigma>)))")
      (simp_all add: steerExprs_def lookup_map write_header counter state_simps)
qed

theorem rule_runs:
  assumes "ruleWf r" and "rlKind r \<noteq> KindMSS" and "netPacket (pkt \<sigma>)"
  shows "map_option eff (runs eval (nftExprs native sets r) \<sigma>) =
    map_option ((@) (eff \<sigma>)) (ruleOutcome native setHit mapVal r (pkt \<sigma>))"
proof -
  let ?hit = "ruleHit (\<lambda>f a. setHit (clusterSet f) (wireAddr a)) r"
  let ?rest = "if rlKind r = KindSteer then steerExprs (ruleFam r) (lookupSet sets (steerMap (ruleFam r))) @ [ExCounter 0 0]
    else ExCounter 0 0 # statement native r"
  have "map_option eff (runs eval ?rest \<sigma>') = map_option ((@) (eff \<sigma>')) (ruleOutcome native setHit mapVal r (pkt \<sigma>))"
    if hit: "?hit (pkt \<sigma>)" and s: "pkt \<sigma>' = pkt \<sigma>" for \<sigma>'
  proof (cases "rlKind r = KindSteer")
    case True
    then have "pkFamily (pkt \<sigma>') = ruleFam r" using hit s by (simp add: ruleHit_def ruleFam_def ruleFamily_def)
    from runs_steer [OF _ this, of sets] True hit assms(3) s this show ?thesis
      by (simp add: ruleOutcome_def cong: option.case_cong)
  next
    case False
    then show ?thesis using runs_statement [OF False assms(2), of \<sigma>'] assms(1,3) hit s by simp
  qed
  from guard_then [OF guard_rule [OF assms(1), of sets] assms(3) this]
  have "map_option eff (runs eval ((headerMatches sets r @ flowMatches native r) @ ?rest) \<sigma>) =
      map_option ((@) (eff \<sigma>)) (if ?hit (pkt \<sigma>) then ruleOutcome native setHit mapVal r (pkt \<sigma>) else None)" by simp
  moreover have "nftExprs native sets r = (headerMatches sets r @ flowMatches native r) @ ?rest"
    using assms(2) by (simp add: nftExprs_def)
  moreover have "(if ?hit (pkt \<sigma>) then ruleOutcome native setHit mapVal r (pkt \<sigma>) else None) = ruleOutcome native setHit mapVal r (pkt \<sigma>)"
    by (simp add: ruleOutcome_def)
  ultimately show ?thesis by simp
qed

end


section \<open>A register machine\<close>

text \<open>
  The laws hold of a machine with little-endian marks whose sets and maps are those the plan's
  transaction adds. A set of intervals holds a key when the last element not above it starts an
  interval.
\<close>

record Vm =
  vmReg :: "nat \<Rightarrow> bytes"
  vmPkt :: Packet
  vmEff :: "Effect list"

definition intervalHit :: "SetElement list \<Rightarrow> bytes \<Rightarrow> bool" where
  "intervalHit elems k =
     (let es = filter (\<lambda>e. seKey e \<le> k) elems in es \<noteq> [] \<and> \<not> seIntervalEnd (last es))"

definition planSetHit :: "Plan \<Rightarrow> string \<Rightarrow> bytes \<Rightarrow> bool" where
  "planSetHit plan name k = list_ex (\<lambda>(t, elems). nsName t = name \<and> intervalHit elems k) (nftClusterSets (plCluster plan))"

definition planMapVal :: "Plan \<Rightarrow> string \<Rightarrow> bytes \<Rightarrow> bytes option" where
  "planMapVal plan name k =
     map_option seVal (find (\<lambda>e. seKey e = k) (concat (map snd (filter (\<lambda>(t, _). nsName t = name) (nftMaps (plSteer plan))))))"

definition le32 :: "32 word \<Rightarrow> bytes" where
  "le32 w = map (\<lambda>k. ucast (drop_bit (8 * k) w)) [0, 1, 2, 3]"

definition vmStatus :: "Packet \<Rightarrow> 32 word" where
  "vmStatus pk = (if pkDnat pk then push_bit 5 1 else 0)"

text \<open>Headers with zeros in the fields no rule reads.\<close>

definition vmHeader :: "Packet \<Rightarrow> PayloadBase \<Rightarrow> bytes" where
  "vmHeader pk base =
     (case base of
        PayloadBaseNetworkHeader \<Rightarrow>
          replicate (case pkFamily pk of FamilyIPv4 \<Rightarrow> 12 | FamilyIPv6 \<Rightarrow> 8) 0 @ wireAddr (pkSrc pk) @ wireAddr (pkDst pk)
      | PayloadBaseTransportHeader \<Rightarrow> be16 (pkSport pk) @ be16 (pkDport pk))"

definition vmFamily :: "8 word \<Rightarrow> Family option" where
  "vmFamily n = (if n = 2 then Some FamilyIPv4 else if n = 10 then Some FamilyIPv6 else None)"

definition vmPut :: "nat \<Rightarrow> bytes \<Rightarrow> Vm \<Rightarrow> Vm" where
  "vmPut n v \<sigma> = \<sigma>\<lparr>vmReg := (vmReg \<sigma>)(n := v)\<rparr>"

definition vmEmit :: "Effect \<Rightarrow> Vm \<Rightarrow> Vm" where
  "vmEmit x \<sigma> = \<sigma>\<lparr>vmEff := vmEff \<sigma> @ [x]\<rparr>"

fun vmEval :: "Plan \<Rightarrow> Expr \<Rightarrow> Vm \<Rightarrow> Vm option" where
  "vmEval plan (ExMeta k False n) \<sigma> = Some (vmPut n (metaOf le32 k (vmPkt \<sigma>)) \<sigma>)"
| "vmEval plan (ExMeta k True n) \<sigma> = (if k = MetaKeyMARK then Some (vmEmit (EffMark (vmReg \<sigma> n)) \<sigma>) else None)"
| "vmEval plan (ExCt k False n) \<sigma> = Some (vmPut n (ctOf le32 vmStatus k (vmPkt \<sigma>)) \<sigma>)"
| "vmEval plan (ExCt k True n) \<sigma> = (if k = CtKeyMARK then Some (vmEmit (EffCtMark (vmReg \<sigma> n)) \<sigma>) else None)"
| "vmEval plan (ExCmp op n data) \<sigma> =
     (if (take (length data) (vmReg \<sigma> n) = data) = (op = CmpOpEq) then Some \<sigma> else None)"
| "vmEval plan (ExRange op n lo hi) \<sigma> =
     (if (lo \<le> take (length lo) (vmReg \<sigma> n) \<and> take (length hi) (vmReg \<sigma> n) \<le> hi) = (op = CmpOpEq) then Some \<sigma> else None)"
| "vmEval plan (ExPayloadLoad n base off len) \<sigma> =
     (if off + len \<le> length (vmHeader (vmPkt \<sigma>) base) then Some (vmPut n (take len (drop off (vmHeader (vmPkt \<sigma>) base))) \<sigma>)
      else None)"
| "vmEval plan (ExPayloadWrite n base off len csum) \<sigma> = Some (vmEmit (EffWrite off len (vmReg \<sigma> n) csum) \<sigma>)"
| "vmEval plan (ExLookup n None name i invert) \<sigma> = (if planSetHit plan name (vmReg \<sigma> n) \<noteq> invert then Some \<sigma> else None)"
| "vmEval plan (ExLookup n (Some m) name i invert) \<sigma> =
     (case planMapVal plan name (vmReg \<sigma> n) of None \<Rightarrow> None | Some v \<Rightarrow> Some (vmPut m v \<sigma>))"
| "vmEval plan (ExBitwise n m len msk flip) \<sigma> =
     Some (vmPut m (map2 (XOR) (map2 (AND) (take len (vmReg \<sigma> n)) msk) flip) \<sigma>)"
| "vmEval plan (ExCounter p b) \<sigma> = Some \<sigma>"
| "vmEval plan (ExImmediate n data) \<sigma> = Some (vmPut n data \<sigma>)"
| "vmEval plan (ExNAT NATTypeDestNAT n a b p q) \<sigma> =
     map_option (\<lambda>f. vmEmit (EffDNAT f (vmReg \<sigma> a) (vmReg \<sigma> p) (vmReg \<sigma> q)) \<sigma>) (vmFamily n)"
| "vmEval plan (ExNAT NATTypeSourceNAT n a b p q) \<sigma> = map_option (\<lambda>f. vmEmit (EffSNAT f (vmReg \<sigma> a)) \<sigma>) (vmFamily n)"
| "vmEval plan ExMasq \<sigma> = Some (vmEmit EffMasq \<sigma>)"
| "vmEval plan _ \<sigma> = None"

lemma le32_inj: "le32 v = le32 w \<longleftrightarrow> v = w"
  using be32_inj [of v w] by (auto simp: le32_def be32_def)

lemma le32_and: "map2 (XOR) (map2 (AND) (le32 v) (le32 w)) (le32 0) = le32 (v AND w)"
  by (simp add: le32_def) (simp add: bit_eq_iff bit_simps)

lemma le32_length: "length (le32 w) = 4"
  by (simp add: le32_def)

lemma vmFamily_number: "vmFamily (familyNumber f) = Some f"
  by (cases f) (simp_all add: vmFamily_def)

lemma vmHeader_fields:
  assumes "netPacket pk"
  shows "headerFields (vmHeader pk) pk"
proof -
  have s: "netAddr (pkSrc pk)" "netAddr (pkDst pk)" "familyOf (pkSrc pk) = pkFamily pk" "familyOf (pkDst pk) = pkFamily pk"
    using assms by (auto simp: netPacket_def pkFamily_def)
  have "length (wireAddr (pkSrc pk)) = (case pkFamily pk of FamilyIPv4 \<Rightarrow> 4 | FamilyIPv6 \<Rightarrow> 16)"
    "length (wireAddr (pkDst pk)) = (case pkFamily pk of FamilyIPv4 \<Rightarrow> 4 | FamilyIPv6 \<Rightarrow> 16)"
    using wireAddr_length [OF s(1)] wireAddr_length [OF s(2)] s(3,4) by simp_all
  then show ?thesis by (cases "pkFamily pk") (simp_all add: headerFields_def vmHeader_def)
qed

interpretation vm: nft_kernel "vmEval plan" vmReg vmPkt vmEff vmPut vmEmit vmHeader le32 vmStatus "planSetHit plan" "planMapVal plan"
  for plan
  by unfold_locales
    (auto simp: vmPut_def vmEmit_def le32_inj le32_and le32_length vmStatus_def bit_simps vmHeader_fields vmFamily_number)


section \<open>Lemmas: the transaction\<close>

lemma addSets_Inr:
  "addSets addSet ms sets0 = Inr (ops, sets) \<Longrightarrow>
     ops = map (\<lambda>(t, elems). AddSet t elems) ms \<and>
     (\<forall>name i. sets name = Some i \<longrightarrow> sets0 name = Some i \<or> (\<exists>(t, elems) \<in> set ms. nsName t = name \<and> addSet t elems = Inr i)) \<and>
     dom sets = dom sets0 \<union> (nsName \<circ> fst) ` set ms"
proof (induction addSet ms sets0 arbitrary: ops rule: addSets.induct)
  case (2 addSet t elems ms sets0)
  then obtain i ops' where i: "addSet t elems = Inr i" "addSets addSet ms (sets0(nsName t \<mapsto> i)) = Inr (ops', sets)"
      "ops = AddSet t elems # ops'"
    by (auto split: sum.splits prod.splits)
  with 2(1) [OF i(1,2)] show ?case by (auto split: if_splits)
qed simp

lemma applyNFT_commits: "\<exists>ops. applyNFT native (\<lambda>t elems. Inr (f t elems)) (\<lambda>_. None) plan = Inr ops"
proof -
  have "\<exists>r. addSets (\<lambda>t elems. Inr (f t elems)) ms sets = Inr r" for ms sets
  proof (induction ms arbitrary: sets)
    case (Cons m ms)
    obtain ops sets' where "addSets (\<lambda>t elems. Inr (f t elems)) ms (sets(nsName (fst m) \<mapsto> f (fst m) (snd m))) = Inr (ops, sets')"
      using Cons by (metis surj_pair)
    then show ?case by (cases m) simp
  qed simp
  then obtain r where "addSets (\<lambda>t elems. Inr (f t elems)) (nftMaps (plSteer plan) @ nftClusterSets (plCluster plan)) Map.empty = Inr r"
    by blast
  then show ?thesis by (cases r) (simp add: applyNFT_def Let_def)
qed

definition lookups :: "Expr list \<Rightarrow> (string \<times> nat) set" where
  "lookups es = {(name, i). \<exists>n m inv'. ExLookup n m name i inv' \<in> set es}"

lemma lookups_simps [simp]:
  "lookups [] = {}" "lookups (xs @ ys) = lookups xs \<union> lookups ys"
  "lookups (ExLookup n m name i inv' # es) = insert (name, i) (lookups es)"
  "(\<nexists>n m name i inv'. e = ExLookup n m name i inv') \<Longrightarrow> lookups (e # es) = lookups es"
  by (auto simp: lookups_def)

text \<open>A rule looks up the cluster set of its family when it leaves the cluster alone, and a steer rule its map.\<close>

lemma lookups_blocks [simp]:
  "lookups (ipCmp a src) = {}" "lookups (portMatch sel src) = {}" "lookups (ctDirExprs d) = {}"
  "lookups (ctStatusDNATExprs native) = {}" "lookups mssExprs = {}" "lookups (dnatExprs to sel p) = {}"
  "lookups (snatIdentityExprs f) = {}" "lookups (markExprs native m) = {}" "lookups (ctSaveExprs native m) = {}"
  "lookups ctLoadExprs = {}" "lookups (steerExprs f m') = {m'}" "lookups (ifnameCmp name neg # es) = lookups es"
  by (simp_all add: ipCmp_def portMatch_def ctDirExprs_def ctStatusDNATExprs_def mssExprs_def dnatExprs_def
      snatIdentityExprs_def markExprs_def ctSaveExprs_def ctLoadExprs_def steerExprs_def ifnameCmp_def Let_def
      split: prod.splits)

lemma lookups_header:
  "lookups (headerMatches sets r) = (if rlDstOutsideCluster r then {lookupSet sets (clusterSet (ruleFam r))} else {})"
  by (simp add: headerMatches_def Let_def split: option.splits prod.splits)

lemma lookups_flow: "lookups (flowMatches native r) = {}"
  by (cases "rlCtDir r") (simp_all add: flowMatches_def)

lemma lookups_statement: "lookups (statement native r) = {}"
  by (cases "rlKind r") (simp_all add: statement_def)

lemma nftExprs_lookups:
  "lookups (nftExprs native sets r) \<subseteq>
     (if rlDstOutsideCluster r then {lookupSet sets (clusterSet (ruleFam r))} else {}) \<union>
     (if rlKind r = KindSteer then {lookupSet sets (steerMap (ruleFam r))} else {})"
  by (simp add: nftExprs_def lookups_header lookups_flow lookups_statement)


lemma Render_rules:
  "set (plRules (Render s)) =
     set (renderDNAT (steerPairs s) {} (stDNAT s)) \<union> exemptRule ` set (stExempt s) \<union> markRule ` set (stMark s) \<union>
     (\<lambda>c. ctSaveRule (csvIface c) (csvMark c)) ` set (stCtSave s) \<union> ctLoadRule ` set (stCtLoad s) \<union>
     egressMarkRule ` set (stEgress s) \<union> (\<Union>g \<in> set (stEgressGateway s). set (gatewayRules g)) \<union>
     (if stLinks s = [] then {} else {(newRule ChainMSS KindMSS)\<lparr>rlOifName := linkWildcard\<rparr>})"
  unfolding Render_def Let_def sortRules_def by auto

lemma renderDNAT_rules:
  "r \<in> set (renderDNAT pairs seen ds) \<Longrightarrow>
     \<exists>d \<in> set ds. r = dnatRule (standIns pairs) d \<or> r \<in> set (countRules d) \<or>
       r = steerRule d \<and> hasPairs pairs (familyOf (dnToAddr d))"
  by (induction pairs seen ds rule: renderDNAT.induct) (auto split: if_splits)

lemma plCluster_Render:
  "plCluster (Render s) = map (\<lambda>f. (f, mergeRanges (stClusterCIDRs s) f))
     (filter (\<lambda>f. f \<in> (\<lambda>e. familyOf (erSrcAddr e)) ` set (stEgress s)) [FamilyIPv4, FamilyIPv6])"
  unfolding Render_def Let_def by (simp add: comp_def)

lemma dnat_rule_shape:
  "r \<in> set (renderDNAT pairs seen ds) \<Longrightarrow> rlChain r \<in> {ChainSteer, ChainPre, ChainCount} \<and> \<not> rlDstOutsideCluster r"
  by (drule renderDNAT_rules) (auto simp: rule_literals)

lemma Render_rule_shape:
  assumes "r \<in> set (plRules (Render s))"
  shows "rlChain r \<in> ncName ` set nftChains \<and> (rlDstOutsideCluster r \<longrightarrow> r \<in> egressMarkRule ` set (stEgress s)) \<and>
    (rlKind r = KindSteer \<longrightarrow> r \<in> set (renderDNAT (steerPairs s) {} (stDNAT s)))"
proof -
  have chains: "ncName ` set nftChains = {ChainSteer, ChainPre, ChainPost, ChainMangle, ChainEgress, ChainMSS, ChainCount}"
    by (simp add: nftChains_def)
  from assms[unfolded Render_rules] show ?thesis unfolding chains
  proof (elim UnE)
    assume "r \<in> set (renderDNAT (steerPairs s) {} (stDNAT s))"
    with dnat_rule_shape [OF this] show "rlChain r \<in> {ChainSteer, ChainPre, ChainPost, ChainMangle, ChainEgress, ChainMSS, ChainCount} \<and>
      (rlDstOutsideCluster r \<longrightarrow> r \<in> egressMarkRule ` set (stEgress s)) \<and>
      (rlKind r = KindSteer \<longrightarrow> r \<in> set (renderDNAT (steerPairs s) {} (stDNAT s)))" by auto
  qed (auto simp: exemptRule_def markRule_def ctSaveRule_def ctLoadRule_def egressMarkRule_def gatewayRules_def split: if_splits)
qed

text \<open>Every rule is in a chain of the table, and what it looks up was added for it.\<close>

lemma Render_chains: "r \<in> set (plRules (Render s)) \<Longrightarrow> \<exists>ch \<in> set nftChains. ncName ch = rlChain r"
  using Render_rule_shape [of r s] by (metis imageE)

lemma Render_outside:
  assumes "r \<in> set (plRules (Render s))" and "rlDstOutsideCluster r"
  shows "\<exists>(t, elems) \<in> set (nftClusterSets (plCluster (Render s))). nsName t = clusterSet (ruleFam r)"
proof -
  obtain e where e: "e \<in> set (stEgress s)" "r = egressMarkRule e" using Render_rule_shape [OF assms(1)] assms(2) by auto
  then have f: "ruleFam r = familyOf (erSrcAddr e)" by (simp add: ruleFam_def ruleFamily_def egressMarkRule_def)
  have "map_of (plCluster (Render s)) (familyOf (erSrcAddr e)) = Some (mergeRanges (stClusterCIDRs s) (familyOf (erSrcAddr e)))"
    using e(1) by (cases "familyOf (erSrcAddr e)") (auto simp: plCluster_Render map_of_map_restrict restrict_map_def intro: rev_image_eqI)
  then show ?thesis unfolding f nftClusterSets_def by (cases "familyOf (erSrcAddr e)") auto
qed

lemma Render_steered:
  assumes "r \<in> set (plRules (Render s))" and "rlKind r = KindSteer"
  shows "\<exists>(t, elems) \<in> set (nftMaps (plSteer (Render s))). nsName t = steerMap (ruleFam r)"
proof -
  have r: "r \<in> set (renderDNAT (steerPairs s) {} (stDNAT s))" using Render_rule_shape [OF assms(1)] assms(2) by blast
  then obtain d where d: "d \<in> set (stDNAT s)" "r = steerRule d" "hasPairs (steerPairs s) (familyOf (dnToAddr d))"
    using renderDNAT_rules [OF r] assms(2) by (auto simp: rule_literals)
  then have f: "ruleFam r = familyOf (dnToAddr d)" "rlMapFamily r = familyOf (dnToAddr d)"
    by (simp_all add: ruleFam_def ruleFamily_def steerRule_def)
  obtain p where p: "p \<in> set (steerPairs s)" "familyOf (srLocal p) = familyOf (dnToAddr d)"
    using d(3) by (auto simp: hasPairs_def list_ex_iff)
  have "familyOf (dnToAddr d) \<in> rlMapFamily ` {r \<in> set (renderDNAT (steerPairs s) {} (stDNAT s)). rlKind r = KindSteer}"
    using r assms(2) f(2) by force
  with p have "p \<in> set (plSteer (Render s))" by (simp add: plSteer_Render)
  then have "filter (\<lambda>q. familyOf (srLocal q) = familyOf (dnToAddr d)) (plSteer (Render s)) \<noteq> []"
    using p(2) by (metis (mono_tags, lifting) filter_empty_conv)
  then show ?thesis unfolding f(1) nftMaps_def by (cases "familyOf (dnToAddr d)") (auto simp: Let_def)
qed

lemma split_at_rule:
  assumes "xs @ map f ys = pre @ z # post" and "z \<notin> set xs"
  shows "set xs \<subseteq> set pre \<and> z \<in> f ` set ys"
proof -
  from assms(1) obtain us where "xs = pre @ us \<and> us @ map f ys = z # post \<or> xs @ us = pre \<and> map f ys = us @ z # post"
    by (auto simp: append_eq_append_conv2)
  then show ?thesis
  proof (elim disjE conjE)
    assume x: "xs = pre @ us" "us @ map f ys = z # post"
    then have "us = []" using assms(2) by (cases us) auto
    with x show ?thesis by (metis append_Nil append_Nil2 list.set_intros(1) set_map subset_refl)
  next
    assume "xs @ us = pre" "map f ys = us @ z # post"
    then show ?thesis by (metis Un_upper1 in_set_conv_decomp set_append set_map)
  qed
qed

section \<open>Properties\<close>

text \<open>
  C18. A rule's expressions implement the rule: on a kernel that evaluates each expression as
  documented, with the addresses where the standard headers have them and the numbers the standards
  give families and protocols, the expressions of every rule but the MSS clamp run through exactly on the
  packets its semantic fields match, and then have exactly the effect of its kind: the translation to the
  target's address and ports, the identity source translation, the mark on the packet or on the
  flow, the masquerade, or the rewrite to the stand-in the family's map holds.
\<close>

theorem exprs_implement_rule:
  assumes "nft_kernel eval reg pkt eff put emit header native status setHit mapVal" and "ruleWf r" and "rlKind r \<noteq> KindMSS"
    and "netPacket (pkt \<sigma>)"
  shows "map_option eff (runs eval (nftExprs native sets r) \<sigma>) =
    map_option ((@) (eff \<sigma>)) (ruleOutcome native setHit mapVal r (pkt \<sigma>))"
  using assms by (rule nft_kernel.rule_runs)

text \<open>
  C19. The transaction that replaces the table is closed: it first removes the table of an older
  release and the present one, and every rule it adds comes after its chain and after every set
  and map its expressions look up, each with the ID the connection gave it. (The kernel refuses
  the whole transaction when a lookup names a set that is not there.)
\<close>

theorem transaction_closed:
  assumes "applyNFT native addSet flush (Render s) = Inr ops"
  shows "take 5 ops = [AddTable legacyTable, DelTable legacyTable, AddTable nftTable, DelTable nftTable, AddTable nftTable] \<and>
    (\<forall>pre c es post. ops = pre @ AddRule c es # post \<longrightarrow>
       (\<exists>ch. AddChain ch \<in> set pre \<and> ncName ch = c) \<and>
       (\<forall>(name, i) \<in> lookups es. \<exists>t elems. AddSet t elems \<in> set pre \<and> nsName t = name \<and> addSet t elems = Inr i))"
proof -
  let ?ms = "nftMaps (plSteer (Render s)) @ nftClusterSets (plCluster (Render s))"
  obtain setOps sets where s: "addSets addSet ?ms Map.empty = Inr (setOps, sets)"
    using assms by (auto simp: applyNFT_def split: sum.splits)
  let ?pre = "delTable legacyTable @ delTable nftTable @ [AddTable nftTable] @ setOps @ map AddChain nftChains"
  have ops: "ops = ?pre @ map (\<lambda>r. AddRule (rlChain r) (nftExprs native sets r)) (plRules (Render s))"
    using assms s by (auto simp: applyNFT_def Let_def split: option.splits)
  note sets = addSets_Inr [OF s]
  have found: "\<exists>t elems. AddSet t elems \<in> set setOps \<and> nsName t = n \<and> addSet t elems = Inr i"
    if "lookupSet sets name = (n, i)" "\<exists>(t, elems) \<in> set ?ms. nsName t = name" for name n i
  proof -
    have "name \<in> dom sets" using sets that(2) by force
    then have "sets n = Some i" "n = name" using that(1) by (auto simp: lookupSet_def)
    then show ?thesis using sets by force
  qed
  have "(\<exists>ch. AddChain ch \<in> set pre \<and> ncName ch = c) \<and>
      (\<forall>(name, i) \<in> lookups es. \<exists>t elems. AddSet t elems \<in> set pre \<and> nsName t = name \<and> addSet t elems = Inr i)"
    if rule: "ops = pre @ AddRule c es # post" for pre c es post
  proof -
    have fresh: "AddRule c es \<notin> set ?pre" using sets by (auto simp: delTable_def)
    obtain r where pre: "set ?pre \<subseteq> set pre" and r: "r \<in> set (plRules (Render s))" "c = rlChain r" "es = nftExprs native sets r"
      using split_at_rule [OF rule [unfolded ops] fresh] by auto
    have "\<exists>t elems. AddSet t elems \<in> set setOps \<and> nsName t = name \<and> addSet t elems = Inr i" if "(name, i) \<in> lookups es" for name i
    proof -
      from that nftExprs_lookups [of native sets r] consider
          "rlDstOutsideCluster r" "lookupSet sets (clusterSet (ruleFam r)) = (name, i)"
        | "rlKind r = KindSteer" "lookupSet sets (steerMap (ruleFam r)) = (name, i)"
        unfolding r(3) by (auto split: if_splits)
      then show ?thesis using found Render_outside [OF r(1)] Render_steered [OF r(1)] by cases force+
    qed
    moreover have "\<exists>ch. AddChain ch \<in> set pre \<and> ncName ch = c" using Render_chains [OF r(1)] pre r(2) by auto
    moreover have "set setOps \<subseteq> set pre" using pre by simp
    ultimately show ?thesis by blast
  qed
  then show ?thesis by (simp add: ops delTable_def)
qed


text \<open>The pinned rule of the example node, on the request of the example.\<close>

definition exRule :: Rule where
  "exRule = dnatRule (\<lambda>_. None) (stDNAT exNodeState ! 1)"

definition exVm :: Vm where
  "exVm = \<lparr>vmReg = (\<lambda>_. []), vmPkt = exRequest, vmEff = []\<rparr>"

lemma exprs_implement_rule_witness:
  "map_option vmEff (runs (vmEval (Render exNodeState)) (nftExprs le32 Map.empty exRule) exVm) =
     Some [EffDNAT FamilyIPv4 [10, 1, 0, 2] [0x1f, 0x90] [0x1f, 0x90]]"
proof -
  have "ruleOutcome le32 (planSetHit (Render exNodeState)) (planMapVal (Render exNodeState)) exRule exRequest =
      Some [EffDNAT FamilyIPv4 [10, 1, 0, 2] [0x1f, 0x90] [0x1f, 0x90]]" by code_simp
  moreover have "ruleWf exRule"
    by (simp add: exRule_def ruleWf_def dnatRule_def pinned_def exNodeState_def ruleFamily_def)
  moreover have "netPacket exRequest" by (simp add: netPacket_def netAddr_def netName_def exRequest_def familyOf_def)
  moreover have "rlKind exRule \<noteq> KindMSS" by (simp add: exRule_def dnatRule_def)
  ultimately show ?thesis
    using exprs_implement_rule [OF vm.nft_kernel_axioms, of exRule exVm "Render exNodeState" Map.empty] by (simp add: exVm_def)
qed

lemma transaction_closed_witness:
  "\<exists>ops. applyNFT le32 (\<lambda>_ elems. Inr (length elems)) (\<lambda>_. None) (Render exNodeState) = Inr ops \<and>
     ops ! 3 = DelTable nftTable"
proof -
  obtain ops where ops: "applyNFT le32 (\<lambda>_ elems. Inr (length elems)) (\<lambda>_. None) (Render exNodeState) = Inr ops"
    using applyNFT_commits [of le32 "\<lambda>_ elems. length elems" "Render exNodeState"] by (elim exE)
  from transaction_closed [OF this] have "take 5 ops ! 3 = DelTable nftTable" by simp
  with ops show ?thesis by simp
qed

end
