(* ===== verification/AgentRun.thy ===== *)
theory AgentRun
  imports Agent AgentServer FakeNetlink NftMatch
begin

text \<open>
  Runs of the agent: passes that may skip an apply, a host that others change in between, and the
  shutdown, down to what the kernel holds afterwards.
\<close>

section \<open>Passes\<close>

text \<open>A datapath together with the list of its applies, each with its State and whether it succeeded.\<close>

definition watched :: "'h Datapath \<Rightarrow> ('h \<times> (State \<times> bool) list) Datapath" where
  "watched dp =
     \<lparr>dpApply = (\<lambda>st (h, log). case dpApply dp st h of (h', e) \<Rightarrow> ((h', log @ [(st, e = None)]), e)),
      dpTeardown = (\<lambda>(h, log). case dpTeardown dp h of (h', e) \<Rightarrow> ((h', log), e))\<rparr>"

inductive passes :: "config \<Rightarrow> 'h Datapath \<Rightarrow> Reconciler \<Rightarrow> 'h \<times> (State \<times> bool) list \<Rightarrow> bool" for cf dp where
  start: "rcApplied r = None \<Longrightarrow> passes cf dp r (h, [])"
| pass: "passes cf dp r h \<Longrightarrow> applyState cf (watched dp) now st r h = (r', h', e) \<Longrightarrow> passes cf dp r' h'"
| drift: "passes cf dp r (h, log) \<Longrightarrow> passes cf dp r (h', log)"

lemma watched_apply:
  "dpApply (watched dp) st h = (h', e) \<Longrightarrow> snd h' = snd h @ [(st, e = None)]"
  by (cases h) (auto simp: watched_def split: prod.splits)

lemma applyState_cases:
  assumes "applyState cf (watched dp) now st r h = (r', h', e)"
  shows "(e = None \<and> r' = r \<and> h' = h \<and> rcApplied r = Some st \<and> now - rcAppliedAt r < repair cf) \<or>
    (e = None \<and> rcApplied r' = Some st \<and> rcAppliedAt r' = now \<and> snd h' = snd h @ [(st, True)]) \<or>
    (e \<noteq> None \<and> rcApplied r' = None \<and> snd h' = snd h @ [(st, False)])"
  using assms watched_apply [of dp st h]
  by (auto simp: applyState_def split: if_splits prod.splits option.splits)

lemma passes_applied: "passes cf dp r h \<Longrightarrow> rcApplied r = Some st \<Longrightarrow> snd h \<noteq> [] \<and> last (snd h) = (st, True)"
proof (induction arbitrary: st rule: passes.induct)
  case (pass r h now s r' h' e)
  then show ?case using applyState_cases [OF pass.hyps(2)] by auto
qed simp_all

text \<open>
  C28. The host's State is the computed one. In every run of passes, whatever others do to the host in
  between, a pass that ends without an error leaves its own State as the last one applied, with
  success, in this pass or less than the repair period ago; a pass after a failed one always applies.
\<close>

theorem state_current:
  assumes "passes cf dp r h" and "applyState cf (watched dp) now st r h = (r', h', e)"
  shows "(e = None \<longrightarrow> snd h' \<noteq> [] \<and> last (snd h') = (st, True) \<and> rcApplied r' = Some st \<and>
      (rcAppliedAt r' = now \<or> now - rcAppliedAt r' < repair cf)) \<and>
    (e \<noteq> None \<longrightarrow> (\<forall>now' st'. \<exists>okay. snd (fst (snd (applyState cf (watched dp) now' st' r' h'))) = snd h' @ [(st', okay)]))"
proof (intro conjI impI allI)
  show "snd h' \<noteq> []" "last (snd h') = (st, True)" "rcApplied r' = Some st" "rcAppliedAt r' = now \<or> now - rcAppliedAt r' < repair cf"
    if "e = None"
    using applyState_cases [OF assms(2)] passes_applied [OF assms(1)] that by auto
  fix now' st'
  assume "e \<noteq> None"
  then have "rcApplied r' = None" using applyState_cases [OF assms(2)] by auto
  moreover obtain r2 h2 e2 where "applyState cf (watched dp) now' st' r' h' = (r2, h2, e2)" by (metis prod_cases3)
  ultimately show "\<exists>okay. snd (fst (snd (applyState cf (watched dp) now' st' r' h'))) = snd h' @ [(st', okay)]"
    using applyState_cases [of cf dp now' st' r' h' r2 h2 e2] by auto
qed

section \<open>Shutdown\<close>

lemma keepState_no_links: "stLinks (keepState inp ds) = []"
proof -
  have "stLinks (emitBlocked F) = []" for F by (auto simp: emitBlocked_def)
  moreover have "sortUnique linkKey [] = []" using sortUnique_subset [of linkKey "[]"] by simp
  ultimately show ?thesis by (simp add: keepState_def Let_def sortState_def)
qed

lemma keepState_routes: "\<forall>r \<in> set (stRoutes (keepState inp ds)). rtBlackhole r"
proof (cases "keptFamilies inp ds = []")
  case False
  have "\<forall>r \<in> set (stRoutes (emitBlocked F)). rtBlackhole r" for F by (auto simp: emitBlocked_def)
  then show ?thesis unfolding keepState_sel(3) [OF False] sortUnique_blocked .
qed (simp add: keepState_def)

lemma Render_sets [simp]:
  "set (plIPRules (Render st)) = set (stRules st)" "set (plRoutes (Render st)) = set (stRoutes st)"
  "set (plLinks (Render st)) = set (stLinks st)"
  by (simp_all add: Render_def Let_def)

lemma Render_egress: "r \<in> set (stEgress st) \<Longrightarrow> egressMarkRule r \<in> set (plRules (Render st))"
  by (simp add: Render_def Let_def sortRules_def)

text \<open>
  C25. Stopping the agent opens no window on the host. After a shutdown that returns no error, for every
  fail-closed pod of the node whose path is not local, by the decisions of the last pass: the committed
  ruleset marks the pod's packets with the blocking mark, the kernel holds the rule that sends this mark
  to the blocked table, in the family of each of the pod's addresses, and in that table a blackhole and
  nothing else.
\<close>

theorem fail_closed_survives_shutdown:
  assumes "netlink_host nl rulesOf routesOf linksOf"
    and "d \<in> set (computeEgresses asSel inp)" and "edOk d" and "p \<in> set (edPods d)" and "xpNode p = inNodeName inp"
    and "xpPath p \<noteq> EgressPathLocal" and "egFailClosed (egSpec (edEg d))" and "(a, path, f) \<in> set (podFamilies inp p)"
    and "rcKeep r = Some (rsKeep (Compute asSel inp))"
    and "shutdown (HostDatapath native addSet flush nl) r h = (h', None)"
  shows "(\<exists>ops. applyNFT native addSet flush (Render (rsKeep (Compute asSel inp))) = Inr ops \<and> hsNft h' = hsNft h @ [ops]) \<and>
    (\<exists>er. egressMarkRule er \<in> set (plRules (Render (rsKeep (Compute asSel inp)))) \<and>
       addrText (erSrcAddr er) = addrText a \<and> erMark er = EgressBlockedMark) \<and>
    (\<exists>x \<in> set (rulesOf (hsNet h') f). realisesRule (egressDivertRule EgressBlockedMark EgressBlockedTable f) x) \<and>
    routesOf (hsNet h') f (uint EgressBlockedTable) \<noteq> [] \<and> (\<forall>x \<in> set (routesOf (hsNet h') f (uint EgressBlockedTable)). noBlackhole x)"
proof -
  let ?keep = "rsKeep (Compute asSel inp)"
  have keep: "?keep = keepState inp (decidePaths inp (newIndex inp) (computeAlloc asSel inp) (resolveEgresses asSel inp (newIndex inp)))"
    by (simp add: Compute_def Let_def computeEgresses_def)
  note blocks = keep_blocks_fail_closed [OF assms(2) [unfolded computeEgresses_def Let_def] assms(3-8), folded keep]
  then obtain er where er: "er \<in> set (stEgress ?keep)" "addrText (erSrcAddr er) = addrText a" "erMark er = EgressBlockedMark" by blast
  then have run: "Apply None native addSet flush nl (Render ?keep) h = (h', None)"
    using assms(9,10) by (auto simp: shutdown_def KeepState_def HostDatapath_def Let_def split: if_splits)
  have "plannedLinks (plLinks (Render ?keep))" by (simp add: Render_def Let_def plannedLinks_def keep keepState_no_links)
  note ok = netlink_host.Apply_settles [OF assms(1) this run]
  have rule: "\<exists>x \<in> set (rulesOf (hsNet h') f). realisesRule (egressDivertRule EgressBlockedMark EgressBlockedTable f) x"
    using ok(2) blocks unfolding rulesSettled_def Render_sets by (fastforce simp: egressDivertRule_def)
  have fam: "routeFamily (blackhole f) = f" "rtTable (blackhole f) = EgressBlockedTable" by (simp_all add: routeFamily_def blackhole_def)
  have "\<forall>r \<in> set (stRoutes ?keep). rtBlackhole r"
    unfolding keep by (rule keepState_routes)
  have routes: "(\<exists>x \<in> set (routesOf (hsNet h') f (uint EgressBlockedTable)). realisesRoute (linksOf (hsNet h')) (blackhole f) x) \<and>
      (\<forall>x \<in> set (routesOf (hsNet h') f (uint EgressBlockedTable)). \<exists>r \<in> set (stRoutes ?keep). realisesRoute (linksOf (hsNet h')) r x)"
    using ok(3) blocks fam unfolding routesSettled_def Render_sets by blast
  then have "routesOf (hsNet h') f (uint EgressBlockedTable) \<noteq> []" by auto
  moreover have "\<forall>x \<in> set (routesOf (hsNet h') f (uint EgressBlockedTable)). noBlackhole x"
    using routes \<open>\<forall>r \<in> set (stRoutes ?keep). rtBlackhole r\<close> unfolding realisesRoute_def by blast
  ultimately show ?thesis using ok(5) rule er Render_egress [OF er(1)] by blast
qed

section \<open>Concrete runs\<close>

definition exConfig :: config where
  "exConfig = \<lparr>cfNodeName = ''c'', cfLinkPort = 0, cfRepair = 0\<rparr>"

definition exDatapath :: "fakeNL Host Datapath" where
  "exDatapath = HostDatapath (\<lambda>_. []) (\<lambda>_ elems. Inr (length elems)) (\<lambda>_. None) fakeConn"

definition exReconciler :: "State option \<Rightarrow> Reconciler" where
  "exReconciler keep = \<lparr>rcApplied = None, rcAppliedAt = 0, rcKeep = keep, rcReady = False, rcSnap = None\<rparr>"

definition exPass :: "Reconciler \<times> (fakeNL Host \<times> (State \<times> bool) list) \<times> NLErr option" where
  "exPass = applyState exConfig (watched exDatapath) 7 emptyState (exReconciler None) (exHost, [])"

theorem state_current_witness:
  "snd (snd exPass) = None \<and> last (snd (fst (snd exPass))) = (emptyState, True)"
proof -
  have ok: "snd (snd exPass) = None" by code_simp
  have "passes exConfig exDatapath (exReconciler None) (exHost, [])" by (rule passes.start) (simp add: exReconciler_def)
  moreover have "applyState exConfig (watched exDatapath) 7 emptyState (exReconciler None) (exHost, []) = (fst exPass, fst (snd exPass), snd (snd exPass))"
    by (simp add: exPass_def)
  ultimately show ?thesis using state_current ok by blast
qed

text \<open>The host kept in lists refuses no call, so a plan without links whose routes are blackholes is applied.\<close>

lemma thenDo_never: "snd (f k) = None \<Longrightarrow> (\<And>k'. snd (g k') = None) \<Longrightarrow> snd (thenDo f g k) = None"
  by (auto simp: thenDo_def split: prod.splits option.splits)

lemma eachDo_never: "(\<And>x k. snd (f x k) = None) \<Longrightarrow> snd (eachDo f xs k) = None"
  by (induction xs arbitrary: k) (simp_all add: eachDo.simps(2) thenDo_never)

lemma onError_never: "snd (f k) = None \<Longrightarrow> snd (onError w f k) = None"
  by (auto simp: onError_def split: prod.splits option.splits)

lemma onNet_never: "snd (f (hsNet h)) = None \<Longrightarrow> snd (onNet f h) = None"
  by (auto simp: onNet_def split: prod.splits)

lemmas never = thenDo_never onError_never onNet_never

lemma fake_links: "snd (applyLinks fakeConn [] k) = None"
proof -
  have "snd ((if hasPrefix linkPrefix (nlName l) \<and> nlName l \<notin> lnName ` set [] then LinkDel fakeConn l else ok) k) = None" for l k
    by (simp add: fakeConn_def ok_def)
  then show ?thesis unfolding applyLinks_def by (simp add: thenDo_def reads_def fakeConn_def eachDo_never)
qed

lemma fake_rules: "snd (applyRules fakeConn rules k) = None"
proof -
  have "snd (applyRulesIn fakeConn rules f k) = None" for f k
    unfolding applyRulesIn_def Let_def by (simp add: fakeConn_def) (intro thenDo_never eachDo_never; simp add: fakeConn_def ok_def onError_def)
  then show ?thesis unfolding applyRules_def by (rule eachDo_never)
qed

lemma fake_routes:
  assumes "\<forall>r \<in> set routes. rtBlackhole r"
  shows "snd (applyRoutes fakeConn routes k) = None"
proof -
  have "\<exists>rs. resolveRoutes fakeConn routes k = Inr rs" using assms by (induction routes) (auto simp: toNLRoute_def)
  moreover have "snd (applyRoutesIn fakeConn desired t f k) = None" for desired t f k
    unfolding applyRoutesIn_def by (simp add: fakeConn_def) (intro thenDo_never eachDo_never; simp add: fakeConn_def ok_def onError_def)
  ultimately show ?thesis unfolding applyRoutes_def reads_def by (auto intro!: eachDo_never)
qed

lemma fake_apply:
  assumes "plLinks plan = []" and "\<forall>r \<in> set (plRoutes plan). rtBlackhole r"
  shows "snd (Apply None native (\<lambda>t elems. Inr (g t elems)) (\<lambda>_. None) fakeConn plan h) = None"
proof -
  obtain ops where "applyNFT native (\<lambda>t elems. Inr (g t elems)) (\<lambda>_. None) plan = Inr ops" using applyNFT_commits by blast
  then show ?thesis unfolding Apply_def assms(1)
    by (simp, intro never) (auto simp: fake_links fake_rules fake_routes assms(2) onNft_def)
qed

definition exKeep :: State where
  "exKeep = rsKeep (Compute exSel (exInputs ''c''))"

definition exStopped :: "fakeNL Host" where
  "exStopped = fst (shutdown exDatapath (exReconciler (Some exKeep)) exHost)"

theorem fail_closed_survives_shutdown_witness:
  "\<exists>x \<in> set (fakeRules (hsNet exStopped) FamilyIPv4). realisesRule (egressDivertRule EgressBlockedMark EgressBlockedTable FamilyIPv4) x"
proof -
  let ?i = "exInputs ''c''"
  let ?d = "computeEgresses exSel ?i ! 0"
  let ?p = "edPods ?d ! 0"
  have l: "length (computeEgresses exSel ?i) = 2" "length (edPods ?d) = 1"
    and f: "edOk ?d" "xpNode ?p = inNodeName ?i" "egFailClosed (egSpec (edEg ?d))" "xpPath ?p \<noteq> EgressPathLocal" "addrIsValid (xpAddr ?p)"
    by code_simp+
  have d: "?d \<in> set (computeEgresses exSel ?i)" and p: "?p \<in> set (edPods ?d)" by (rule nth_mem; simp only: l; simp)+
  have a: "(xpAddr ?p, xpPath ?p, FamilyIPv4) \<in> set (podFamilies ?i ?p)" using f(5) by (simp add: podFamilies_def)
  have "rsKeep (Compute exSel ?i) = keepState ?i (computeEgresses exSel ?i)" by (simp add: Compute_def Let_def)
  then have "plLinks (Render exKeep) = []" "\<forall>r \<in> set (plRoutes (Render exKeep)). rtBlackhole r"
    using keepState_no_links keepState_routes by (simp_all add: exKeep_def Render_def Let_def)
  from fake_apply [OF this] have "snd (dpApply exDatapath exKeep h) = None" for h by (simp add: exDatapath_def HostDatapath_def)
  moreover have "snd (dpTeardown exDatapath exHost) = None" using exTeardown_ok by (simp add: exDatapath_def HostDatapath_def)
  ultimately have "snd (shutdown exDatapath (exReconciler (Some exKeep)) exHost) = None" by (simp add: shutdown_def Let_def KeepState_def exReconciler_def)
  then have run: "shutdown exDatapath (exReconciler (Some exKeep)) exHost = (exStopped, None)" by (simp add: exStopped_def prod_eq_iff)
  have k: "rcKeep (exReconciler (Some exKeep)) = Some (rsKeep (Compute exSel ?i))" by (simp add: exReconciler_def exKeep_def)
  from fail_closed_survives_shutdown [OF fake.netlink_host_axioms d f(1) p f(2,4,3) a k run [unfolded exDatapath_def]] show ?thesis by blast
qed

end
