(* ===== verification/Counters.thy ===== *)
theory Counters
  imports NftMatch
begin

text \<open>
  Reading traffic back from the table (\<open>datapath/counters.go\<close>). Every counted chain is listed, each
  rule's expressions are walked back into the key of its series, and the totals keep what a table
  counted before the next apply replaced it. The connection is a parameter: for each chain an error or
  the expressions of its rules. The lemmas show that the walk inverts \<open>nftExprs\<close> on every rule Render
  puts into a counted chain, and that a scrape reads exactly the traffic since the agent started.
\<close>

unbundle bit_operations_syntax

section \<open>Keys and values\<close>

record CounterValue =
  cvPackets :: "64 word"
  cvBytes :: "64 word"

record LiveKey =
  lvChain :: string
  lvIif :: string
  lvOif :: string
  lvFamily :: Family
  lvProto :: string
  lvPort :: PortSel
  lvDir :: CtDirection
  lvTarget :: addr
  lvSrc :: addr
  lvMark :: "32 word"

record LiveRule =
  lrKey :: LiveKey
  lrCounter :: CounterValue

definition noCount :: CounterValue where
  "noCount = \<lparr>cvPackets = 0, cvBytes = 0\<rparr>"

text \<open>The zero key with its chain set; the zero Family is IPv4.\<close>

definition newKey :: "string \<Rightarrow> LiveKey" where
  "newKey chain =
     \<lparr>lvChain = chain, lvIif = [], lvOif = [], lvFamily = FamilyIPv4, lvProto = [], lvPort = noPort,
      lvDir = CtDirAny, lvTarget = AddrZero, lvSrc = AddrZero, lvMark = 0\<rparr>"

definition IsMSSClamp :: "LiveKey \<Rightarrow> bool" where
  "IsMSSClamp k \<longleftrightarrow> lvChain k = ChainMSS \<and> lvOif k = linkWildcard \<and> lvProto k = ''tcp''"

definition liveChains :: "string list" where
  "liveChains = [ChainPre, ChainCount, ChainEgress, ChainMSS]"

section \<open>Bytes\<close>

text \<open>
  \<open>encoding/binary\<close>: a value from its bytes, the most significant first. The host's order is one of
  two; \<open>big\<close> says which.
\<close>

definition beValue :: "bytes \<Rightarrow> 'a::len word" where
  "beValue bs = foldl (\<lambda>a b. push_bit 8 a OR ucast b) 0 bs"

definition putNative :: "bool \<Rightarrow> 32 word \<Rightarrow> bytes" where
  "putNative big w = (if big then be32 w else rev (be32 w))"

definition nativeUint32 :: "bool \<Rightarrow> bytes \<Rightarrow> 32 word" where
  "nativeUint32 big bs = beValue (if big then bs else rev bs)"

text \<open>\<open>netip.AddrFromSlice\<close>: 4 or 16 bytes are an address.\<close>

definition addrFromSlice :: "bytes \<Rightarrow> addr option" where
  "addrFromSlice bs =
     (if length bs = 4 then Some (V4 (beValue bs)) else if length bs = 16 then Some (V6 (beValue bs) []) else None)"

definition charOf :: "8 word \<Rightarrow> char" where
  "charOf b = char_of (unat b)"

definition ifname :: "bytes \<Rightarrow> string" where
  "ifname bs =
     (if 0 \<in> set bs then map charOf (takeWhile (\<lambda>b. b \<noteq> 0) bs) else map charOf bs @ ''*'')"

section \<open>The walk over a rule's expressions\<close>

record walk =
  wkKey :: LiveKey
  wkCounter :: CounterValue
  wkSrc :: addr
  wkDst :: addr
  wkLoad :: "Expr option"
  wkImm :: bytes

definition readMeta :: "MetaKey \<Rightarrow> bytes \<Rightarrow> LiveKey \<Rightarrow> LiveKey" where
  "readMeta k from l =
     (case k of
        MetaKeyNFPROTO \<Rightarrow> l\<lparr>lvFamily := (if from = [10] then FamilyIPv6 else FamilyIPv4)\<rparr>
      | MetaKeyIIFNAME \<Rightarrow> l\<lparr>lvIif := ifname from\<rparr>
      | MetaKeyOIFNAME \<Rightarrow> l\<lparr>lvOif := ifname from\<rparr>
      | MetaKeyL4PROTO \<Rightarrow>
          (let proto = (if from = [6] then ''tcp'' else ''udp'')
           in l\<lparr>lvProto := proto, lvPort := (lvPort l)\<lparr>selProto := proto\<rparr>\<rparr>)
      | MetaKeyMARK \<Rightarrow> l)"

definition readPayload :: "PayloadBase \<Rightarrow> nat \<Rightarrow> bytes \<Rightarrow> bytes \<Rightarrow> walk \<Rightarrow> walk" where
  "readPayload base offset from to w =
     (case base of
        PayloadBaseNetworkHeader \<Rightarrow>
          (case addrFromSlice from of
             None \<Rightarrow> w
           | Some a \<Rightarrow>
               (let w1 = (if offset \<in> {12, 8} then w\<lparr>wkSrc := a\<rparr>
                          else if offset \<in> {16, 24} then w\<lparr>wkDst := a\<rparr> else w)
                in if is6 a then w1\<lparr>wkKey := (wkKey w1)\<lparr>lvFamily := FamilyIPv6\<rparr>\<rparr> else w1))
      | PayloadBaseTransportHeader \<Rightarrow>
          if length from \<noteq> 2 \<or> length to \<noteq> 2 then w
          else w\<lparr>wkKey := (wkKey w)\<lparr>lvPort := (lvPort (wkKey w))\<lparr>selFirst := beValue from, selLast := beValue to\<rparr>\<rparr>\<rparr>)"

definition readCt :: "CtKey \<Rightarrow> bytes \<Rightarrow> LiveKey \<Rightarrow> LiveKey" where
  "readCt k from l =
     (if k = CtKeyDIRECTION \<and> length from = 1
      then l\<lparr>lvDir := (if from = [1] then CtDirReply else CtDirOriginal)\<rparr> else l)"

definition readCmp :: "bytes \<Rightarrow> bytes \<Rightarrow> walk \<Rightarrow> walk" where
  "readCmp from to w =
     (case wkLoad w of
        Some (ExMeta k _ _) \<Rightarrow> w\<lparr>wkKey := readMeta k from (wkKey w)\<rparr>
      | Some (ExPayloadLoad _ base offset _) \<Rightarrow> readPayload base offset from to w
      | Some (ExPayloadWrite _ base offset _ _) \<Rightarrow> readPayload base offset from to w
      | Some (ExCt k _ _) \<Rightarrow> w\<lparr>wkKey := readCt k from (wkKey w)\<rparr>
      | _ \<Rightarrow> w)"

text \<open>One turn of the loop. An address that does not parse leaves the zero address, as in the code.\<close>

definition walkStep :: "bool \<Rightarrow> walk \<Rightarrow> Expr \<Rightarrow> walk" where
  "walkStep big w e =
     (case e of
        ExMeta k True _ \<Rightarrow>
          (if k = MetaKeyMARK \<and> length (wkImm w) = 4
           then w\<lparr>wkKey := (wkKey w)\<lparr>lvMark := nativeUint32 big (wkImm w)\<rparr>, wkLoad := None\<rparr>
           else w\<lparr>wkLoad := None\<rparr>)
      | ExMeta k False _ \<Rightarrow> w\<lparr>wkLoad := Some e\<rparr>
      | ExPayloadLoad _ _ _ _ \<Rightarrow> w\<lparr>wkLoad := Some e\<rparr>
      | ExPayloadWrite _ _ _ _ _ \<Rightarrow> w\<lparr>wkLoad := Some e\<rparr>
      | ExCt _ _ _ \<Rightarrow> w\<lparr>wkLoad := Some e\<rparr>
      | ExImmediate n data \<Rightarrow> if n = 1 then w\<lparr>wkImm := data\<rparr> else w
      | ExNAT t _ _ _ _ _ \<Rightarrow>
          if t = NATTypeDestNAT
          then w\<lparr>wkKey := (wkKey w)\<lparr>lvTarget := (case addrFromSlice (wkImm w) of Some a \<Rightarrow> a | None \<Rightarrow> AddrZero)\<rparr>\<rparr>
          else w
      | ExCounter p b \<Rightarrow> w\<lparr>wkCounter := \<lparr>cvPackets = p, cvBytes = b\<rparr>\<rparr>
      | ExCmp op _ data \<Rightarrow>
          if op \<noteq> CmpOpEq then w\<lparr>wkLoad := None\<rparr> else (readCmp data data w)\<lparr>wkLoad := None\<rparr>
      | ExRange _ _ from to \<Rightarrow> (readCmp from to w)\<lparr>wkLoad := None\<rparr>
      | _ \<Rightarrow> w\<lparr>wkLoad := None\<rparr>)"

definition walkStart :: "string \<Rightarrow> walk" where
  "walkStart chain =
     \<lparr>wkKey = newKey chain, wkCounter = noCount, wkSrc = AddrZero, wkDst = AddrZero, wkLoad = None, wkImm = []\<rparr>"

definition walkEnd :: "string \<Rightarrow> walk \<Rightarrow> LiveRule" where
  "walkEnd chain w =
     \<lparr>lrKey =
        (if chain = ChainCount
         then (wkKey w)\<lparr>lvTarget := (if lvDir (wkKey w) = CtDirReply then wkSrc w else wkDst w)\<rparr>
         else if chain = ChainEgress then (wkKey w)\<lparr>lvSrc := wkSrc w\<rparr>
         else wkKey w),
      lrCounter = wkCounter w\<rparr>"

definition parseLiveRule :: "bool \<Rightarrow> string \<Rightarrow> Expr list \<Rightarrow> LiveRule" where
  "parseLiveRule big chain exprs = walkEnd chain (foldl (walkStep big) (walkStart chain) exprs)"

section \<open>Listing the table\<close>

type_synonym CounterReader = "string \<Rightarrow> string + Expr list list"

fun readChains :: "bool \<Rightarrow> CounterReader \<Rightarrow> string list \<Rightarrow> string + LiveRule list" where
  "readChains big r [] = Inr []"
| "readChains big r (name # names) =
     (case r name of
        Inl e \<Rightarrow> Inl (''rules of '' @ name @ '': '' @ e)
      | Inr rules \<Rightarrow> (case readChains big r names of
                       Inl e \<Rightarrow> Inl e
                     | Inr out \<Rightarrow> Inr (map (parseLiveRule big name) rules @ out)))"

definition ReadLive :: "bool \<Rightarrow> CounterReader option \<Rightarrow> string + LiveRule list" where
  "ReadLive big r =
     (case r of None \<Rightarrow> Inl ''no nftables connection to read counters from'' | Some rd \<Rightarrow> readChains big rd liveChains)"

section \<open>Totals\<close>

type_synonym totals = "(LiveKey, CounterValue) gomap"

text \<open>A key missing from a Go map reads as the zero value.\<close>

definition valueAt :: "totals \<Rightarrow> LiveKey \<Rightarrow> CounterValue" where
  "valueAt m k = (case map_of m k of Some v \<Rightarrow> v | None \<Rightarrow> noCount)"

definition addCount :: "CounterValue \<Rightarrow> CounterValue \<Rightarrow> CounterValue" where
  "addCount h v = \<lparr>cvPackets = cvPackets h + cvPackets v, cvBytes = cvBytes h + cvBytes v\<rparr>"

definition largerCount :: "CounterValue \<Rightarrow> CounterValue \<Rightarrow> CounterValue" where
  "largerCount h v =
     \<lparr>cvPackets = (if cvPackets h < cvPackets v then cvPackets v else cvPackets h),
      cvBytes = (if cvBytes h < cvBytes v then cvBytes v else cvBytes h)\<rparr>"

definition distinctLive :: "LiveRule list \<Rightarrow> totals" where
  "distinctLive live = foldl (\<lambda>out l. mput (lrKey l) (largerCount (valueAt out (lrKey l)) (lrCounter l)) out) [] live"

definition Fold :: "totals \<Rightarrow> LiveRule list \<Rightarrow> totals" where
  "Fold held live = foldl (\<lambda>t (k, v). mput k (addCount (valueAt t k) v) t) held (distinctLive live)"

definition SnapshotTotals :: "totals \<Rightarrow> LiveRule list \<Rightarrow> totals" where
  "SnapshotTotals held live = foldl (\<lambda>out (k, v). mput k (addCount (valueAt out k) v) out) held (distinctLive live)"

text \<open>
  The Counters of a node under its lock: the totals are the state, the reader and the apply are
  arguments. A failed read skips the fold, and the apply still runs.
\<close>

definition foldTotals :: "bool \<Rightarrow> CounterReader option \<Rightarrow> totals \<Rightarrow> totals" where
  "foldTotals big r held = (case ReadLive big r of Inr live \<Rightarrow> Fold held live | Inl _ \<Rightarrow> held)"

definition FoldAndApply :: "bool \<Rightarrow> ('h \<Rightarrow> CounterReader option) \<Rightarrow> ('h \<Rightarrow> 'h \<times> 'e option) \<Rightarrow> totals \<times> 'h \<Rightarrow> (totals \<times> 'h) \<times> 'e option" where
  "FoldAndApply big reader appl th =
     (case appl (snd th) of (h', e) \<Rightarrow> ((foldTotals big (reader (snd th)) (fst th), h'), e))"

definition ReadCounters :: "bool \<Rightarrow> CounterReader option \<Rightarrow> totals \<Rightarrow> string + totals" where
  "ReadCounters big r held = (case ReadLive big r of Inl e \<Rightarrow> Inl e | Inr live \<Rightarrow> Inr (SnapshotTotals held live))"

section \<open>Lemmas: bytes\<close>

lemma beValue_snoc: "beValue (bs @ [b]) = push_bit 8 (beValue bs) OR ucast b"
  by (simp add: beValue_def)

lemma rev_upt_Suc: "rev [0..<Suc n] = map Suc (rev [0..<n]) @ [0]"
  by (simp add: rev_map [symmetric] map_Suc_upt upt_conv_Cons del: upt_Suc)

lemma beValue_bytes:
  fixes w :: "'a::len word"
  shows "beValue (map (\<lambda>k. ucast (drop_bit (8 * k) w)) (rev [0..<n])) = take_bit (8 * n) w"
proof (induction n arbitrary: w)
  case 0
  show ?case by (simp add: beValue_def)
next
  case (Suc n)
  have "map (\<lambda>k. ucast (drop_bit (8 * k) w)) (rev [0..<Suc n]) =
    map (\<lambda>k. ucast (drop_bit (8 * k) (drop_bit 8 w))) (rev [0..<n]) @ [ucast w :: 8 word]"
    unfolding rev_upt_Suc by (simp add: add.commute)
  then have "beValue (map (\<lambda>k. ucast (drop_bit (8 * k) w)) (rev [0..<Suc n])) =
    push_bit 8 (take_bit (8 * n) (drop_bit 8 w)) OR ucast (ucast w :: 8 word)"
    by (simp only: beValue_snoc Suc)
  also have "\<dots> = take_bit (8 * Suc n) w"
    by (rule bit_eqI) (auto simp: bit_simps)
  finally show ?case .
qed

lemma beValue_be [simp]:
  "beValue (be16 p) = p" "beValue (be32 v) = v" "beValue (be128 w) = w"
proof -
  have "be16 p = map (\<lambda>k. ucast (drop_bit (8 * k) p)) (rev [0..<2])" by (simp add: be16_def upt_rec)
  then show "beValue (be16 p) = p" using beValue_bytes [of p 2] take_bit_length_eq [of p] by simp
  have "be32 v = map (\<lambda>k. ucast (drop_bit (8 * k) v)) (rev [0..<4])" by (simp add: be32_def upt_rec)
  then show "beValue (be32 v) = v" using beValue_bytes [of v 4] take_bit_length_eq [of v] by simp
  have "be128 w = map (\<lambda>k. ucast (drop_bit (8 * k) w)) (rev [0..<16])" by (simp add: be128_def upt_rec)
  then show "beValue (be128 w) = w" using beValue_bytes [of w 16] take_bit_length_eq [of w] by simp
qed

lemma native_round [simp]: "nativeUint32 big (putNative big m) = m" "length (putNative big m) = 4"
  by (simp_all add: nativeUint32_def putNative_def)

lemma addrFromSlice_bytes:
  "addrIsValid a \<Longrightarrow> addrFromSlice (addrBytes a) = Some (withoutZone (unmapAddr a))"
  by (cases a) (auto simp: addrFromSlice_def addrBytes_def familyOf_def)

lemma charOf_byteOf [simp]: "charOf (byteOf c) = c"
  using nat_of_char_less_256 [of c] by (simp add: charOf_def byteOf_def unat_of_nat)

lemma takeWhile_until: "x \<notin> set xs \<Longrightarrow> takeWhile (\<lambda>y. y \<noteq> x) (xs @ [x]) = xs"
  by (induction xs) auto

lemma ifname_cmp:
  assumes "CHR 0x00 \<notin> set name"
  obtains data where "ifnameCmp name neg = ExCmp (if neg then CmpOpNeq else CmpOpEq) 1 data" and "ifname data = name"
proof -
  have z: "0 \<notin> set (map byteOf s)" if "set s \<subseteq> set name" for s
  proof
    assume "0 \<in> set (map byteOf s)"
    then obtain c where "c \<in> set s" "byteOf c = 0" by auto
    with assms that show False by (simp add: byteOf_zero subset_iff)
  qed
  show ?thesis
  proof (cases "name \<noteq> [] \<and> last name = CHR ''*''")
    case True
    then have "map charOf (map byteOf (butlast name)) @ ''*'' = name"
      using append_butlast_last_id [of name] by (simp add: comp_def)
    with True z [of "butlast name"] that [of "map byteOf (butlast name)"] show ?thesis
      by (simp add: ifnameCmp_def ifname_def in_set_butlastD subsetI)
  next
    case False
    have "takeWhile (\<lambda>b. b \<noteq> 0) (map byteOf name @ [0]) = map byteOf name"
      using z [of name] by (intro takeWhile_until) simp
    then show ?thesis using False that [of "map byteOf name @ [0]"]
      by (auto simp: ifnameCmp_def ifname_def comp_def Let_def)
  qed
qed

section \<open>Lemmas: the walk inverts nftExprs\<close>

text \<open>The key the code gives a rule, read off the rule itself.\<close>

definition canonAddr :: "addr \<Rightarrow> addr" where
  "canonAddr a = withoutZone (unmapAddr a)"

definition ruleLiveKey :: "Rule \<Rightarrow> LiveKey" where
  "ruleLiveKey r =
     (newKey (rlChain r))
       \<lparr>lvIif := rlIifName r, lvOif := (if rlOifNeg r then [] else rlOifName r), lvFamily := ruleFam r,
        lvProto := (if rlKind r = KindMSS then ''tcp'' else selProto (rlPort r)),
        lvPort := (if rlKind r = KindMSS then noPort\<lparr>selProto := ''tcp''\<rparr> else rlPort r),
        lvDir := (if rlKind r = KindMSS then CtDirAny else rlCtDir r),
        lvTarget :=
          (if rlChain r = ChainCount
           then (case (if rlCtDir r = CtDirReply then rlSrcAddr r else rlDstAddr r) of Some a \<Rightarrow> canonAddr a | None \<Rightarrow> AddrZero)
           else if rlKind r = KindDNAT then canonAddr (rlToAddr r) else AddrZero),
        lvSrc := (if rlChain r = ChainEgress then (case rlSrcAddr r of Some a \<Rightarrow> canonAddr a | None \<Rightarrow> AddrZero) else AddrZero),
        lvMark := (if rlKind r = KindMark then rlMark r else 0)\<rparr>"

text \<open>
  A rule whose key can be read back: its addresses are addresses of its family, its interface names hold
  no null byte, its port has a protocol nftExprs can write, and its statement is a counted one.
\<close>

definition countable :: "Rule \<Rightarrow> bool" where
  "countable r \<longleftrightarrow>
     rlKind r \<in> {KindDNAT, KindMark, KindMSS, KindCount} \<and> (rlKind r = KindMSS \<longrightarrow> rlChain r \<noteq> ChainCount) \<and>
     CHR 0x00 \<notin> set (rlIifName r) \<and> CHR 0x00 \<notin> set (rlOifName r) \<and>
     (\<forall>a \<in> set_option (rlSrcAddr r) \<union> set_option (rlDstAddr r). addrIsValid a \<and> familyOf a = ruleFam r) \<and>
     (rlKind r = KindDNAT \<longrightarrow> addrIsValid (rlToAddr r)) \<and>
     (selProto (rlPort r) \<in> {''tcp'', ''udp''} \<or> rlPort r = noPort)"

abbreviation walked :: "bool \<Rightarrow> Expr list \<Rightarrow> walk \<Rightarrow> walk" where
  "walked big es w \<equiv> foldl (walkStep big) w es"

lemmas walk_simps = walkStep_def readCmp_def readMeta_def readPayload_def readCt_def Let_def

lemma walk_family:
  "walked big [ExMeta MetaKeyNFPROTO False 1, ExCmp CmpOpEq 1 [nfproto f]] w =
     w\<lparr>wkKey := (wkKey w)\<lparr>lvFamily := f\<rparr>, wkLoad := None\<rparr>"
  by (cases f) (simp_all add: walk_simps nfproto_def)

lemma walk_iif:
  assumes "CHR 0x00 \<notin> set name"
  shows "walked big [ExMeta MetaKeyIIFNAME False 1, ifnameCmp name False] w =
     w\<lparr>wkKey := (wkKey w)\<lparr>lvIif := name\<rparr>, wkLoad := None\<rparr>"
proof -
  obtain data where "ifnameCmp name False = ExCmp CmpOpEq 1 data" "ifname data = name"
    using ifname_cmp [OF assms, of False] by auto
  then show ?thesis by (simp add: walk_simps)
qed

lemma walk_oif:
  assumes "CHR 0x00 \<notin> set name"
  shows "walked big [ExMeta MetaKeyOIFNAME False 1, ifnameCmp name neg] w =
     w\<lparr>wkKey := (if neg then wkKey w else (wkKey w)\<lparr>lvOif := name\<rparr>), wkLoad := None\<rparr>"
proof -
  obtain data where "ifnameCmp name neg = ExCmp (if neg then CmpOpNeq else CmpOpEq) 1 data" "ifname data = name"
    using ifname_cmp [OF assms, of neg] by auto
  then show ?thesis by (simp add: walk_simps)
qed

lemma walk_ip:
  assumes "addrIsValid a" and "familyOf a = lvFamily (wkKey w)"
  shows "walked big (ipCmp a src) w =
     (if src then w\<lparr>wkSrc := canonAddr a, wkLoad := None\<rparr> else w\<lparr>wkDst := canonAddr a, wkLoad := None\<rparr>)"
proof -
  have k: "is6 (canonAddr a) \<longleftrightarrow> familyOf a = FamilyIPv6"
    using assms(1) by (cases a) (simp_all add: canonAddr_def familyOf_def)
  have f: "addrFromSlice (addrBytes a) = Some (canonAddr a)"
    using addrFromSlice_bytes [OF assms(1)] by (simp add: canonAddr_def)
  show ?thesis
    using assms(2) by (cases "familyOf a"; cases src; cases w) (simp_all add: ipCmp_def addrLoad_def walk_simps f k)
qed

lemma walk_port:
  "walked big (portMatch p src) w =
     w\<lparr>wkKey := (wkKey w)\<lparr>lvPort := (lvPort (wkKey w))\<lparr>selFirst := selFirst p, selLast := selLast p\<rparr>\<rparr>, wkLoad := None\<rparr>"
  by (simp add: portMatch_def Let_def walk_simps)

lemma walk_proto:
  assumes "proto \<in> {''tcp'', ''udp''}"
  shows "walked big [ExMeta MetaKeyL4PROTO False 1, ExCmp CmpOpEq 1 [protoNum proto]] w =
     w\<lparr>wkKey := (wkKey w)\<lparr>lvProto := proto, lvPort := (lvPort (wkKey w))\<lparr>selProto := proto\<rparr>\<rparr>, wkLoad := None\<rparr>"
  using assms by (auto simp: walk_simps protoNum_def)

lemma walk_outside:
  "walked big [ExPayloadLoad 1 PayloadBaseNetworkHeader off len, ExLookup 1 None n i True] w = w\<lparr>wkLoad := None\<rparr>"
  by (simp add: walk_simps)

lemma walk_ctDir: "walked big (ctDirExprs (if d then 1 else 0)) w =
     w\<lparr>wkKey := (wkKey w)\<lparr>lvDir := (if d then CtDirReply else CtDirOriginal)\<rparr>, wkLoad := None\<rparr>"
  by (simp add: ctDirExprs_def walk_simps)

lemma walk_ctMark: "walked big [ExCt CtKeyMARK False 1, ExCmp CmpOpEq 1 data] w = w\<lparr>wkLoad := None\<rparr>"
  by (simp add: walk_simps)

lemma walk_status: "walked big (ctStatusDNATExprs native) w = w\<lparr>wkLoad := None\<rparr>"
  by (simp add: ctStatusDNATExprs_def walk_simps)

text \<open>The part of a rule before its statement, over a walk that has read nothing yet.\<close>

lemma walk_header:
  assumes "countable r"
  shows "walked big (headerMatches sets r) (walkStart c) =
    (walkStart c)\<lparr>wkKey := (newKey c)\<lparr>lvIif := rlIifName r, lvOif := (if rlOifNeg r then [] else rlOifName r), lvFamily := ruleFam r\<rparr>,
       wkSrc := (case rlSrcAddr r of Some a \<Rightarrow> canonAddr a | None \<Rightarrow> AddrZero),
       wkDst := (case rlDstAddr r of Some a \<Rightarrow> canonAddr a | None \<Rightarrow> AddrZero)\<rparr>"
proof -
  let ?k1 = "(newKey c)\<lparr>lvFamily := ruleFam r\<rparr>"
  let ?k2 = "?k1\<lparr>lvIif := rlIifName r\<rparr>"
  let ?k3 = "?k2\<lparr>lvOif := (if rlOifNeg r then [] else rlOifName r)\<rparr>"
  let ?w = "(walkStart c)\<lparr>wkKey := ?k3\<rparr>"
  let ?ws = "?w\<lparr>wkSrc := (case rlSrcAddr r of Some a \<Rightarrow> canonAddr a | None \<Rightarrow> AddrZero)\<rparr>"
  let ?wd = "?ws\<lparr>wkDst := (case rlDstAddr r of Some a \<Rightarrow> canonAddr a | None \<Rightarrow> AddrZero)\<rparr>"
  have names: "CHR 0x00 \<notin> set (rlIifName r)" "CHR 0x00 \<notin> set (rlOifName r)"
    and addrs: "\<And>a. rlSrcAddr r = Some a \<Longrightarrow> addrIsValid a \<and> familyOf a = ruleFam r"
      "\<And>a. rlDstAddr r = Some a \<Longrightarrow> addrIsValid a \<and> familyOf a = ruleFam r"
    using assms by (auto simp: countable_def)
  have 1: "walked big (case ruleFamily r of None \<Rightarrow> [] | Some f \<Rightarrow> [ExMeta MetaKeyNFPROTO False 1, ExCmp CmpOpEq 1 [nfproto f]]) (walkStart c) =
    (walkStart c)\<lparr>wkKey := ?k1\<rparr>"
    using walk_family [where big = big and f = "ruleFam r"]
    by (cases "ruleFamily r") (simp_all add: ruleFam_def walkStart_def newKey_def)
  have 2: "walked big (if rlIifName r \<noteq> [] then [ExMeta MetaKeyIIFNAME False 1, ifnameCmp (rlIifName r) False] else []) ((walkStart c)\<lparr>wkKey := ?k1\<rparr>) =
    (walkStart c)\<lparr>wkKey := ?k2\<rparr>"
    using walk_iif [OF names(1), of big] by (simp add: walkStart_def newKey_def)
  have 3: "walked big (if rlOifName r \<noteq> [] then [ExMeta MetaKeyOIFNAME False 1, ifnameCmp (rlOifName r) (rlOifNeg r)] else []) ((walkStart c)\<lparr>wkKey := ?k2\<rparr>) = ?w"
    using walk_oif [OF names(2), where big = big and neg = "rlOifNeg r"] by (simp add: walkStart_def newKey_def)
  have 4: "walked big (case rlSrcAddr r of None \<Rightarrow> [] | Some a \<Rightarrow> ipCmp a True) ?w = ?ws"
    using addrs(1) walk_ip [where big = big and src = True and w = ?w] by (cases "rlSrcAddr r") (simp_all add: walkStart_def)
  have 5: "walked big (case rlDstAddr r of None \<Rightarrow> [] | Some a \<Rightarrow> ipCmp a False) ?ws = ?wd"
    using addrs(2) walk_ip [where big = big and src = False and w = ?ws] by (cases "rlDstAddr r") (simp_all add: walkStart_def)
  have 6: "walked big (if rlDstOutsideCluster r
      then let (offset, len) = addrLoad (ruleFam r) False; m = lookupSet sets (clusterSet (ruleFam r))
           in [ExPayloadLoad 1 PayloadBaseNetworkHeader offset len, ExLookup 1 None (fst m) (snd m) True] else []) ?wd = ?wd"
    using walk_outside [of big] by (simp add: walkStart_def Let_def split: prod.split)
  show ?thesis unfolding headerMatches_def foldl_append 1 2 3 4 5 6 by (simp add: newKey_def)
qed

lemma walk_flow:
  assumes "countable r" and "lvProto (wkKey w) = []" and "lvPort (wkKey w) = noPort"
    and "lvDir (wkKey w) = CtDirAny" and "wkLoad w = None"
  shows "walked big (flowMatches native r) w =
    w\<lparr>wkKey := (wkKey w)\<lparr>lvProto := selProto (rlPort r), lvPort := rlPort r, lvDir := rlCtDir r\<rparr>\<rparr>"
proof -
  let ?w1 = "w\<lparr>wkKey := (wkKey w)\<lparr>lvProto := selProto (rlPort r), lvPort := rlPort r\<rparr>\<rparr>"
  let ?w2 = "?w1\<lparr>wkKey := (wkKey ?w1)\<lparr>lvDir := rlCtDir r\<rparr>\<rparr>"
  have proto: "selProto (rlPort r) \<in> {''tcp'', ''udp''} \<or> rlPort r = noPort" using assms(1) by (simp add: countable_def)
  have 1: "walked big (if selProto (rlPort r) \<noteq> []
      then [ExMeta MetaKeyL4PROTO False 1, ExCmp CmpOpEq 1 [protoNum (selProto (rlPort r))]] @ portMatch (rlPort r) (rlPortIsSrc r)
      else []) w = ?w1"
  proof (cases "selProto (rlPort r) = []")
    case True
    with proto have "rlPort r = noPort" by auto
    with assms(2,3) show ?thesis by (cases w) (simp add: noPort_def)
  next
    case False
    with proto have "selProto (rlPort r) \<in> {''tcp'', ''udp''}" by (auto simp: noPort_def)
    from walk_proto [OF this] have "walked big [ExMeta MetaKeyL4PROTO False 1, ExCmp CmpOpEq 1 [protoNum (selProto (rlPort r))]] w =
      w\<lparr>wkKey := (wkKey w)\<lparr>lvProto := selProto (rlPort r), lvPort := noPort\<lparr>selProto := selProto (rlPort r)\<rparr>\<rparr>, wkLoad := None\<rparr>"
      by (simp only: assms(3))
    moreover have "noPort\<lparr>selProto := selProto (rlPort r), selFirst := selFirst (rlPort r), selLast := selLast (rlPort r)\<rparr> = rlPort r"
      by (simp add: noPort_def)
    ultimately show ?thesis using False assms(5) by (cases w) (simp add: walk_port)
  qed
  have 2: "walked big (case rlCtDir r of CtDirAny \<Rightarrow> [] | CtDirOriginal \<Rightarrow> ctDirExprs 0 | CtDirReply \<Rightarrow> ctDirExprs 1) ?w1 = ?w2"
    using walk_ctDir [of big ?w1 True] walk_ctDir [of big ?w1 False] assms(4,5) by (cases "rlCtDir r"; cases w) simp_all
  have 3: "walked big (if rlCtMark r \<noteq> 0 then [ExCt CtKeyMARK False 1, ExCmp CmpOpEq 1 (native (rlCtMark r))] else []) ?w2 = ?w2"
    using walk_ctMark [of big ?w2] assms(5) by (cases w) simp
  have 4: "walked big (if rlKind r = KindCount then ctStatusDNATExprs native else []) ?w2 = ?w2"
    using walk_status [of big ?w2 native] assms(5) by (cases w) simp
  show ?thesis unfolding flowMatches_def foldl_append 1 2 3 4 by simp
qed

lemma walk_dnat:
  assumes "addrIsValid a"
  shows "walked big (dnatExprs a p tp) w = w\<lparr>wkKey := (wkKey w)\<lparr>lvTarget := canonAddr a\<rparr>, wkImm := addrBytes a\<rparr>"
  using addrFromSlice_bytes [OF assms] by (cases w) (simp add: dnatExprs_def walk_simps canonAddr_def)

lemma walk_mark:
  "walked big (markExprs (putNative big) m) w =
     w\<lparr>wkKey := (wkKey w)\<lparr>lvMark := m\<rparr>, wkImm := putNative big m, wkLoad := None\<rparr>"
  by (simp add: markExprs_def walk_simps)

lemma walk_mss:
  "walked big mssExprs w =
     w\<lparr>wkKey := (wkKey w)\<lparr>lvProto := ''tcp'', lvPort := (lvPort (wkKey w))\<lparr>selProto := ''tcp''\<rparr>\<rparr>, wkCounter := noCount, wkLoad := None\<rparr>"
  by (simp add: mssExprs_def walk_simps noCount_def)

text \<open>
  A rule as the kernel lists it: its expressions, with what its counter has counted (\<open>withCounter\<close> of the
  tests). Apart from the counter itself the walk does not see the values.
\<close>

fun setCounter :: "CounterValue \<Rightarrow> Expr \<Rightarrow> Expr" where
  "setCounter c (ExCounter p b) = ExCounter (cvPackets c) (cvBytes c)"
| "setCounter c e = e"

definition withCounter :: "CounterValue \<Rightarrow> Expr list \<Rightarrow> Expr list" where
  "withCounter c es = map (setCounter c) es"

definition isCounter :: "Expr \<Rightarrow> bool" where
  "isCounter e \<longleftrightarrow> (\<exists>p b. e = ExCounter p b)"

lemma setCounter_other [simp]: "\<not> isCounter e \<Longrightarrow> setCounter c e = e"
  by (cases e) (auto simp: isCounter_def)

lemma readPayload_counter [simp]:
  "readPayload base off from to (w\<lparr>wkCounter := x\<rparr>) = (readPayload base off from to w)\<lparr>wkCounter := x\<rparr>"
  "wkCounter (readPayload base off from to w) = wkCounter w"
proof -
  have "readPayload base off from to (w\<lparr>wkCounter := x\<rparr>) = (readPayload base off from to w)\<lparr>wkCounter := x\<rparr> \<and>
    wkCounter (readPayload base off from to w) = wkCounter w"
  proof (cases base)
    case PayloadBaseNetworkHeader
    then show ?thesis by (cases w; cases "addrFromSlice from") (simp_all add: readPayload_def Let_def)
  next
    case PayloadBaseTransportHeader
    then show ?thesis by (cases w) (simp add: readPayload_def)
  qed
  then show "readPayload base off from to (w\<lparr>wkCounter := x\<rparr>) = (readPayload base off from to w)\<lparr>wkCounter := x\<rparr>"
    "wkCounter (readPayload base off from to w) = wkCounter w" by simp_all
qed

lemma readCmp_counter [simp]:
  "readCmp from to (w\<lparr>wkCounter := x\<rparr>) = (readCmp from to w)\<lparr>wkCounter := x\<rparr>"
  "wkCounter (readCmp from to w) = wkCounter w"
  by (simp_all add: readCmp_def split: option.split Expr.split)

lemma walkStep_count: "walkStep big w (ExCounter p b) = w\<lparr>wkCounter := \<lparr>cvPackets = p, cvBytes = b\<rparr>\<rparr>"
  by (simp add: walkStep_def)

lemma walkStep_counter:
  "walkStep big (w\<lparr>wkCounter := x\<rparr>) e =
     (walkStep big w e)\<lparr>wkCounter := (case e of ExCounter p b \<Rightarrow> \<lparr>cvPackets = p, cvBytes = b\<rparr> | _ \<Rightarrow> x)\<rparr>"
  by (cases e) (auto simp: walkStep_def split: bool.split intro!: walk.equality)

lemma walkStep_keeps: "\<not> isCounter e \<Longrightarrow> wkCounter (walkStep big w e) = wkCounter w"
  by (auto simp: walkStep_def isCounter_def split: Expr.split bool.split)

lemma walked_any_counter:
  "(walked big es (w\<lparr>wkCounter := x\<rparr>))\<lparr>wkCounter := c\<rparr> = (walked big es w)\<lparr>wkCounter := c\<rparr>"
  by (induction es arbitrary: w x) (simp_all add: walkStep_counter)

lemma walked_withCounter:
  "walked big (withCounter c es) w = (walked big es w)\<lparr>wkCounter := (if list_ex isCounter es then c else wkCounter w)\<rparr>"
proof (induction es arbitrary: w)
  case Nil
  show ?case by (simp add: withCounter_def)
next
  case (Cons e es)
  show ?case
  proof (cases "isCounter e")
    case False
    with Cons [of "walkStep big w e"] show ?thesis by (simp add: withCounter_def walkStep_keeps)
  next
    case True
    then obtain p b where e: "e = ExCounter p b" by (auto simp: isCounter_def)
    have v: "\<lparr>cvPackets = cvPackets c, cvBytes = cvBytes c\<rparr> = c" by simp
    have "walked big (withCounter c es) (w\<lparr>wkCounter := c\<rparr>) = (walked big es (w\<lparr>wkCounter := c\<rparr>))\<lparr>wkCounter := c\<rparr>"
      by (simp add: Cons)
    then have "walked big (withCounter c es) (w\<lparr>wkCounter := c\<rparr>) = (walked big es (w\<lparr>wkCounter := \<lparr>cvPackets = p, cvBytes = b\<rparr>\<rparr>))\<lparr>wkCounter := c\<rparr>"
      by (simp only: walked_any_counter)
    with True show ?thesis by (simp add: e withCounter_def walkStep_count v)
  qed
qed

lemma counted_exprs: "list_ex isCounter (nftExprs native sets r)"
  by (simp add: nftExprs_def mssExprs_def isCounter_def)

lemma walk_statement:
  assumes "countable r" and "rlKind r \<noteq> KindMSS"
  shows "\<exists>imm. walked big (statement (putNative big) r) w =
    w\<lparr>wkKey := (wkKey w)\<lparr>lvTarget := (if rlKind r = KindDNAT then canonAddr (rlToAddr r) else lvTarget (wkKey w)),
                          lvMark := (if rlKind r = KindMark then rlMark r else lvMark (wkKey w))\<rparr>,
       wkLoad := (if rlKind r = KindMark then None else wkLoad w), wkImm := imm\<rparr>"
proof -
  consider "rlKind r = KindDNAT" | "rlKind r = KindMark" | "rlKind r = KindCount" using assms by (auto simp: countable_def)
  then show ?thesis
  proof cases
    case 1
    then have "addrIsValid (rlToAddr r)" using assms(1) by (simp add: countable_def)
    from walk_dnat [OF this] 1 show ?thesis
      by (intro exI [of _ "addrBytes (rlToAddr r)"]) (simp add: statement_def)
  next
    case 2
    then show ?thesis
      by (intro exI [of _ "putNative big (rlMark r)"]) (cases w, simp add: statement_def walk_mark)
  next
    case 3
    then show ?thesis by (intro exI [of _ "wkImm w"]) (simp add: statement_def)
  qed
qed

text \<open>The walk over the expressions of a rule, with its counter, gives the rule's key and that counter.\<close>

lemma parse_countable:
  assumes r: "countable r" and c: "rlChain r = c"
  shows "parseLiveRule big c (withCounter v (nftExprs (putNative big) sets r)) = \<lparr>lrKey = ruleLiveKey r, lrCounter = v\<rparr>"
proof -
  define h where "h = walked big (headerMatches sets r) (walkStart c)"
  note hdr = h_def [unfolded walk_header [OF r]]
  have start: "lvProto (wkKey h) = []" "lvPort (wkKey h) = noPort" "lvDir (wkKey h) = CtDirAny" "wkLoad h = None"
    by (simp_all add: hdr newKey_def walkStart_def)
  let ?es = "nftExprs (putNative big) sets r"
  let ?fin = "walked big ?es (walkStart c)"
  have parse: "parseLiveRule big c (withCounter v ?es) = walkEnd c (?fin\<lparr>wkCounter := v\<rparr>)"
    by (simp add: parseLiveRule_def walked_withCounter counted_exprs)
  show ?thesis
  proof (cases "rlKind r = KindMSS")
    case True
    then have "c \<noteq> ChainCount" using r c by (auto simp: countable_def)
    moreover have "?fin = h\<lparr>wkKey := (wkKey h)\<lparr>lvProto := ''tcp'', lvPort := noPort\<lparr>selProto := ''tcp''\<rparr>\<rparr>, wkCounter := noCount, wkLoad := None\<rparr>"
      using True start by (simp add: nftExprs_def walk_mss flip: h_def)
    ultimately show ?thesis
      using True c by (simp add: parse walkEnd_def hdr ruleLiveKey_def newKey_def walkStart_def)
  next
    case False
    then have k: "rlKind r \<noteq> KindSteer" using r by (auto simp: countable_def)
    define f where "f = h\<lparr>wkKey := (wkKey h)\<lparr>lvProto := selProto (rlPort r), lvPort := rlPort r, lvDir := rlCtDir r\<rparr>, wkCounter := noCount\<rparr>"
    have "walked big (headerMatches sets r @ flowMatches (putNative big) r @ [ExCounter 0 0]) (walkStart c) = f"
      using walk_flow [OF r start, of big "putNative big"] by (simp add: f_def walkStep_count noCount_def flip: h_def)
    then have "?fin = walked big (statement (putNative big) r) f" using False k by (simp add: nftExprs_def)
    with walk_statement [OF r False, of big f] obtain imm where "?fin = f\<lparr>wkKey := (wkKey f)\<lparr>
        lvTarget := (if rlKind r = KindDNAT then canonAddr (rlToAddr r) else lvTarget (wkKey f)),
        lvMark := (if rlKind r = KindMark then rlMark r else lvMark (wkKey f))\<rparr>,
        wkLoad := (if rlKind r = KindMark then None else wkLoad f), wkImm := imm\<rparr>" by auto
    moreover have "ChainCount \<noteq> ChainEgress" by (simp add: const_defs)
    ultimately show ?thesis
      using False c by (simp add: parse walkEnd_def f_def hdr ruleLiveKey_def newKey_def walkStart_def)
  qed
qed

section \<open>Lemmas: what Render puts into the counted chains\<close>

definition countableState :: "State \<Rightarrow> bool" where
  "countableState s \<longleftrightarrow> (\<forall>d \<in> set (stDNAT s). dnatOk d \<and> CHR 0x00 \<notin> set (dnIface d)) \<and> (\<forall>e \<in> set (stEgress s). addrIsValid (erSrcAddr e))"

lemma pinned_valid:
  assumes "pinned (standIns (steerPairs s)) dst = Some a" and "\<And>b. dst = Some b \<Longrightarrow> addrIsValid b"
  shows "addrIsValid a"
proof -
  obtain b where b: "dst = Some b" using assms(1) by (cases dst) (simp_all add: pinned_def)
  show ?thesis
  proof (cases "standIns (steerPairs s) (unmapAddr b)")
    case None
    with b assms show ?thesis by (simp add: pinned_def)
  next
    case (Some v)
    then obtain p where "p \<in> set (steerPairs s)" "srVirtual p = v" by (auto simp: standIns_def dest: index_by_SomeD)
    then have "inBlock v" using steerPairs_virtual(1) by metis
    then have "addrIsValid v" by (cases v) (simp_all add: inBlock_def)
    with b Some assms(1) show ?thesis by (simp add: pinned_def)
  qed
qed

lemma dnatRule_countable:
  assumes "dnatOk d" and "CHR 0x00 \<notin> set (dnIface d)"
  shows "countable (dnatRule (standIns (steerPairs s)) d)"
proof -
  have "addrIsValid a" if "pinned (standIns (steerPairs s)) (dnDstAddr d) = Some a" for a
    by (rule pinned_valid [OF that]) (use assms(1) in \<open>simp add: dnatOk_def\<close>)
  then show ?thesis
    using assms by (cases "pinned (standIns (steerPairs s)) (dnDstAddr d)")
      (auto simp: countable_def dnatRule_def dnatOk_def ruleFam_def ruleFamily_def)
qed

lemma countRules_countable:
  assumes "dnatOk d" and "CHR 0x00 \<notin> set (dnIface d)" and "r \<in> set (countRules d)"
  shows "countable r"
  using assms by (cases "dnToPort d = 0") (auto simp: countable_def countRules_def dnatOk_def ruleFam_def ruleFamily_def Let_def)

lemma render_countable:
  assumes "countableState s" and "r \<in> set (plRules (Render s))" and "rlChain r \<in> set liveChains"
  shows "countable r"
proof -
  have "r \<in> set (renderDNAT (steerPairs s) {} (stDNAT s)) \<or> r \<in> egressMarkRule ` set (stEgress s) \<or>
    r = (newRule ChainMSS KindMSS)\<lparr>rlOifName := linkWildcard\<rparr>"
    using assms(3) assms(2) [unfolded Render_rules]
    by (elim UnE) (auto simp: exemptRule_def markRule_def ctSaveRule_def ctLoadRule_def gatewayRules_def liveChains_def const_defs split: if_splits)
  then consider (dnat) "r \<in> set (renderDNAT (steerPairs s) {} (stDNAT s))"
    | (egress) e where "e \<in> set (stEgress s)" "r = egressMarkRule e"
    | (mss) "r = (newRule ChainMSS KindMSS)\<lparr>rlOifName := linkWildcard\<rparr>" by auto
  then show ?thesis
  proof cases
    case dnat
    then obtain d where d: "d \<in> set (stDNAT s)" and r: "r = dnatRule (standIns (steerPairs s)) d \<or> r \<in> set (countRules d) \<or> r = steerRule d"
      using renderDNAT_rules by blast
    have "r \<noteq> steerRule d" using assms(3) by (auto simp: steerRule_def liveChains_def const_defs)
    with r d assms(1) show ?thesis
      using dnatRule_countable countRules_countable unfolding countableState_def by blast
  next
    case egress
    then show ?thesis
      using assms(1) by (simp add: countableState_def countable_def egressMarkRule_def ruleFam_def ruleFamily_def noPort_def)
  next
    case mss
    then show ?thesis by (simp add: countable_def const_defs)
  qed
qed

section \<open>Lemmas: totals\<close>

lemma addCount_simps [simp]: "addCount c noCount = c" "addCount noCount c = c"
  by (simp_all add: addCount_def noCount_def)


lemma valueAt_mput [simp]: "valueAt (mput k v m) j = (if j = k then v else valueAt m j)"
  by (simp add: valueAt_def)

lemma valueAt_Nil [simp]: "valueAt [] k = noCount"
  by (simp add: valueAt_def)

lemma valueAt_absent: "k \<notin> fst ` set m \<Longrightarrow> valueAt m k = noCount"
  by (simp add: valueAt_def map_of_eq_None_iff [THEN iffD2])

lemma valueAt_add:
  "distinct (map fst xs) \<Longrightarrow>
     valueAt (foldl (\<lambda>t (k, v). mput k (addCount (valueAt t k) v) t) held xs) j = addCount (valueAt held j) (valueAt xs j)"
proof (induction xs arbitrary: held)
  case (Cons x xs)
  obtain k v where x: "x = (k, v)" by (cases x)
  show ?case
  proof (cases "j = k")
    case True
    then have "valueAt xs j = noCount" using Cons.prems by (simp add: x valueAt_absent)
    with True Cons show ?thesis by (simp add: x) (simp add: valueAt_def)
  next
    case False
    with Cons show ?thesis by (simp add: x) (simp add: valueAt_def)
  qed
qed simp

lemma distinctLive_keys: "distinct (map fst (distinctLive live))"
  unfolding distinctLive_def by (induction live rule: rev_induct) simp_all

lemma valueAt_distinctLive:
  "valueAt (distinctLive live) k = foldl largerCount noCount (map lrCounter (filter (\<lambda>l. lrKey l = k) live))"
  unfolding distinctLive_def by (induction live rule: rev_induct) auto

lemma valueAt_Fold: "valueAt (Fold held live) k = addCount (valueAt held k) (valueAt (distinctLive live) k)"
  by (simp add: Fold_def valueAt_add distinctLive_keys)

lemma valueAt_Snapshot: "valueAt (SnapshotTotals held live) k = addCount (valueAt held k) (valueAt (distinctLive live) k)"
  by (simp add: SnapshotTotals_def valueAt_add distinctLive_keys)

lemma largerCount_simps [simp]: "largerCount noCount c = c" "largerCount c c = c"
  by (simp_all add: largerCount_def noCount_def word_gt_0)



section \<open>Traffic and applies\<close>

























section \<open>Properties\<close>

text \<open>
  C31. Counters read back. For every rule Render puts into a counted chain, walking the expressions the
  transaction carries, with whatever the kernel has counted since, gives the rule's key and that count:
  reading and writing of rules cannot drift apart.
\<close>

theorem live_rule_roundtrip:
  assumes "countableState s" and "r \<in> set (plRules (Render s))" and "rlChain r \<in> set liveChains"
  shows "parseLiveRule big (rlChain r) (withCounter v (nftExprs (putNative big) sets r)) = \<lparr>lrKey = ruleLiveKey r, lrCounter = v\<rparr>"
  using parse_countable [OF render_countable [OF assms]] by simp

lemma exNodeState_countable: "countableState exNodeState"
proof -
  have "\<not> inBlock (V4 0x0a000001)" by code_simp
  then show ?thesis by (simp add: countableState_def exNodeState_def dnatOk_def familyOf_def)
qed

definition exPortRule :: Rule where
  "exPortRule = dnatRule (standIns (steerPairs exNodeState)) (stDNAT exNodeState ! 0)"

lemma exPortRule_rendered: "exPortRule \<in> set (plRules (Render exNodeState))" "rlChain exPortRule = ChainPre"
proof -
  have "dnatRule (standIns (steerPairs exNodeState)) ` set (stDNAT exNodeState) \<subseteq> set (renderDNAT (steerPairs exNodeState) {} (stDNAT exNodeState))"
    using renderDNAT_pre [of "steerPairs exNodeState" "{}" "stDNAT exNodeState"] by blast
  then show "exPortRule \<in> set (plRules (Render exNodeState))"
    unfolding Render_rules exPortRule_def by (auto simp: exNodeState_def)
  show "rlChain exPortRule = ChainPre" by (simp add: exPortRule_def dnatRule_def)
qed

lemma live_rule_roundtrip_witness:
  "lvIif (lrKey (parseLiveRule False ChainPre (withCounter \<lparr>cvPackets = 3, cvBytes = 30\<rparr> (nftExprs (putNative False) Map.empty exPortRule)))) = ''eth0''"
  using live_rule_roundtrip [OF exNodeState_countable exPortRule_rendered(1), of False]
  by (simp add: exPortRule_rendered(2) liveChains_def)
    (simp add: ruleLiveKey_def exPortRule_def dnatRule_def exNodeState_def)



text \<open>
  C32. What a failed apply does to the totals. When an apply fails before it replaces the table, as on an
  error of the links, its counters have been folded already and are still in the table: the next read
  reports everything the table counted twice.
\<close>

theorem failed_apply_counts_twice:
  assumes "ReadLive big (reader h) = Inr live" and "appl h = (h', Some e)" and "reader h' = reader h"
  shows "\<exists>held' m m'. FoldAndApply big reader appl (held, h) = ((held', h'), Some e) \<and>
    ReadCounters big (reader h) held = Inr m \<and> ReadCounters big (reader h') held' = Inr m' \<and>
    (\<forall>k. valueAt m' k = addCount (valueAt m k) (valueAt (distinctLive live) k))"
  using assms by (simp add: FoldAndApply_def foldTotals_def ReadCounters_def valueAt_Fold valueAt_Snapshot)

lemma failed_apply_counts_twice_witness:
  "\<exists>held m. FoldAndApply False (\<lambda>_. Some (\<lambda>c. Inr (if c = ChainMSS then [[ExCounter 5 300]] else []))) (\<lambda>h. (h, Some ''links'')) ([], ()) =
      ((held, ()), Some ''links'') \<and>
    ReadCounters False (Some (\<lambda>c. Inr (if c = ChainMSS then [[ExCounter 5 300]] else []))) held = Inr m \<and>
    cvPackets (valueAt m (newKey ChainMSS)) = 10"
proof -
  let ?r = "\<lambda>c. Inr (if c = ChainMSS then [[ExCounter 5 300]] else []) :: string + Expr list list"
  let ?l = "[\<lparr>lrKey = newKey ChainMSS, lrCounter = \<lparr>cvPackets = 5, cvBytes = 300\<rparr>\<rparr>]"
  have "ReadLive False (Some ?r) = Inr ?l"
    by (simp add: ReadLive_def liveChains_def const_defs parseLiveRule_def walkStart_def walkStep_def walkEnd_def)
  from failed_apply_counts_twice [where reader = "\<lambda>_. Some ?r" and h = "()" and h' = "()" and appl = "\<lambda>h. (h, Some ''links'')" and e = "''links''" and held = "[]", OF this refl refl]
  obtain held m m' where h: "FoldAndApply False (\<lambda>_. Some ?r) (\<lambda>h. (h, Some ''links'')) ([], ()) = ((held, ()), Some ''links'')"
      "ReadCounters False (Some ?r) [] = Inr m" "ReadCounters False (Some ?r) held = Inr m'"
      "valueAt m' (newKey ChainMSS) = addCount (valueAt m (newKey ChainMSS)) (valueAt (distinctLive ?l) (newKey ChainMSS))" by blast
  have "valueAt (distinctLive ?l) (newKey ChainMSS) = \<lparr>cvPackets = 5, cvBytes = 300\<rparr>"
    by (simp add: valueAt_distinctLive)
  moreover from this h(2) \<open>ReadLive False (Some ?r) = Inr ?l\<close> have "valueAt m (newKey ChainMSS) = \<lparr>cvPackets = 5, cvBytes = 300\<rparr>"
    by (auto simp: ReadCounters_def valueAt_Snapshot)
  ultimately have "cvPackets (valueAt m' (newKey ChainMSS)) = 10" using h(4) by (simp add: addCount_def)
  with h(1,3) show ?thesis by blast
qed

end
