(* ===== verification/Conntrack.thy ===== *)
theory Conntrack
  imports Compute Counters
begin

text \<open>
  Open flows (\<open>datapath/conntrack.go\<close>): which DNAT rule made each entry of the node's conntrack table.
  An entry is the fields the code reads of netlink's \<open>ConntrackFlow\<close>; its addresses are byte slices
  that may be no address. The dump itself is a parameter.
\<close>

section \<open>Counting\<close>

record ConntrackFlow =
  flOrigDst :: bytes
  flProtocol :: "8 word"
  flDstPort :: "16 word"
  flReplySrc :: bytes

text \<open>A candidate: the key of a rule, and the destination it pins, the zero address when none.\<close>

record cand =
  cdKey :: DNATKey
  cdDst :: addr

definition protoName :: "8 word \<Rightarrow> string" where
  "protoName p = (if p = 6 then ''tcp'' else if p = 17 then ''udp'' else [])"

definition candOf :: "DNATRule \<Rightarrow> cand" where
  "candOf d = \<lparr>cdKey = KeyOf d, cdDst = (case dnDstAddr d of Some a \<Rightarrow> unmapAddr a | None \<Rightarrow> AddrZero)\<rparr>"

definition byTarget :: "DNATRule list \<Rightarrow> addr \<Rightarrow> cand list" where
  "byTarget dnat = foldl (\<lambda>m d. m(dkTarget (KeyOf d) := m (dkTarget (KeyOf d)) @ [candOf d])) (\<lambda>_. []) dnat"

text \<open>One turn of the loop over the candidates; the pair is what \<open>pinned\<close> and \<open>open\<close> point at.\<close>

definition pickStep ::
  "string \<Rightarrow> 16 word \<Rightarrow> addr \<Rightarrow> DNATKey option \<times> DNATKey option \<Rightarrow> cand \<Rightarrow> DNATKey option \<times> DNATKey option" where
  "pickStep proto port origDst po c =
     (let k = cdKey c
      in if dkProto k \<noteq> proto \<or> port < dkFirst k \<or> dkLast k < port then po
         else if addrIsValid (cdDst c) \<and> cdDst c = origDst \<and> fst po = None then (Some k, snd po)
         else if \<not> addrIsValid (cdDst c) \<and> snd po = None then (fst po, Some k)
         else po)"

definition flowKey :: "(addr \<Rightarrow> cand list) \<Rightarrow> ConntrackFlow \<Rightarrow> DNATKey option" where
  "flowKey targets f =
     (case (addrFromSlice (flReplySrc f), addrFromSlice (flOrigDst f)) of
        (Some rs, Some od) \<Rightarrow>
          (let replySrc = unmapAddr rs; origDst = unmapAddr od
           in if replySrc = origDst \<or> targets replySrc = [] then None
              else (case foldl (pickStep (protoName (flProtocol f)) (flDstPort f) origDst) (None, None) (targets replySrc) of
                      (Some k, _) \<Rightarrow> Some k
                    | (None, Some k) \<Rightarrow> Some k
                    | (None, None) \<Rightarrow> None))
      | _ \<Rightarrow> None)"

definition bump :: "(DNATKey, nat) gomap \<Rightarrow> DNATKey \<Rightarrow> (DNATKey, nat) gomap" where
  "bump out k = mput k ((case map_of out k of Some n \<Rightarrow> n | None \<Rightarrow> 0) + 1) out"

definition CountFlows :: "ConntrackFlow list \<Rightarrow> DNATRule list \<Rightarrow> (DNATKey, nat) gomap" where
  "CountFlows flows dnat =
     foldl (\<lambda>out f. case flowKey (byTarget dnat) f of Some k \<Rightarrow> bump out k | None \<Rightarrow> out) [] flows"

section \<open>Dumping\<close>

text \<open>
  \<open>list\<close> lists one family, and the second call comes only after the first succeeded. The select of
  \<open>DumpFlows\<close> takes the dump's answer or the end of its context, whichever comes first; \<open>timedOut\<close> says
  the context ended first.
\<close>

definition HostConntrack :: "(nat \<Rightarrow> string + ConntrackFlow list) \<Rightarrow> string + ConntrackFlow list" where
  "HostConntrack list =
     (case list 2 of
        Inl e \<Rightarrow> Inl (''conntrack family 2: '' @ e)
      | Inr f4 \<Rightarrow> (case list 10 of Inl e \<Rightarrow> Inl (''conntrack family 10: '' @ e) | Inr f6 \<Rightarrow> Inr (f4 @ f6)))"

definition ErrDumpTimeout :: string where
  "ErrDumpTimeout = ''conntrack dump ran past 5s''"

definition DumpFlows :: "bool \<Rightarrow> string + ConntrackFlow list \<Rightarrow> string + ConntrackFlow list" where
  "DumpFlows timedOut dump = (if timedOut then Inl ErrDumpTimeout else dump)"

section \<open>Lemmas\<close>

text \<open>
  What the comment of \<open>CountFlows\<close> promises: the first rule that pins the flow's original destination,
  else the first rule that pins none.
\<close>

definition selects :: "ConntrackFlow \<Rightarrow> DNATRule \<Rightarrow> bool" where
  "selects f d \<longleftrightarrow> selProto (dnPort d) = protoName (flProtocol f) \<and>
     selFirst (dnPort d) \<le> flDstPort f \<and> flDstPort f \<le> selLast (dnPort d)"

definition flowOwner :: "DNATRule list \<Rightarrow> ConntrackFlow \<Rightarrow> DNATRule option" where
  "flowOwner dnat f =
     (case (map_option unmapAddr (addrFromSlice (flReplySrc f)), map_option unmapAddr (addrFromSlice (flOrigDst f))) of
        (Some rs, Some od) \<Rightarrow>
          (if rs = od then None
           else let made = filter (\<lambda>d. unmapAddr (dnToAddr d) = rs \<and> selects f d) dnat
                in case find (\<lambda>d. map_option unmapAddr (dnDstAddr d) = Some od) made of
                     Some d \<Rightarrow> Some d
                   | None \<Rightarrow> find (\<lambda>d. dnDstAddr d = None) made)
      | _ \<Rightarrow> None)"

lemma byTarget_filter: "byTarget dnat a = map candOf (filter (\<lambda>d. unmapAddr (dnToAddr d) = a) dnat)"
  unfolding byTarget_def by (induction dnat rule: rev_induct) (auto simp: KeyOf_def)

lemma pickStep_cand:
  "pickStep (protoName (flProtocol f)) (flDstPort f) od po (candOf d) =
     (if \<not> selects f d then po
      else if addrIsValid (cdDst (candOf d)) \<and> cdDst (candOf d) = od \<and> fst po = None then (Some (KeyOf d), snd po)
      else if \<not> addrIsValid (cdDst (candOf d)) \<and> snd po = None then (fst po, Some (KeyOf d)) else po)"
  by (auto simp: pickStep_def selects_def candOf_def KeyOf_def Let_def not_less not_le)

lemma fold_pick:
  "foldl (pickStep (protoName (flProtocol f)) (flDstPort f) od) po (map candOf ds) =
     ((case fst po of Some k \<Rightarrow> Some k
       | None \<Rightarrow> map_option KeyOf (find (\<lambda>d. selects f d \<and> addrIsValid (cdDst (candOf d)) \<and> cdDst (candOf d) = od) ds)),
      (case snd po of Some k \<Rightarrow> Some k
       | None \<Rightarrow> map_option KeyOf (find (\<lambda>d. selects f d \<and> \<not> addrIsValid (cdDst (candOf d))) ds)))"
proof (induction ds arbitrary: po)
  case (Cons d ds)
  obtain p q where po: "po = (p, q)" by (cases po)
  show ?case
    using Cons by (cases p; cases q) (auto simp: po pickStep_cand)
qed (cases po; auto split: option.split)

lemma addrFromSlice_valid: "addrFromSlice bs = Some a \<Longrightarrow> addrIsValid a"
  by (auto simp: addrFromSlice_def split: if_splits)

lemma find_filter: "find P (filter Q xs) = find (\<lambda>x. Q x \<and> P x) xs"
  by (induction xs) auto

lemma flowKey_owner:
  assumes "\<And>d a. d \<in> set dnat \<Longrightarrow> dnDstAddr d = Some a \<Longrightarrow> addrIsValid a"
  shows "flowKey (byTarget dnat) f = map_option KeyOf (flowOwner dnat f)"
proof (cases "addrFromSlice (flReplySrc f)")
  case None
  then show ?thesis by (simp add: flowKey_def flowOwner_def)
next
  case rs: (Some rs)
  show ?thesis
  proof (cases "addrFromSlice (flOrigDst f)")
    case None
    then show ?thesis by (simp add: rs flowKey_def flowOwner_def)
  next
    case od: (Some od)
    let ?ds = "filter (\<lambda>d. unmapAddr (dnToAddr d) = unmapAddr rs) dnat"
    have valid: "addrIsValid (unmapAddr od)" using addrFromSlice_valid [OF od] by simp
    have pin: "(addrIsValid (cdDst (candOf d)) \<and> cdDst (candOf d) = unmapAddr od) \<longleftrightarrow> map_option unmapAddr (dnDstAddr d) = Some (unmapAddr od)"
      and opn: "\<not> addrIsValid (cdDst (candOf d)) \<longleftrightarrow> dnDstAddr d = None" if "d \<in> set dnat" for d
      using valid assms [OF that] by (cases "dnDstAddr d"; auto simp: candOf_def)+
    have "find (\<lambda>d. selects f d \<and> addrIsValid (cdDst (candOf d)) \<and> cdDst (candOf d) = unmapAddr od) ?ds =
        find (\<lambda>d. map_option unmapAddr (dnDstAddr d) = Some (unmapAddr od)) (filter (\<lambda>d. unmapAddr (dnToAddr d) = unmapAddr rs \<and> selects f d) dnat)"
      "find (\<lambda>d. selects f d \<and> \<not> addrIsValid (cdDst (candOf d))) ?ds =
        find (\<lambda>d. dnDstAddr d = None) (filter (\<lambda>d. unmapAddr (dnToAddr d) = unmapAddr rs \<and> selects f d) dnat)"
      unfolding find_filter by (intro find_cong; use pin opn in auto)+
    then show ?thesis
      by (cases "?ds = []") (auto simp: rs od flowKey_def flowOwner_def byTarget_filter fold_pick Let_def split: option.split)
  qed
qed

lemma CountFlows_counts:
  "(case map_of (CountFlows flows dnat) k of Some n \<Rightarrow> n | None \<Rightarrow> 0) =
     length (filter (\<lambda>f. flowKey (byTarget dnat) f = Some k) flows)"
  unfolding CountFlows_def by (induction flows rule: rev_induct) (auto simp: bump_def split: option.splits)

lemma CountFlows_keys: "map_of (CountFlows flows dnat) k \<noteq> None \<longleftrightarrow> (\<exists>f \<in> set flows. flowKey (byTarget dnat) f = Some k)"
  unfolding CountFlows_def by (induction flows rule: rev_induct) (auto simp: bump_def split: option.splits)

lemma CountFlows_distinct: "distinct (map fst (CountFlows flows dnat))"
  unfolding CountFlows_def by (induction flows rule: rev_induct) (auto simp: bump_def split: option.splits)

text \<open>
  C33. The number of open flows of a key is the number of conntrack entries that belong to a rule with
  that key, where an entry belongs to the first rule that selects it and pins its original destination, and
  otherwise to the first that selects it and pins none; no entry is counted twice.
\<close>

theorem flows_belong_to_their_rule:
  assumes "\<forall>d \<in> set dnat. \<forall>a. dnDstAddr d = Some a \<longrightarrow> addrIsValid a"
  shows "(case map_of (CountFlows flows dnat) k of Some n \<Rightarrow> n | None \<Rightarrow> 0) =
      length (filter (\<lambda>f. map_option KeyOf (flowOwner dnat f) = Some k) flows) \<and>
    sum_list (map snd (CountFlows flows dnat)) = length (filter (\<lambda>f. flowOwner dnat f \<noteq> None) flows)"
proof -
  have o: "flowKey (byTarget dnat) f = map_option KeyOf (flowOwner dnat f)" for f
    using assms by (intro flowKey_owner) blast
  have "sum_list (map snd (bump m k)) = Suc (sum_list (map snd m))" for m k
    by (induction m) (auto simp: bump_def)
  then have "sum_list (map snd (CountFlows flows dnat)) = length (filter (\<lambda>f. flowKey (byTarget dnat) f \<noteq> None) flows)"
    unfolding CountFlows_def by (induction flows rule: rev_induct) (auto split: option.splits)
  then show ?thesis by (simp add: CountFlows_counts o)
qed

definition exFlows :: "ConntrackFlow list" where
  "exFlows =
     [\<lparr>flOrigDst = [10, 0, 0, 1], flProtocol = 6, flDstPort = 80, flReplySrc = [10, 1, 0, 2]\<rparr>,
      \<lparr>flOrigDst = [192, 0, 2, 1], flProtocol = 6, flDstPort = 80, flReplySrc = [10, 1, 0, 2]\<rparr>,
      \<lparr>flOrigDst = [192, 0, 2, 1], flProtocol = 17, flDstPort = 80, flReplySrc = [10, 1, 0, 2]\<rparr>]"

lemma flows_belong_to_their_rule_witness:
  "(case map_of (CountFlows exFlows (stDNAT exNodeState)) (KeyOf (stDNAT exNodeState ! 1)) of Some n \<Rightarrow> n | None \<Rightarrow> 0) = 1 \<and>
   sum_list (map snd (CountFlows exFlows (stDNAT exNodeState))) = 2"
proof -
  have valid: "\<forall>d \<in> set (stDNAT exNodeState). \<forall>a. dnDstAddr d = Some a \<longrightarrow> addrIsValid a"
    by (simp add: exNodeState_def)
  have "length (filter (\<lambda>f. map_option KeyOf (flowOwner (stDNAT exNodeState) f) = Some (KeyOf (stDNAT exNodeState ! 1))) exFlows) = 1"
    "length (filter (\<lambda>f. flowOwner (stDNAT exNodeState) f \<noteq> None) exFlows) = 2" by code_simp+
  then show ?thesis using flows_belong_to_their_rule [OF valid, of exFlows "KeyOf (stDNAT exNodeState ! 1)"] by simp
qed

end
