(* ===== verification/Collector.thy ===== *)
theory Collector
  imports Conntrack Agent
begin

text \<open>
  The collector behind \<open>/metrics\<close> (\<open>metrics/collector.go\<close>) and the agent side it reads
  (\<open>agent/metrics.go\<close>). A scrape sends metrics on a channel; here it is the list of what was sent.
  The client library's \<open>MustNewConstMetric\<close> is the parameter \<open>build\<close>, whose \<^term>\<open>None\<close> is its panic. Values are \<open>float64\<close>: every
  value here is a sum of whole numbers, and \<open>f64\<close> rounds such a sum the way the hardware does.
\<close>

section \<open>Descriptors\<close>

datatype Desc =
  descMappingInfo | descPackets | descBytes | descConnections | descOpenFlows
| descEgressPackets | descEgressBytes | descMSS | descLinkInfo

fun descLabels :: "Desc \<Rightarrow> string list" where
  "descLabels descMappingInfo = [''namespace'', ''portmap'', ''class'', ''mode'', ''protocol'', ''port'', ''endpoint_node'']"
| "descLabels descPackets = [''namespace'', ''portmap'', ''interface'', ''family'', ''role'', ''direction'']"
| "descLabels descBytes = [''namespace'', ''portmap'', ''interface'', ''family'', ''role'', ''direction'']"
| "descLabels descConnections = [''namespace'', ''portmap'', ''interface'', ''family'', ''role'']"
| "descLabels descOpenFlows = [''namespace'', ''portmap'', ''role'']"
| "descLabels descEgressPackets = [''namespace'', ''egress'', ''pod'', ''family'', ''path'']"
| "descLabels descEgressBytes = [''namespace'', ''egress'', ''pod'', ''family'', ''path'']"
| "descLabels descMSS = []"
| "descLabels descLinkInfo = [''device'', ''slot'', ''class'', ''peer'']"

definition Describe :: "Desc list" where
  "Describe = [descMappingInfo, descPackets, descBytes, descConnections, descOpenFlows, descEgressPackets, descEgressBytes, descMSS, descLinkInfo]"

datatype ValueType = CounterType | GaugeType

record Metric =
  meDesc :: Desc
  meType :: ValueType
  meValue :: nat
  meLabels :: "string list"

type_synonym builder = "Desc \<Rightarrow> ValueType \<Rightarrow> nat \<Rightarrow> string list \<Rightarrow> Metric option"

fun sendAll :: "Metric option list \<Rightarrow> Metric list option" where
  "sendAll [] = Some []"
| "sendAll (None # ms) = None"
| "sendAll (Some m # ms) = (case sendAll ms of None \<Rightarrow> None | Some out \<Rightarrow> Some (m # out))"

section \<open>Whole numbers as float64\<close>

text \<open>
  A whole number keeps 53 significant bits; the rest rounds to the nearest, ties to even. Sums of the
  64-bit counters stay far below the largest float64.
\<close>

fun dropped :: "nat \<Rightarrow> nat" where
  "dropped n = (if n < 2 ^ 53 then 0 else Suc (dropped (n div 2)))"

declare dropped.simps [simp del]

definition f64 :: "nat \<Rightarrow> nat" where
  "f64 n =
     (let k = dropped n; q = n div 2 ^ k; r = n mod 2 ^ k
      in if k = 0 then n
         else if 2 ^ (k - 1) < r \<or> r = 2 ^ (k - 1) \<and> odd q then (q + 1) * 2 ^ k else q * 2 ^ k)"

section \<open>Series\<close>

text \<open>
  A label set and the value summed into it. The code keeps the labels in an array of eight with their
  number, so that a series can key a map; \<open>newSeries\<close> copies at most eight.
\<close>

record series =
  seDesc :: Desc
  seLabels :: "string list"

definition newSeries :: "Desc \<Rightarrow> string list \<Rightarrow> series" where
  "newSeries d labels = \<lparr>seDesc = d, seLabels = take 8 labels\<rparr>"

type_synonym sums = "(series, nat) gomap"

definition sumAt :: "sums \<Rightarrow> series \<Rightarrow> nat" where
  "sumAt m s = (case map_of m s of Some v \<Rightarrow> v | None \<Rightarrow> 0)"

definition addTo :: "series \<Rightarrow> nat \<Rightarrow> sums \<Rightarrow> sums" where
  "addTo s x m = mput s (f64 (sumAt m s + f64 x)) m"

definition role :: "string \<Rightarrow> string" where
  "role iface = (if take 4 iface = ''kup-'' then ''deliver'' else ''accept'')"

definition family :: "Family \<Rightarrow> string" where
  "family f = (if f = FamilyIPv6 then ''ipv6'' else ''ipv4'')"

section \<open>Counters\<close>

definition addOwner :: "Owner \<Rightarrow> Owner list \<Rightarrow> Owner list" where
  "addOwner o' os = (if o' \<in> set os then os else os @ [o'])"

definition translatedKey :: "DNATRule \<Rightarrow> DNATKey" where
  "translatedKey d = (if dnToPort d \<noteq> 0 then (KeyOf d)\<lparr>dkFirst := dnToPort d, dkLast := dnToPort d\<rparr> else KeyOf d)"

definition countOwnerIndex :: "Snapshot \<Rightarrow> DNATKey \<Rightarrow> Owner list" where
  "countOwnerIndex snap =
     foldl (\<lambda>out d. case map_of (mxDNAT (snIndex snap)) (KeyOf d) of
        None \<Rightarrow> out | Some o' \<Rightarrow> out(translatedKey d := addOwner o' (out (translatedKey d)))) (\<lambda>_. []) (snDNAT snap)"

definition dnatKeyOf :: "string \<Rightarrow> LiveKey \<Rightarrow> DNATKey" where
  "dnatKeyOf iface k =
     \<lparr>dkIface = iface, dkProto = lvProto k, dkFirst = selFirst (lvPort k), dkLast = selLast (lvPort k), dkTarget = unmapAddr (lvTarget k)\<rparr>"

definition countIface :: "LiveKey \<Rightarrow> string" where
  "countIface k = (if lvDir k = CtDirReply then lvOif k else lvIif k)"

definition countDir :: "LiveKey \<Rightarrow> string" where
  "countDir k = (if lvDir k = CtDirReply then ''reply'' else ''request'')"

text \<open>What one counter adds, as pairs of a series and a value, in the order of the code.\<close>

definition countAdds :: "(DNATKey \<Rightarrow> Owner list) \<Rightarrow> LiveKey \<Rightarrow> CounterValue \<Rightarrow> (series \<times> nat) list" where
  "countAdds owners k v =
     (let iface = countIface k;
          labels = (\<lambda>o'. [owNamespace o', owName o', iface, family (lvFamily k), role iface, countDir k])
      in concat (map (\<lambda>o'. [(newSeries descPackets (labels o'), unat (cvPackets v)), (newSeries descBytes (labels o'), unat (cvBytes v))])
           (owners (dnatKeyOf iface k))))"

definition preAdds :: "MetricsIndex \<Rightarrow> LiveKey \<Rightarrow> CounterValue \<Rightarrow> (series \<times> nat) list" where
  "preAdds idx k v =
     (case map_of (mxDNAT idx) (dnatKeyOf (lvIif k) k) of
        None \<Rightarrow> []
      | Some o' \<Rightarrow> [(newSeries descConnections [owNamespace o', owName o', lvIif k, family (lvFamily k), role (lvIif k)], unat (cvPackets v))])"

definition egressAdds :: "MetricsIndex \<Rightarrow> LiveKey \<Rightarrow> CounterValue \<Rightarrow> (series \<times> nat) list" where
  "egressAdds idx k v =
     (case map_of (mxEgress idx) (lvSrc k) of
        None \<Rightarrow> []
      | Some o' \<Rightarrow>
          (let labels = [eoNamespace o', eoEgress o', eoPod o', family (lvFamily k),
                         if lvMark k = EgressBlockedMark then ''blocked'' else ''link'']
           in [(newSeries descEgressPackets labels, unat (cvPackets v)), (newSeries descEgressBytes labels, unat (cvBytes v))]))"

definition counterAdds :: "Snapshot \<Rightarrow> LiveKey \<Rightarrow> CounterValue \<Rightarrow> (series \<times> nat) list" where
  "counterAdds snap k v =
     (if lvChain k = ChainCount then countAdds (countOwnerIndex snap) k v
      else if lvChain k = ChainPre then preAdds (snIndex snap) k v
      else if lvChain k = ChainEgress then egressAdds (snIndex snap) k v
      else [])"

definition addAll :: "(series \<times> nat) list \<Rightarrow> sums \<Rightarrow> sums" where
  "addAll adds m = foldl (\<lambda>m (s, x). addTo s x m) m adds"

definition seriesSums :: "Snapshot \<Rightarrow> totals \<Rightarrow> sums" where
  "seriesSums snap counters = foldl (\<lambda>m (k, v). addAll (counterAdds snap k v) m) [] counters"

definition mssSum :: "totals \<Rightarrow> nat" where
  "mssSum counters =
     foldl (\<lambda>mss (k, v). if lvChain k = ChainMSS \<and> IsMSSClamp k then f64 (mss + f64 (unat (cvPackets v))) else mss) 0 counters"

definition collectCounters :: "builder \<Rightarrow> Snapshot \<Rightarrow> totals \<Rightarrow> Metric option list" where
  "collectCounters build snap counters =
     map (\<lambda>(s, v). build (seDesc s) CounterType v (seLabels s)) (seriesSums snap counters)
     @ [build descMSS CounterType (mssSum counters) []]"

section \<open>Open flows\<close>

definition flowSums :: "Snapshot \<Rightarrow> (DNATKey, nat) gomap \<Rightarrow> sums" where
  "flowSums snap counted =
     (let series = (\<lambda>k o'. newSeries descOpenFlows [owNamespace o', owName o', role (dkIface k)]);
          sums = foldl (\<lambda>m (k, n). case map_of (mxDNAT (snIndex snap)) k of None \<Rightarrow> m | Some o' \<Rightarrow> addTo (series k o') n m) [] counted
      in foldl (\<lambda>m (k, o'). if map_of m (series k o') = None then mput (series k o') 0 m else m) sums (mxDNAT (snIndex snap)))"

text \<open>The result is what was sent, and how many dump errors the scrape counted.\<close>

definition collectOpenFlows :: "builder \<Rightarrow> Snapshot \<Rightarrow> string + ConntrackFlow list \<Rightarrow> Metric option list \<times> nat" where
  "collectOpenFlows build snap dump =
     (if snDNAT snap = [] then ([], 0)
      else (case dump of
              Inl _ \<Rightarrow> ([], 1)
            | Inr flows \<Rightarrow>
                (map (\<lambda>(s, v). build (seDesc s) GaugeType v (seLabels s)) (flowSums snap (CountFlows flows (snDNAT snap))), 0)))"

section \<open>The agent's side\<close>

text \<open>
  The production datapath with its counters (\<open>HostDatapath\<close> of \<open>agent/shutdown.go\<close>): every apply folds the
  live counters first, a teardown does not. \<open>reader\<close> lists the rules of the table a host has.
\<close>

definition countedDatapath :: "bool \<Rightarrow> ('h \<Rightarrow> CounterReader option) \<Rightarrow> 'h Datapath \<Rightarrow> (totals \<times> 'h) Datapath" where
  "countedDatapath big reader dp =
     \<lparr>dpApply = (\<lambda>st. FoldAndApply big reader (dpApply dp st)),
      dpTeardown = (\<lambda>(held, h). case dpTeardown dp h of (h', e) \<Rightarrow> ((held, h'), e))\<rparr>"

section \<open>The scrape\<close>

definition emptySnapshot :: Snapshot where
  "emptySnapshot = \<lparr>snIndex = \<lparr>mxDNAT = [], mxEgress = [], mxMappings = []\<rparr>, snDNAT = [], snLinks = []\<rparr>"

definition snapshotOf :: "Reconciler \<Rightarrow> Snapshot" where
  "snapshotOf r = (case rcSnap r of Some s \<Rightarrow> s | None \<Rightarrow> emptySnapshot)"

definition agentCounters :: "bool \<Rightarrow> (CounterReader option \<times> totals) option \<Rightarrow> string + totals" where
  "agentCounters big totals =
     (case totals of None \<Rightarrow> Inl ''no counters configured'' | Some (r, held) \<Rightarrow> ReadCounters big r held)"

definition agentFlows :: "bool \<Rightarrow> (string + ConntrackFlow list) option \<Rightarrow> string + ConntrackFlow list" where
  "agentFlows timedOut conntrack =
     (case conntrack of None \<Rightarrow> Inl ''no conntrack reader configured'' | Some dump \<Rightarrow> DumpFlows timedOut dump)"

definition Collect :: "builder \<Rightarrow> Snapshot \<Rightarrow> string + totals \<Rightarrow> string + ConntrackFlow list \<Rightarrow> Metric list option \<times> nat" where
  "Collect build snap counters dump =
     (let infos = map (\<lambda>m. build descMappingInfo GaugeType 1
                [miNamespace m, miName m, miClass m, miMode m, miProtocol m, miPort m, miEndpointNode m]) (mxMappings (snIndex snap));
          links = map (\<lambda>l. build descLinkInfo GaugeType 1 [liDevice l, liSlot l, liClass l, liPeer l]) (snLinks snap);
          traffic = (case counters of Inr cs \<Rightarrow> collectCounters build snap cs | Inl _ \<Rightarrow> []);
          (flows, errs) = collectOpenFlows build snap dump
      in (sendAll (infos @ links @ traffic @ flows), errs))"

section \<open>The client library\<close>

text \<open>
  UTF-8 as \<open>unicode/utf8\<close> decides it: no overlong form, no surrogate, nothing above U+10FFFF.
\<close>

definition contByte :: "nat \<Rightarrow> bool" where
  "contByte b \<longleftrightarrow> 0x80 \<le> b \<and> b \<le> 0xBF"

fun validBytes :: "nat list \<Rightarrow> bool" where
  "validBytes [] \<longleftrightarrow> True"
| "validBytes (a # bs) \<longleftrightarrow>
     (if a < 0x80 then validBytes bs
      else if 0xC2 \<le> a \<and> a \<le> 0xDF then (case bs of b # cs \<Rightarrow> contByte b \<and> validBytes cs | _ \<Rightarrow> False)
      else if 0xE0 \<le> a \<and> a \<le> 0xEF then
        (case bs of
           b # c # cs \<Rightarrow> contByte b \<and> (a = 0xE0 \<longrightarrow> 0xA0 \<le> b) \<and> (a = 0xED \<longrightarrow> b \<le> 0x9F) \<and> contByte c \<and> validBytes cs
         | _ \<Rightarrow> False)
      else if 0xF0 \<le> a \<and> a \<le> 0xF4 then
        (case bs of
           b # c # d # cs \<Rightarrow> contByte b \<and> (a = 0xF0 \<longrightarrow> 0x90 \<le> b) \<and> (a = 0xF4 \<longrightarrow> b \<le> 0x8F) \<and> contByte c \<and> contByte d \<and> validBytes cs
         | _ \<Rightarrow> False)
      else False)"

definition utf8 :: "string \<Rightarrow> bool" where
  "utf8 s \<longleftrightarrow> validBytes (map of_char s)"

text \<open>
  What \<open>client_golang\<close> documents of a constant metric: the metric has the descriptor, value and labels of the call,
  and the call panics only when the number of labels is not the descriptor's or a label is not UTF-8.
\<close>

definition constMetrics :: "builder \<Rightarrow> bool" where
  "constMetrics build \<longleftrightarrow>
     (\<forall>d t v labels m. build d t v labels = Some m \<longrightarrow> m = \<lparr>meDesc = d, meType = t, meValue = v, meLabels = labels\<rparr>)"

definition acceptsLabels :: "builder \<Rightarrow> bool" where
  "acceptsLabels build \<longleftrightarrow>
     (\<forall>d t v labels. length labels = length (descLabels d) \<longrightarrow> list_all utf8 labels \<longrightarrow> build d t v labels \<noteq> None)"

text \<open>The texts a scrape takes labels from are UTF-8, as every string of a Kubernetes object is.\<close>

definition utf8Snapshot :: "Snapshot \<Rightarrow> bool" where
  "utf8Snapshot snap \<longleftrightarrow>
     (\<forall>(k, o') \<in> set (mxDNAT (snIndex snap)). utf8 (dkIface k) \<and> utf8 (owNamespace o') \<and> utf8 (owName o')) \<and>
     (\<forall>(a, o') \<in> set (mxEgress (snIndex snap)). utf8 (eoNamespace o') \<and> utf8 (eoEgress o') \<and> utf8 (eoPod o')) \<and>
     (\<forall>m \<in> set (mxMappings (snIndex snap)).
        list_all utf8 [miNamespace m, miName m, miClass m, miMode m, miProtocol m, miPort m, miEndpointNode m]) \<and>
     (\<forall>l \<in> set (snLinks snap). list_all utf8 [liDevice l, liSlot l, liClass l, liPeer l])"

section \<open>Lemmas: sums\<close>

lemma f64_small [simp]: "n < 2 ^ 53 \<Longrightarrow> f64 n = n"
  by (simp add: f64_def dropped.simps [of n])

lemma map_of_addTo [simp]: "map_of (addTo s x m) = (map_of m)(s \<mapsto> f64 (sumAt m s + f64 x))"
  by (simp add: addTo_def)

lemma distinct_addTo: "distinct (map fst m) \<Longrightarrow> distinct (map fst (addTo s x m))"
  by (simp add: addTo_def)

lemma keys_addTo: "fst ` set (addTo s x m) = insert s (fst ` set m)"
  by (simp add: addTo_def keys_mput)

lemma keys_addAll: "fst ` set (addAll adds m) = fst ` set adds \<union> fst ` set m"
proof (induction adds arbitrary: m)
  case (Cons a adds)
  then show ?case by (cases a) (simp add: addAll_def keys_addTo)
qed (simp add: addAll_def)

lemma distinct_addAll: "distinct (map fst m) \<Longrightarrow> distinct (map fst (addAll adds m))"
  unfolding addAll_def by (induction adds arbitrary: m) (auto simp: distinct_addTo)

definition addsAt :: "(series \<times> nat) list \<Rightarrow> series \<Rightarrow> nat" where
  "addsAt adds s = sum_list (map snd (filter (\<lambda>(t, x). t = s) adds))"

lemma addsAt_simps [simp]:
  "addsAt [] s = 0" "addsAt ((t, x) # adds) s = (if t = s then x + addsAt adds s else addsAt adds s)"
  "addsAt (as @ bs) s = addsAt as s + addsAt bs s"
  by (simp_all add: addsAt_def)

lemma sumAt_addTo: "sumAt (addTo t x m) s = (if t = s then f64 (sumAt m s + f64 x) else sumAt m s)"
  by (simp add: sumAt_def)

lemma sumAt_addAll:
  "sumAt m s + addsAt adds s < 2 ^ 53 \<Longrightarrow> sumAt (addAll adds m) s = sumAt m s + addsAt adds s"
proof (induction adds arbitrary: m)
  case (Cons a adds)
  obtain t x where a: "a = (t, x)" by (cases a)
  have "sumAt (addTo t x m) s = sumAt m s + (if t = s then x else 0)"
    using Cons.prems by (auto simp: a sumAt_addTo)
  then show ?case using Cons.IH [of "addTo t x m"] Cons.prems by (simp add: a addAll_def split: if_splits)
qed (simp add: addAll_def)

definition allAdds :: "Snapshot \<Rightarrow> totals \<Rightarrow> (series \<times> nat) list" where
  "allAdds snap counters = concat (map (\<lambda>(k, v). counterAdds snap k v) counters)"

lemma addAll_append: "addAll (as @ bs) m = addAll bs (addAll as m)"
  by (simp add: addAll_def)

lemma seriesSums_adds: "seriesSums snap counters = addAll (allAdds snap counters) []"
proof -
  have "foldl (\<lambda>m (k, v). addAll (counterAdds snap k v) m) m counters = addAll (allAdds snap counters) m" for m
  proof (induction counters arbitrary: m)
    case Nil
    show ?case by (simp add: allAdds_def addAll_def)
  next
    case (Cons c counters)
    then show ?case by (cases c) (simp add: allAdds_def addAll_append)
  qed
  then show ?thesis by (simp add: seriesSums_def)
qed

section \<open>Lemmas: labels\<close>

definition fits :: "series \<Rightarrow> bool" where
  "fits s \<longleftrightarrow> length (seLabels s) = length (descLabels (seDesc s))"

lemma newSeries_fits: "length labels = length (descLabels d) \<Longrightarrow> length labels \<le> 8 \<Longrightarrow> fits (newSeries d labels)"
  by (simp add: fits_def newSeries_def)

lemma counterAdds_fits: "(s, x) \<in> set (counterAdds snap k v) \<Longrightarrow> fits s"
  by (auto simp: counterAdds_def countAdds_def preAdds_def egressAdds_def Let_def fits_def newSeries_def split: if_splits option.splits)

lemma seriesSums_fits: "s \<in> fst ` set (seriesSums snap counters) \<Longrightarrow> fits s"
  by (auto simp: seriesSums_adds keys_addAll allAdds_def dest: counterAdds_fits)

text \<open>The two loops of the open flows, over any way to name a series.\<close>

definition flowAdd :: "(DNATKey, Owner) gomap \<Rightarrow> (DNATKey \<Rightarrow> Owner \<Rightarrow> series) \<Rightarrow> sums \<Rightarrow> DNATKey \<times> nat \<Rightarrow> sums" where
  "flowAdd idx f m = (\<lambda>(k, n). case map_of idx k of None \<Rightarrow> m | Some o' \<Rightarrow> addTo (f k o') n m)"

definition flowZero :: "(DNATKey \<Rightarrow> Owner \<Rightarrow> series) \<Rightarrow> sums \<Rightarrow> DNATKey \<times> Owner \<Rightarrow> sums" where
  "flowZero f m = (\<lambda>(k, o'). if map_of m (f k o') = None then mput (f k o') 0 m else m)"

definition flowSeries :: "DNATKey \<Rightarrow> Owner \<Rightarrow> series" where
  "flowSeries k o' = newSeries descOpenFlows [owNamespace o', owName o', role (dkIface k)]"

lemma flowSums_loops:
  "flowSums snap counted =
     foldl (flowZero flowSeries) (foldl (flowAdd (mxDNAT (snIndex snap)) flowSeries) [] counted) (mxDNAT (snIndex snap))"
  unfolding flowSums_def Let_def flowAdd_def flowZero_def flowSeries_def case_prod_beta by simp

lemma flowAdd_keys:
  "s \<in> fst ` set (foldl (flowAdd idx f) m cs) \<Longrightarrow> s \<in> fst ` set m \<or> (\<exists>(k, o') \<in> set idx. s = f k o')"
proof (induction cs arbitrary: m)
  case (Cons c cs)
  have "fst ` set (flowAdd idx f m c) \<subseteq> fst ` set m \<union> {s. \<exists>(k, o') \<in> set idx. s = f k o'}"
  proof (cases "map_of idx (fst c)")
    case None
    then show ?thesis by (cases c) (simp add: flowAdd_def)
  next
    case (Some o')
    then have "fst ` set (flowAdd idx f m c) = insert (f (fst c) o') (fst ` set m)"
      by (cases c) (simp add: flowAdd_def keys_addTo)
    then show ?thesis using map_of_SomeD [OF Some] by blast
  qed
  moreover have "s \<in> fst ` set (flowAdd idx f m c) \<or> (\<exists>(k, o') \<in> set idx. s = f k o')" using Cons by simp
  ultimately show ?case by blast
qed simp

lemma flowZero_keys: "s \<in> fst ` set (foldl (flowZero f) m ds) \<longleftrightarrow> s \<in> fst ` set m \<or> (\<exists>(k, o') \<in> set ds. s = f k o')"
proof (induction ds arbitrary: m)
  case (Cons d ds)
  obtain k o' where d: "d = (k, o')" by (cases d)
  have "fst ` set (flowZero f m (k, o')) = insert (f k o') (fst ` set m)"
    by (simp add: flowZero_def keys_mput map_of_eq_None_iff insert_absorb)
  with Cons [of "flowZero f m (k, o')"] show ?case by (simp add: d disj_assoc disj_commute disj_left_commute)
qed simp

lemma flowSums_fits: "s \<in> fst ` set (flowSums snap counted) \<Longrightarrow> fits s \<and> seDesc s = descOpenFlows"
  unfolding flowSums_loops flowZero_keys by (auto dest!: flowAdd_keys simp: flowSeries_def fits_def newSeries_def)

lemma flowSums_named: "s \<in> fst ` set (flowSums snap counted) \<Longrightarrow> \<exists>(k, o') \<in> set (mxDNAT (snIndex snap)). s = flowSeries k o'"
  unfolding flowSums_loops flowZero_keys by (auto dest!: flowAdd_keys)

lemma flowSums_distinct: "distinct (map fst (flowSums snap counted))"
proof -
  have 1: "distinct (map fst m) \<Longrightarrow> distinct (map fst (foldl (flowAdd idx f) m cs))" for idx f m cs
    by (induction cs arbitrary: m) (auto simp: flowAdd_def distinct_addTo split: option.split)
  have 2: "distinct (map fst m) \<Longrightarrow> distinct (map fst (foldl (flowZero f) m ds))" for f m ds
    by (induction ds arbitrary: m) (auto simp: flowZero_def)
  show ?thesis unfolding flowSums_loops by (intro 2 1) simp
qed

lemma seriesSums_distinct: "distinct (map fst (seriesSums snap counters))"
  by (simp add: seriesSums_adds distinct_addAll)

section \<open>Lemmas: owners\<close>

lemma countOwners_iff:
  "o' \<in> set (countOwnerIndex snap k) \<longleftrightarrow>
     (\<exists>d \<in> set (snDNAT snap). map_of (mxDNAT (snIndex snap)) (KeyOf d) = Some o' \<and> translatedKey d = k)"
proof -
  have "o' \<in> set (foldl (\<lambda>out d. case map_of idx (KeyOf d) of
        None \<Rightarrow> out | Some o' \<Rightarrow> out(translatedKey d := addOwner o' (out (translatedKey d)))) out ds k) \<longleftrightarrow>
      o' \<in> set (out k) \<or> (\<exists>d \<in> set ds. map_of idx (KeyOf d) = Some o' \<and> translatedKey d = k)" for idx out ds
    by (induction ds arbitrary: out) (auto simp: addOwner_def split: option.split)
  then show ?thesis by (simp add: countOwnerIndex_def)
qed

lemma countOwners_distinct: "distinct (countOwnerIndex snap k)"
proof -
  have "(\<And>k. distinct (out k)) \<Longrightarrow> distinct (foldl (\<lambda>out d. case map_of idx (KeyOf d) of
        None \<Rightarrow> out | Some o' \<Rightarrow> out(translatedKey d := addOwner o' (out (translatedKey d)))) out ds k)" for idx out and ds
    by (induction ds arbitrary: out) (auto simp: addOwner_def split: option.split)
  then show ?thesis by (simp add: countOwnerIndex_def)
qed

text \<open>The keys the collector looks up for the rules of one DNAT entry.\<close>

lemma countRules_key:
  assumes "r \<in> set (countRules d)" and "addrZone (unmapAddr (dnToAddr d)) = []"
  shows "dnatKeyOf (countIface (ruleLiveKey r)) (ruleLiveKey r) = translatedKey d"
proof -
  have "withoutZone (unmapAddr (dnToAddr d)) = unmapAddr (dnToAddr d)"
    using assms(2) by (cases "unmapAddr (dnToAddr d)") simp_all
  with assms(1) show ?thesis
    by (cases "dnToPort d = 0")
      (auto simp: countRules_def Let_def dnatKeyOf_def countIface_def ruleLiveKey_def newKey_def translatedKey_def KeyOf_def canonAddr_def)
qed

lemma dnatRule_key:
  assumes "addrZone (unmapAddr (dnToAddr d)) = []"
  shows "dnatKeyOf (lvIif (ruleLiveKey (dnatRule stand d))) (ruleLiveKey (dnatRule stand d)) = KeyOf d"
proof -
  have "withoutZone (unmapAddr (dnToAddr d)) = unmapAddr (dnToAddr d)"
    using assms by (cases "unmapAddr (dnToAddr d)") simp_all
  moreover have "ChainPre \<noteq> ChainCount" by (simp add: const_defs)
  ultimately show ?thesis
    by (simp add: dnatRule_def dnatKeyOf_def ruleLiveKey_def newKey_def KeyOf_def canonAddr_def)
qed

section \<open>Lemmas: open flows\<close>

definition flowAdds :: "Snapshot \<Rightarrow> (DNATKey, nat) gomap \<Rightarrow> (series \<times> nat) list" where
  "flowAdds snap counted =
     List.map_filter (\<lambda>(k, n). map_option (\<lambda>o'. (flowSeries k o', n)) (map_of (mxDNAT (snIndex snap)) k)) counted"

lemma flowAdd_loop: "foldl (flowAdd (mxDNAT (snIndex snap)) flowSeries) m counted = addAll (flowAdds snap counted) m"
proof (induction counted arbitrary: m)
  case Nil
  show ?case by (simp add: flowAdds_def map_filter_def addAll_def)
next
  case (Cons c counted)
  then show ?case
    by (cases c; cases "map_of (mxDNAT (snIndex snap)) (fst c)") (simp_all add: flowAdds_def flowAdd_def map_filter_def addAll_def)
qed

lemma flowZero_sum: "sumAt (foldl (flowZero f) m ds) s = sumAt m s"
proof (induction ds arbitrary: m)
  case (Cons d ds)
  obtain k o' where d: "d = (k, o')" by (cases d)
  have "sumAt (flowZero f m (k, o')) s = sumAt m s" by (simp add: flowZero_def sumAt_def)
  with Cons show ?case by (simp add: d)
qed simp

lemma flowSums_value:
  assumes "addsAt (flowAdds snap counted) s < 2 ^ 53"
  shows "sumAt (flowSums snap counted) s = addsAt (flowAdds snap counted) s"
  using sumAt_addAll [of "[]" s "flowAdds snap counted"] assms
  by (simp add: flowSums_loops flowZero_sum flowAdd_loop) (simp add: sumAt_def)

section \<open>Lemmas: the scrape\<close>

definition buildOf :: "builder \<Rightarrow> Metric \<Rightarrow> Metric option" where
  "buildOf build m = build (meDesc m) (meType m) (meValue m) (meLabels m)"

lemma buildOf_const: "constMetrics build \<Longrightarrow> buildOf build m = Some m' \<Longrightarrow> m' = m"
  unfolding constMetrics_def buildOf_def by (cases m) auto

lemma sendAll_const: "constMetrics build \<Longrightarrow> sendAll (map (buildOf build) ms) = Some out \<Longrightarrow> out = ms"
proof (induction ms arbitrary: out)
  case (Cons m ms)
  then show ?case by (cases "buildOf build m") (auto dest: buildOf_const split: option.splits)
qed simp

lemma sendAll_accepted:
  "constMetrics build \<Longrightarrow> list_all (\<lambda>m. buildOf build m \<noteq> None) ms \<Longrightarrow> sendAll (map (buildOf build) ms) = Some ms"
proof (induction ms)
  case (Cons m ms)
  then obtain m' where m': "buildOf build m = Some m'" by auto
  with Cons buildOf_const [OF Cons.prems(1) m'] show ?case by simp
qed simp

definition metricsOf :: "Snapshot \<Rightarrow> string + totals \<Rightarrow> string + ConntrackFlow list \<Rightarrow> Metric list" where
  "metricsOf snap counters dump =
     map (\<lambda>m. \<lparr>meDesc = descMappingInfo, meType = GaugeType, meValue = 1,
        meLabels = [miNamespace m, miName m, miClass m, miMode m, miProtocol m, miPort m, miEndpointNode m]\<rparr>) (mxMappings (snIndex snap))
     @ map (\<lambda>l. \<lparr>meDesc = descLinkInfo, meType = GaugeType, meValue = 1, meLabels = [liDevice l, liSlot l, liClass l, liPeer l]\<rparr>) (snLinks snap)
     @ (case counters of Inl _ \<Rightarrow> []
        | Inr cs \<Rightarrow> map (\<lambda>(s, v). \<lparr>meDesc = seDesc s, meType = CounterType, meValue = v, meLabels = seLabels s\<rparr>) (seriesSums snap cs)
                   @ [\<lparr>meDesc = descMSS, meType = CounterType, meValue = mssSum cs, meLabels = []\<rparr>])
     @ (case dump of Inl _ \<Rightarrow> []
        | Inr flows \<Rightarrow> if snDNAT snap = [] then []
            else map (\<lambda>(s, v). \<lparr>meDesc = seDesc s, meType = GaugeType, meValue = v, meLabels = seLabels s\<rparr>)
                   (flowSums snap (CountFlows flows (snDNAT snap))))"

lemma Collect_calls: "fst (Collect build snap counters dump) = sendAll (map (buildOf build) (metricsOf snap counters dump))"
  by (cases counters; cases dump; cases "snDNAT snap = []")
    (simp_all add: Collect_def metricsOf_def collectCounters_def collectOpenFlows_def buildOf_def comp_def case_prod_beta' case_prod_beta Let_def)

lemma elem_le_sum_list_nat: "(x :: nat) \<in> set xs \<Longrightarrow> x \<le> sum_list xs"
  by (simp add: member_le_sum_list)

lemma metricsOf_typed: "list_all (\<lambda>m. length (meLabels m) = length (descLabels (meDesc m))) (metricsOf snap counters dump)"
proof -
  have "length (seLabels s) = length (descLabels (seDesc s))" if "(s, v) \<in> set (seriesSums snap cs)" for s v cs
    using seriesSums_fits [of s snap cs] that by (force simp: fits_def)
  moreover have "length (seLabels s) = length (descLabels (seDesc s))" if "(s, v) \<in> set (flowSums snap ct)" for s v ct
    using flowSums_fits [of s snap ct] that by (force simp: fits_def)
  ultimately show ?thesis by (cases counters; cases dump) (auto simp: metricsOf_def list_all_iff)
qed

text \<open>Every label of a scrape is a constant of the code or a text of the snapshot.\<close>

lemma utf8_constants [simp]:
  "utf8 (role iface)" "utf8 (family f)" "utf8 (countDir k)" "utf8 ''blocked''" "utf8 ''link''"
proof -
  have "utf8 ''deliver''" "utf8 ''accept''" "utf8 ''ipv6''" "utf8 ''ipv4''" "utf8 ''reply''" "utf8 ''request''" by code_simp+
  then show "utf8 (role iface)" "utf8 (family f)" "utf8 (countDir k)" by (simp_all add: role_def family_def countDir_def)
qed code_simp+

lemma utf8_owner:
  assumes "utf8Snapshot snap" and "map_of (mxDNAT (snIndex snap)) k = Some o'"
  shows "utf8 (dkIface k)" "utf8 (owNamespace o')" "utf8 (owName o')"
  using assms(1) map_of_SomeD [OF assms(2)] by (auto simp: utf8Snapshot_def)

lemma utf8_egressOwner:
  assumes "utf8Snapshot snap" and "map_of (mxEgress (snIndex snap)) a = Some o'"
  shows "utf8 (eoNamespace o')" "utf8 (eoEgress o')" "utf8 (eoPod o')"
  using assms(1) map_of_SomeD [OF assms(2)] by (auto simp: utf8Snapshot_def)

lemma countAdds_utf8:
  assumes "utf8Snapshot snap" and "(s, x) \<in> set (countAdds (countOwnerIndex snap) k v)"
  shows "list_all utf8 (seLabels s)"
proof -
  from assms(2) obtain o' where o': "o' \<in> set (countOwnerIndex snap (dnatKeyOf (countIface k) k))"
      "seLabels s = [owNamespace o', owName o', countIface k, family (lvFamily k), role (countIface k), countDir k]"
    by (auto simp: countAdds_def Let_def newSeries_def)
  then obtain d where d: "map_of (mxDNAT (snIndex snap)) (KeyOf d) = Some o'" "translatedKey d = dnatKeyOf (countIface k) k"
    by (auto simp: countOwners_iff)
  have "dkIface (KeyOf d) = dkIface (translatedKey d)" by (simp add: translatedKey_def)
  then have "dkIface (KeyOf d) = countIface k" unfolding d(2) by (simp add: dnatKeyOf_def)
  with utf8_owner [OF assms(1) d(1)] o'(2) show ?thesis by simp
qed

lemma counterAdds_utf8:
  assumes "utf8Snapshot snap" and "(s, x) \<in> set (counterAdds snap k v)"
  shows "list_all utf8 (seLabels s)"
proof -
  have "utf8 (lvIif k)" if "Some o' = map_of (mxDNAT (snIndex snap)) (dnatKeyOf (lvIif k) k)" for o'
    using utf8_owner(1) [OF assms(1) that [symmetric]] by (simp add: dnatKeyOf_def)
  with assms(2) show ?thesis
    by (auto simp: counterAdds_def preAdds_def egressAdds_def Let_def newSeries_def countAdds_utf8 [OF assms(1)]
        utf8_owner [OF assms(1)] utf8_egressOwner [OF assms(1)] split: if_splits option.splits)
qed

lemma seriesSums_utf8: "utf8Snapshot snap \<Longrightarrow> s \<in> fst ` set (seriesSums snap counters) \<Longrightarrow> list_all utf8 (seLabels s)"
  by (auto simp: seriesSums_adds keys_addAll allAdds_def dest: counterAdds_utf8)

lemma flowSums_utf8: "utf8Snapshot snap \<Longrightarrow> s \<in> fst ` set (flowSums snap counted) \<Longrightarrow> list_all utf8 (seLabels s)"
  by (drule flowSums_named) (auto simp: flowSeries_def newSeries_def utf8Snapshot_def)

lemma metricsOf_utf8:
  assumes "utf8Snapshot snap"
  shows "list_all (\<lambda>m. list_all utf8 (meLabels m)) (metricsOf snap counters dump)"
proof -
  have "list_all utf8 (seLabels (fst p))" if "p \<in> set (seriesSums snap cs)" for p cs
    using that by (intro seriesSums_utf8 [OF assms, of _ cs] imageI)
  moreover have "list_all utf8 (seLabels (fst p))" if "p \<in> set (flowSums snap ct)" for p ct
    using that by (intro flowSums_utf8 [OF assms, of _ ct] imageI)
  moreover have "list_all (\<lambda>m. list_all utf8 [miNamespace m, miName m, miClass m, miMode m, miProtocol m, miPort m, miEndpointNode m]) (mxMappings (snIndex snap))"
    "list_all (\<lambda>l. list_all utf8 [liDevice l, liSlot l, liClass l, liPeer l]) (snLinks snap)"
    using assms by (auto simp: utf8Snapshot_def list_all_iff)
  ultimately show ?thesis
    by (cases counters; cases dump) (auto simp: metricsOf_def list_all_iff case_prod_beta')
qed

lemma Collect_metrics:
  assumes "constMetrics build" and "acceptsLabels build" and "utf8Snapshot snap"
  shows "fst (Collect build snap counters dump) = Some (metricsOf snap counters dump)"
proof -
  have "list_all (\<lambda>m. buildOf build m \<noteq> None) (metricsOf snap counters dump)"
    using metricsOf_typed [of snap counters dump] metricsOf_utf8 [OF assms(3), of counters dump] assms(2)
    by (simp add: list_all_iff buildOf_def acceptsLabels_def)
  then show ?thesis unfolding Collect_calls by (rule sendAll_accepted [OF assms(1)])
qed

text \<open>Where each series of a scrape comes from, and that no two come from different places.\<close>

lemma counterAdds_desc:
  "(s, x) \<in> set (counterAdds snap k v) \<Longrightarrow> seDesc s \<in> {descPackets, descBytes, descConnections, descEgressPackets, descEgressBytes}"
  by (auto simp: counterAdds_def countAdds_def preAdds_def egressAdds_def Let_def newSeries_def split: if_splits option.splits)

lemma seriesSums_desc:
  "s \<in> fst ` set (seriesSums snap cs) \<Longrightarrow> seDesc s \<in> {descPackets, descBytes, descConnections, descEgressPackets, descEgressBytes}"
  unfolding seriesSums_adds keys_addAll allAdds_def using counterAdds_desc by fastforce

lemma distinct_series:
  fixes m :: sums
  assumes "distinct (map fst m)"
  shows "distinct (map (\<lambda>x. (meDesc x, meLabels x)) (map (\<lambda>(s, v). \<lparr>meDesc = seDesc s, meType = t, meValue = v, meLabels = seLabels s\<rparr>) m))"
proof -
  have "map (\<lambda>x. (meDesc x, meLabels x)) (map (\<lambda>(s, v). \<lparr>meDesc = seDesc s, meType = t, meValue = v, meLabels = seLabels s\<rparr>) m) =
      map (\<lambda>s. (seDesc s, seLabels s)) (map fst m)"
    by (simp add: case_prod_beta)
  moreover have "inj_on (\<lambda>s. (seDesc s, seLabels s)) A" for A :: "series set" by (rule inj_onI) simp
  ultimately show ?thesis using assms by (simp add: distinct_map del: map_map)
qed

lemma metricsOf_distinct:
  assumes "distinct (mxMappings (snIndex snap))" and "distinct (snLinks snap)"
  shows "distinct (map (\<lambda>m. (meDesc m, meLabels m)) (metricsOf snap counters dump))"
proof -
  let ?id = "\<lambda>m. (meDesc m, meLabels m)"
  have infos: "distinct (map (\<lambda>m. (descMappingInfo, [miNamespace m, miName m, miClass m, miMode m, miProtocol m, miPort m, miEndpointNode m])) (mxMappings (snIndex snap)))"
    "distinct (map (\<lambda>l. (descLinkInfo, [liDevice l, liSlot l, liClass l, liPeer l])) (snLinks snap))"
    using assms by (simp_all add: distinct_map inj_on_def)
  have t: "seDesc (fst p) \<in> {descPackets, descBytes, descConnections, descEgressPackets, descEgressBytes}" if "p \<in> set (seriesSums snap cs)" for p cs
    using that by (intro seriesSums_desc [of _ snap cs] imageI)
  have f: "seDesc (fst p) = descOpenFlows" if "p \<in> set (flowSums snap ct)" for p ct
    using that flowSums_fits [of "fst p" snap ct] by simp
  show ?thesis
    unfolding metricsOf_def map_append distinct_append
    using infos distinct_series [OF seriesSums_distinct] distinct_series [OF flowSums_distinct] t f
    by (cases counters; cases dump) (auto simp: comp_def case_prod_beta dest!: t f)
qed

section \<open>Properties\<close>

text \<open>A constructor of metrics that keeps the documented contract and panics on everything else.\<close>

definition strictBuild :: builder where
  "strictBuild d t v labels =
     (if length labels = length (descLabels d) \<and> list_all utf8 labels
      then Some \<lparr>meDesc = d, meType = t, meValue = v, meLabels = labels\<rparr> else None)"

lemma strictBuild_laws: "constMetrics strictBuild" "acceptsLabels strictBuild"
  by (simp_all add: constMetrics_def acceptsLabels_def strictBuild_def)

text \<open>
  C34. A scrape does not panic. For a client library whose constructor of constant metrics takes every call with as
  many labels as the descriptor declares, each of them UTF-8, and for a snapshot whose names are UTF-8, every metric of
  a scrape is built and sent, whatever was counted or dumped and whether or not these reads failed; each has a
  descriptor the collector declares and exactly that descriptor's number of labels.
\<close>

theorem scrape_never_panics:
  assumes "constMetrics build" and "acceptsLabels build" and "utf8Snapshot snap"
  shows "\<exists>ms. fst (Collect build snap counters dump) = Some ms \<and>
     list_all (\<lambda>m. meDesc m \<in> set Describe \<and> length (meLabels m) = length (descLabels (meDesc m)) \<and> list_all utf8 (meLabels m)) ms"
proof -
  have "meDesc m \<in> set Describe" for m :: Metric by (cases "meDesc m") (simp_all add: Describe_def)
  with metricsOf_typed [of snap counters dump] metricsOf_utf8 [OF assms(3), of counters dump]
  show ?thesis by (simp add: Collect_metrics [OF assms] list_all_iff)
qed

lemma mappings_distinct:
  assumes "uniquePortMaps inp"
  shows "distinct (mxMappings (rsMetrics (Compute asSel inp)))"
proof -
  let ?key = "\<lambda>m. (pmNamespace (mpPm m), pmName (mpPm m))"
  let ?f = "\<lambda>m. case (mpClass m, mpEndpoint m) of (Some c, Some e) \<Rightarrow> Some (mappingInfo c e m) | _ \<Rightarrow> None"
  have d: "distinct (map ?key (filter P (filter Q (computeMappings asSel inp))))" for P Q
    using distinct_computeMappings [OF assms, of asSel] by (simp add: distinct_map_filter)
  have "distinct (map ?key ms) \<Longrightarrow> distinct (map (\<lambda>i. (miNamespace i, miName i)) (List.map_filter ?f ms)) \<and>
      (\<lambda>i. (miNamespace i, miName i)) ` set (List.map_filter ?f ms) \<subseteq> ?key ` set ms" for ms
    by (induction ms) (auto simp: map_filter_def mappingInfo_def Let_def split: option.splits)
  with d have "distinct (List.map_filter ?f (filter P (filter Q (computeMappings asSel inp))))" for P Q
    by (metis (no_types, lifting) distinct_map)
  then show ?thesis by (simp add: Compute_def buildMetricsIndex_def Let_def)
qed

lemma linkInfos_distinct:
  assumes "distinct (map linkObjName (inLinks inp))"
  shows "distinct (linkInfos inp st node)"
proof -
  have "''slot-'' @ liSlot i = linkObjName l" if "linkInfoOf held node l = Some i" for held l i
  proof -
    have "take 5 (linkObjName l) = ''slot-''" "liSlot i = drop 5 (linkObjName l)"
      using that by (auto simp: linkInfoOf_def Let_def split: if_splits)
    then show ?thesis by (metis append_take_drop_id)
  qed
  then have "map (\<lambda>i. ''slot-'' @ liSlot i) (List.map_filter (linkInfoOf held node) ls) =
      map linkObjName (filter (\<lambda>l. linkInfoOf held node l \<noteq> None) ls)" for held ls
    by (auto simp: map_filter_def)
  then have "distinct (map (\<lambda>i. ''slot-'' @ liSlot i) (List.map_filter (linkInfoOf held node) (inLinks inp)))" for held
    using assms by (simp only: distinct_map_filter)
  then have "distinct (List.map_filter (linkInfoOf held node) (inLinks inp))" for held
    by (simp only: distinct_map)
  then show ?thesis by (simp add: linkInfos_def)
qed

text \<open>
  C36. A scrape names each series once, which the registry requires of a collector. After a pass over
  PortMaps and Links with distinct names, no two metrics of a scrape have the same descriptor and labels; a metric
  has the descriptor and the labels the library was called with.
\<close>

theorem scrape_no_duplicates:
  assumes "uniquePortMaps inp" and "distinct (map linkObjName (inLinks inp))"
    and "constMetrics build"
    and "fst (Collect build (snapshotOf (recordApply inp (Compute asSel inp) node r)) counters dump) = Some ms"
  shows "distinct (map (\<lambda>m. (meDesc m, meLabels m)) ms)"
proof -
  have "ms = metricsOf (snapshotOf (recordApply inp (Compute asSel inp) node r)) counters dump"
    using sendAll_const [OF assms(3)] assms(4) by (simp add: Collect_calls)
  then show ?thesis
    using mappings_distinct [OF assms(1)] linkInfos_distinct [OF assms(2)]
    by (simp add: metricsOf_distinct snapshotOf_def recordApply_def)
qed

lemma scrape_no_duplicates_witness:
  "\<exists>ms. fst (Collect (\<lambda>d t v ls. Some \<lparr>meDesc = d, meType = t, meValue = v, meLabels = ls\<rparr>)
      (snapshotOf (recordApply (exInputs ''a'') (Compute exSel (exInputs ''a'')) ''a''
       \<lparr>rcApplied = None, rcAppliedAt = 0, rcKeep = None, rcReady = False, rcSnap = None\<rparr>)) (Inr []) (Inr [])) = Some ms \<and>
     distinct (map (\<lambda>m. (meDesc m, meLabels m)) ms)"
proof -
  let ?b = "\<lambda>d t v ls. Some \<lparr>meDesc = d, meType = t, meValue = v, meLabels = ls\<rparr>"
  have u: "uniquePortMaps (exInputs ''a'')" by code_simp
  have l: "distinct (map linkObjName (inLinks (exInputs ''a'')))" by code_simp
  have b: "constMetrics ?b" by (simp add: constMetrics_def)
  have "fst (Collect ?b snap counters dump) = Some (metricsOf snap counters dump)" for snap counters dump
    unfolding Collect_calls by (rule sendAll_accepted [OF b]) (simp add: buildOf_def list_all_iff)
  with scrape_no_duplicates [OF u l b] show ?thesis by blast
qed

text \<open>
  C35. Traffic is attributed to its owner. For a DNAT rule whose key the index owns, the kup-count rules of
  both directions, read back from the table, count for that owner: the packet series with its namespace,
  name and interface is at least what the rule counted, and its kup-pre rule counts the owner's
  connections. The values stay exact as long as every sum is below 2 to the 53.
\<close>

theorem mapping_traffic_attributed:
  assumes "d \<in> set (snDNAT snap)" and "map_of (mxDNAT (snIndex snap)) (KeyOf d) = Some o'"
    and "dnatOk d" and "CHR 0x00 \<notin> set (dnIface d)" and "addrZone (unmapAddr (dnToAddr d)) = []"
    and "r \<in> set (countRules d)"
    and "(lrKey (parseLiveRule big ChainCount (withCounter v (nftExprs (putNative big) sets r))), v) \<in> set counters"
    and "\<forall>s. addsAt (allAdds snap counters) s < 2 ^ 53"
  shows "unat (cvPackets v) \<le> sumAt (seriesSums snap counters)
      (newSeries descPackets [owNamespace o', owName o', dnIface d, family (familyOf (dnToAddr d)), role (dnIface d),
         if rlCtDir r = CtDirReply then ''reply'' else ''request''])"
proof -
  let ?k = "ruleLiveKey r"
  let ?s = "newSeries descPackets [owNamespace o', owName o', dnIface d, family (familyOf (dnToAddr d)), role (dnIface d),
      if rlCtDir r = CtDirReply then ''reply'' else ''request'']"
  have ct: "countable r" using assms(3,4,6) by (rule countRules_countable)
  have ch: "rlChain r = ChainCount" using assms(6) by (auto simp: countRules_def Let_def)
  have k: "(?k, v) \<in> set counters" using assms(7) by (simp add: parse_countable [OF ct ch])
  have fields: "lvChain ?k = ChainCount" "lvFamily ?k = familyOf (dnToAddr d)" "countIface ?k = dnIface d"
    "countDir ?k = (if rlCtDir r = CtDirReply then ''reply'' else ''request'')"
    using assms(6) by (auto simp: countRules_def Let_def ruleLiveKey_def newKey_def ruleFam_def ruleFamily_def countIface_def countDir_def)
  have "o' \<in> set (countOwnerIndex snap (dnatKeyOf (dnIface d) ?k))"
    using countRules_key [OF assms(6,5)] assms(1,2) by (auto simp: countOwners_iff fields)
  then have "(?s, unat (cvPackets v)) \<in> set (counterAdds snap ?k v)"
    by (auto simp: counterAdds_def countAdds_def Let_def fields)
  with k have "(?s, unat (cvPackets v)) \<in> set (allAdds snap counters)" by (force simp: allAdds_def)
  then have "unat (cvPackets v) \<le> addsAt (allAdds snap counters) ?s"
    unfolding addsAt_def by (intro elem_le_sum_list_nat) force
  also have "\<dots> = sumAt (seriesSums snap counters) ?s"
    using assms(8) sumAt_addAll [of "[]" ?s "allAdds snap counters"] by (simp add: seriesSums_adds sumAt_def)
  finally show ?thesis .
qed

lemma addsAt_le: "addsAt adds s \<le> sum_list (map snd adds)"
  by (induction adds) (auto simp: addsAt_def)

lemma addsAt_small: "sum_list (map snd adds) < 2 ^ 53 \<Longrightarrow> addsAt adds s < 2 ^ 53"
  using addsAt_le [of adds s] by (rule le_less_trans)

definition exOwner :: Owner where
  "exOwner = \<lparr>owNamespace = ''games'', owName = ''web''\<rparr>"

definition exSnapshot :: Snapshot where
  "exSnapshot = \<lparr>snIndex = \<lparr>mxDNAT = map (\<lambda>d. (KeyOf d, exOwner)) (stDNAT exNodeState), mxEgress = [], mxMappings = []\<rparr>,
     snDNAT = stDNAT exNodeState, snLinks = []\<rparr>"

lemma exSnapshot_utf8: "utf8Snapshot exSnapshot"
  by code_simp

lemma scrape_never_panics_witness:
  "\<exists>ms. fst (Collect strictBuild exSnapshot (Inr []) (Inr [])) = Some ms \<and>
     list_all (\<lambda>m. length (meLabels m) = length (descLabels (meDesc m))) ms"
  using scrape_never_panics [OF strictBuild_laws exSnapshot_utf8, of "Inr []" "Inr []"] by (auto simp: list_all_iff)

definition exCounters :: totals where
  "exCounters = [(ruleLiveKey (countRules (stDNAT exNodeState ! 1) ! 1), \<lparr>cvPackets = 9, cvBytes = 700\<rparr>)]"

lemma mapping_traffic_attributed_witness:
  "9 \<le> sumAt (seriesSums exSnapshot exCounters)
     (newSeries descPackets [''games'', ''web'', ''kup-0001'', ''ipv4'', ''deliver'', ''reply''])"
proof -
  let ?d = "stDNAT exNodeState ! 1" and ?v = "\<lparr>cvPackets = 9, cvBytes = 700\<rparr> :: CounterValue"
  let ?r = "countRules ?d ! 1"
  have d: "?d \<in> set (snDNAT exSnapshot)" by (simp add: exSnapshot_def exNodeState_def)
  have o: "map_of (mxDNAT (snIndex exSnapshot)) (KeyOf ?d) = Some exOwner"
    by (simp add: exSnapshot_def exNodeState_def)
  have ok: "dnatOk ?d" "CHR 0x00 \<notin> set (dnIface ?d)"
    using exNodeState_countable by (auto simp: countableState_def exNodeState_def)
  have z: "addrZone (unmapAddr (dnToAddr ?d)) = []" by (simp add: exNodeState_def)
  have r: "?r \<in> set (countRules ?d)" by (simp add: countRules_def Let_def)
  have "lrKey (parseLiveRule False ChainCount (withCounter ?v (nftExprs (putNative False) Map.empty ?r))) = ruleLiveKey ?r"
    using parse_countable [OF countRules_countable [OF ok r], of ChainCount] by (simp add: countRules_def Let_def)
  then have k: "(lrKey (parseLiveRule False ChainCount (withCounter ?v (nftExprs (putNative False) Map.empty ?r))), ?v) \<in> set exCounters"
    by (simp add: exCounters_def)
  have "sum_list (map snd (allAdds exSnapshot exCounters)) = 709" by code_simp
  then have "\<forall>s. addsAt (allAdds exSnapshot exCounters) s < 2 ^ 53"
    by (intro allI addsAt_small) simp
  from mapping_traffic_attributed [OF d o ok z r k this]
  show ?thesis by (simp add: exOwner_def exNodeState_def countRules_def Let_def family_def role_def familyOf_def)
qed

text \<open>
  Open flows. When the dump succeeds, every mapping of the index has an open-flow series, and the value
  is the number of conntrack entries that belong to the rules of the PortMap in that role, 0 when there is
  none; when it fails, the scrape counts one dump error and sends no open-flow series.
\<close>

theorem open_flows_complete:
  assumes "constMetrics build" and "acceptsLabels build" and "utf8Snapshot snap"
    and "snDNAT snap \<noteq> []" and "addsAt (flowAdds snap (CountFlows flows (snDNAT snap))) (flowSeries k o') < 2 ^ 53"
    and "(k, o') \<in> set (mxDNAT (snIndex snap))"
  shows "\<lparr>meDesc = descOpenFlows, meType = GaugeType,
      meValue = addsAt (flowAdds snap (CountFlows flows (snDNAT snap))) (flowSeries k o'),
      meLabels = [owNamespace o', owName o', role (dkIface k)]\<rparr> \<in> set (the (fst (Collect build snap counters (Inr flows)))) \<and>
    snd (Collect build snap counters (Inr flows)) = 0 \<and>
    snd (Collect build snap counters (Inl e)) = 1 \<and>
    descOpenFlows \<notin> meDesc ` set (the (fst (Collect build snap counters (Inl e))))"
proof -
  let ?sums = "flowSums snap (CountFlows flows (snDNAT snap))" and ?s = "flowSeries k o'"
  have "?s \<in> fst ` set ?sums" using assms(6) unfolding flowSums_loops flowZero_keys by blast
  then obtain v where v: "(?s, v) \<in> set ?sums" by auto
  then have "map_of ?sums ?s = Some v" using flowSums_distinct by (simp add: map_of_eq_Some_iff)
  then have "v = addsAt (flowAdds snap (CountFlows flows (snDNAT snap))) ?s"
    using flowSums_value [OF assms(5)] by (simp add: sumAt_def)
  with v have m: "\<lparr>meDesc = descOpenFlows, meType = GaugeType, meValue = addsAt (flowAdds snap (CountFlows flows (snDNAT snap))) ?s,
      meLabels = [owNamespace o', owName o', role (dkIface k)]\<rparr> \<in>
      (\<lambda>(s, v). \<lparr>meDesc = seDesc s, meType = GaugeType, meValue = v, meLabels = seLabels s\<rparr>) ` set ?sums"
    by (force simp: flowSeries_def newSeries_def)
  have "descOpenFlows \<notin> meDesc ` set (metricsOf snap counters (Inl e))"
    using seriesSums_desc [of _ snap] by (cases counters) (force simp: metricsOf_def)+
  with m assms(4) show ?thesis
    by (simp add: Collect_metrics [OF assms(1-3)] metricsOf_def) (simp add: Collect_def collectOpenFlows_def Let_def case_prod_beta)
qed

lemma open_flows_complete_witness:
  "\<exists>n. \<lparr>meDesc = descOpenFlows, meType = GaugeType, meValue = n, meLabels = [''games'', ''web'', ''deliver'']\<rparr> \<in>
     set (the (fst (Collect strictBuild exSnapshot (Inr []) (Inr exFlows))))"
proof -
  let ?k = "KeyOf (stDNAT exNodeState ! 1)"
  have "sum_list (map snd (flowAdds exSnapshot (CountFlows exFlows (snDNAT exSnapshot)))) = 2" by code_simp
  then have "addsAt (flowAdds exSnapshot (CountFlows exFlows (snDNAT exSnapshot))) (flowSeries ?k exOwner) < 2 ^ 53"
    by (intro addsAt_small) simp
  moreover have "snDNAT exSnapshot \<noteq> []" "(?k, exOwner) \<in> set (mxDNAT (snIndex exSnapshot))"
    by (simp_all add: exSnapshot_def exNodeState_def)
  moreover have "role (dkIface ?k) = ''deliver''" by code_simp
  ultimately show ?thesis
    using open_flows_complete [OF strictBuild_laws exSnapshot_utf8, of exFlows ?k exOwner "Inr []"] by (auto simp: exOwner_def)
qed

end
