(* ===== verification/Text.thy ===== *)
theory Text
  imports Counters
begin

text \<open>
  The text form of a Plan's ruleset (\<open>datapath/text.go\<close>), which the golden files hold and nft parses. The
  search for a prefix that is exactly a range is a loop that may not end as far as HOL can see; that it
  does is proved.
\<close>

section \<open>Words\<close>

definition l3Text :: "Family \<Rightarrow> string" where
  "l3Text f = (if f = FamilyIPv6 then ''ip6'' else ''ip'')"

text \<open>\<open>addrText\<close> of text.go, of an address held as bytes.\<close>

definition bytesText :: "bytes \<Rightarrow> string" where
  "bytesText b = addrText (case addrFromSlice b of Some a \<Rightarrow> a | None \<Rightarrow> AddrZero)"

definition nl :: string where
  "nl = [CHR 0x0A]"

definition tab :: string where
  "tab = [CHR 0x09]"

definition inQuotes :: "string \<Rightarrow> string" where
  "inQuotes s = CHR 0x22 # s @ [CHR 0x22]"

section \<open>Ranges\<close>

definition exactPrefix :: "AddrRange \<Rightarrow> nat \<Rightarrow> bool" where
  "exactPrefix r bits =
     (let p = prefixFrom (arFirst r) (int bits) in pfxAddr (masked p) = arFirst r \<and> lastAddr p = arLast r)"

text \<open>The loop: \<^term>\<open>Some None\<close> when no length up to the last fits.\<close>

partial_function (option) prefixLoop :: "AddrRange \<Rightarrow> nat \<Rightarrow> nat option option" where
  [code]: "prefixLoop r bits =
     (if bitLen (arFirst r) < bits then Some None
      else if exactPrefix r bits then Some (Some bits)
      else prefixLoop r (bits + 1))"

definition rangeText :: "AddrRange \<Rightarrow> string option" where
  "rangeText r =
     (if arFirst r = arLast r then Some (addrText (arFirst r))
      else (case prefixLoop r 0 of
              None \<Rightarrow> None
            | Some (Some bits) \<Rightarrow> Some (prefixText (prefixFrom (arFirst r) (int bits)))
            | Some None \<Rightarrow> Some (addrText (arFirst r) @ ''-'' @ addrText (arLast r))))"

section \<open>Rules\<close>

definition hex32 :: "32 word \<Rightarrow> string" where
  "hex32 w = ''0x'' @ hexText (unat w)"

definition matchText :: "Rule \<Rightarrow> string" where
  "matchText r =
     (case ruleFamily r of
        Some f \<Rightarrow> if rlSrcAddr r = None \<and> rlDstAddr r = None then ''meta nfproto '' @ nfprotoText f @ '' '' else []
      | None \<Rightarrow> []) @
     (if rlIifName r \<noteq> [] then ''iifname '' @ inQuotes (rlIifName r) @ '' '' else []) @
     (if rlOifName r \<noteq> [] then ''oifname '' @ (if rlOifNeg r then ''!= '' else []) @ inQuotes (rlOifName r) @ '' '' else []) @
     (case rlSrcAddr r of Some a \<Rightarrow> l3Text (familyOf a) @ '' saddr '' @ addrText a @ '' '' | None \<Rightarrow> []) @
     (case rlDstAddr r of Some a \<Rightarrow> l3Text (familyOf a) @ '' daddr '' @ addrText a @ '' '' | None \<Rightarrow> []) @
     (if rlDstOutsideCluster r then l3Text (ruleFam r) @ '' daddr != @'' @ clusterSet (ruleFam r) @ '' '' else [])"

definition flowText :: "Rule \<Rightarrow> string" where
  "flowText r =
     (if selProto (rlPort r) \<noteq> []
      then selProto (rlPort r) @ '' '' @ (if rlPortIsSrc r then ''sport'' else ''dport'') @ '' '' @ portText (rlPort r) @ '' '' else []) @
     (case rlCtDir r of CtDirAny \<Rightarrow> [] | CtDirOriginal \<Rightarrow> ''ct direction original '' | CtDirReply \<Rightarrow> ''ct direction reply '') @
     (if rlCtMark r \<noteq> 0 then ''ct mark '' @ hex32 (rlCtMark r) @ '' '' else [])"

definition statementText :: "Rule \<Rightarrow> string" where
  "statementText r =
     (let fam = ruleFam r; l3 = l3Text fam
      in case rlKind r of
           KindDNAT \<Rightarrow>
             (let to = (if rlToPort r \<noteq> 0 then \<lparr>selProto = selProto (rlPort r), selFirst = rlToPort r, selLast = rlToPort r\<rparr> else rlPort r);
                  addr = (if fam = FamilyIPv6 then ''['' @ addrText (rlToAddr r) @ '']'' else addrText (rlToAddr r))
              in ''counter dnat '' @ l3 @ '' to '' @ addr @ '':'' @ portText to)
         | KindSNAT \<Rightarrow> ''counter snat '' @ l3 @ '' to '' @ l3 @ '' saddr''
         | KindMark \<Rightarrow> ''counter meta mark set '' @ hex32 (rlMark r)
         | KindCtSave \<Rightarrow> ''counter ct mark set '' @ hex32 (rlMark r)
         | KindCtLoad \<Rightarrow> ''counter meta mark set ct mark''
         | KindSteer \<Rightarrow> l3 @ '' daddr set '' @ l3 @ '' daddr map @'' @ steerMap fam @ '' counter''
         | KindMasq \<Rightarrow> ''counter masquerade''
         | KindCount \<Rightarrow> ''ct status dnat counter''
         | KindMSS \<Rightarrow> [])"

definition nftText :: "Rule \<Rightarrow> string" where
  "nftText r =
     (if rlKind r = KindMSS then matchText r @ ''tcp flags syn / syn,rst counter tcp option maxseg size set rt mtu''
      else matchText r @ flowText r @ statementText r)"

section \<open>The Plan\<close>

definition chains :: "(string \<times> string) list" where
  "chains =
     [(ChainSteer, ''type filter hook prerouting priority dstnat - 20; policy accept;''),
      (ChainPre, ''type nat hook prerouting priority dstnat - 20; policy accept;''),
      (ChainPost, ''type nat hook postrouting priority srcnat - 10; policy accept;''),
      (ChainMangle, ''type filter hook prerouting priority mangle + 10; policy accept;''),
      (ChainEgress, ''type filter hook prerouting priority dstnat + 10; policy accept;''),
      (ChainMSS, ''type filter hook forward priority mangle; policy accept;''),
      (ChainCount, ''type filter hook postrouting priority filter; policy accept;'')]"

definition mapText :: "NftSet \<times> SetElement list \<Rightarrow> string" where
  "mapText m =
     (let typ = (if nsKeyType (fst m) = TypeIP6Addr then ''ipv6_addr'' else ''ipv4_addr'')
      in tab @ ''map '' @ nsName (fst m) @ '' {'' @ nl @ tab @ tab @ ''type '' @ typ @ '' : '' @ typ @ nl @
         tab @ tab @ ''elements = { '' @ joinText '', '' (map (\<lambda>e. bytesText (seKey e) @ '' : '' @ bytesText (seVal e)) (snd m)) @ '' }'' @ nl @
         tab @ ''}'' @ nl)"

definition setText :: "Family \<Rightarrow> AddrRange list \<Rightarrow> string option" where
  "setText f rs =
     (case those (map rangeText rs) of
        None \<Rightarrow> None
      | Some elems \<Rightarrow>
          Some (tab @ ''set '' @ clusterSet f @ '' {'' @ nl @
                tab @ tab @ ''type '' @ (if f = FamilyIPv6 then ''ipv6_addr'' else ''ipv4_addr'') @ nl @
                tab @ tab @ ''flags interval'' @ nl @
                (if rs \<noteq> [] then tab @ tab @ ''elements = { '' @ joinText '', '' elems @ '' }'' @ nl else []) @
                tab @ ''}'' @ nl))"

definition chainText :: "Rule list \<Rightarrow> string \<times> string \<Rightarrow> string" where
  "chainText rules c =
     tab @ ''chain '' @ fst c @ '' {'' @ nl @ tab @ tab @ snd c @ nl @
     concat (map (\<lambda>r. tab @ tab @ nftText r @ nl) (filter (\<lambda>r. rlChain r = fst c) rules)) @ tab @ ''}'' @ nl"

definition PlanString :: "Plan \<Rightarrow> string option" where
  "PlanString p =
     (case those (map (\<lambda>f. case map_of (plCluster p) f of None \<Rightarrow> Some [] | Some rs \<Rightarrow> setText f rs) [FamilyIPv4, FamilyIPv6]) of
        None \<Rightarrow> None
      | Some sets \<Rightarrow>
          Some (''table inet '' @ TableName @ '' {'' @ nl @ concat (map mapText (nftMaps (plSteer p))) @ concat sets @
                concat (map (chainText (plRules p)) chains) @ ''}'' @ nl))"

section \<open>Lemmas\<close>

lemma prefixLoop_find:
  "bits \<le> Suc (bitLen (arFirst r)) \<Longrightarrow> prefixLoop r bits = Some (find (exactPrefix r) [bits..<Suc (bitLen (arFirst r))])"
proof (induction "Suc (bitLen (arFirst r)) - bits" arbitrary: bits)
  case 0
  then show ?case by (subst prefixLoop.simps) simp
next
  case (Suc n)
  then have "bits < Suc (bitLen (arFirst r))" by simp
  with Suc(1) [of "Suc bits"] Suc(2) show ?case
    by (subst prefixLoop.simps) (simp add: upt_conv_Cons del: upt_Suc)
qed

lemma rangeText_Some: "\<exists>t. rangeText r = Some t"
  by (simp add: rangeText_def prefixLoop_find split: option.split del: upt_Suc)

lemma those_Some: "(\<And>x. x \<in> set xs \<Longrightarrow> \<exists>y. f x = Some y) \<Longrightarrow> \<exists>ys. those (map f xs) = Some ys"
  by (induction xs) fastforce+

lemma planString_Some: "\<exists>t. PlanString p = Some t"
proof -
  have "\<exists>t. setText f rs = Some t" for f rs
    using those_Some [of rs rangeText] rangeText_Some by (auto simp: setText_def)
  then have "\<exists>ts. those (map (\<lambda>f. case map_of (plCluster p) f of None \<Rightarrow> Some [] | Some rs \<Rightarrow> setText f rs) [FamilyIPv4, FamilyIPv6]) = Some ts"
    by (intro those_Some) (auto split: option.split)
  then show ?thesis by (auto simp: PlanString_def)
qed

lemma mask_block: "(w AND NOT (mask n)) OR mask n = w OR mask n" for w :: "'a::len word"
  by (rule bit_eqI) (auto simp: bit_simps)

lemma lastAddr_masked: "prefixIsValid p \<Longrightarrow> addrZone (pfxAddr p) = [] \<Longrightarrow> lastAddr (masked p) = lastAddr p"
proof -
  assume v: "prefixIsValid p" and z: "addrZone (pfxAddr p) = []"
  then obtain n where n: "pfxBits1 p = Suc n" by (cases "pfxBits1 p") (auto simp: prefixIsValid_def)
  show ?thesis using v z by (cases "pfxAddr p") (simp_all add: lastAddr_def masked_def n mask_block)
qed

lemma exactPrefix_range:
  assumes "addrIsValid (arFirst r)" and "addrZone (arFirst r) = []" and "bits \<le> bitLen (arFirst r)"
  shows "exactPrefix r bits \<longleftrightarrow> prefixRange (prefixFrom (arFirst r) (int bits)) = r"
proof -
  let ?p = "prefixFrom (arFirst r) (int bits)"
  have v: "prefixIsValid ?p" using assms by (simp add: prefixFrom_valid)
  have "withoutZone (arFirst r) = arFirst r" using assms(2) by (cases "arFirst r") simp_all
  then have "lastAddr (masked ?p) = lastAddr ?p" using v assms(2) by (intro lastAddr_masked) simp_all
  then show ?thesis by (cases r) (auto simp: exactPrefix_def prefixRange_def Let_def)
qed

section \<open>Properties\<close>

text \<open>
  C39. The text of a range. The search over prefix lengths ends for every range, and what is printed means
  the range exactly: one address when it has one, a prefix only when the prefix holds exactly the addresses
  from the first to the last, and first-last only when no prefix does. So the text of every Plan is made.
\<close>

theorem range_text_exact:
  assumes "addrIsValid (arFirst r)" and "rangeOf (bitLen (arFirst r)) r"
  shows "(\<exists>t. rangeText r = Some t \<and>
     (arFirst r = arLast r \<and> t = addrText (arFirst r) \<or>
      (\<exists>p. prefixIsValid p \<and> t = prefixText p \<and>
         (\<forall>a. bitLen a = bitLen (arFirst r) \<and> addrZone a = [] \<longrightarrow> prefixContains p a = spans r (addrVal a))) \<or>
      t = addrText (arFirst r) @ ''-'' @ addrText (arLast r) \<and>
         (\<nexists>bits. bits \<le> bitLen (arFirst r) \<and> prefixRange (prefixFrom (arFirst r) (int bits)) = r))) \<and>
     PlanString plan \<noteq> None"
proof -
  let ?n = "bitLen (arFirst r)"
  have z: "addrZone (arFirst r) = []" using assms(2) by (simp add: rangeOf_def)
  note ex = exactPrefix_range [OF assms(1) z]
  have plan: "PlanString plan \<noteq> None" using planString_Some [of plan] by auto
  consider (one) "arFirst r = arLast r" | (pre) bits where "arFirst r \<noteq> arLast r" "find (exactPrefix r) [0..<Suc ?n] = Some bits"
    | (none) "arFirst r \<noteq> arLast r" "find (exactPrefix r) [0..<Suc ?n] = None" by (cases "find (exactPrefix r) [0..<Suc ?n]") auto
  then show ?thesis
  proof cases
    case one
    with plan show ?thesis by (simp add: rangeText_def)
  next
    case pre
    let ?p = "prefixFrom (arFirst r) (int bits)"
    from pre(2) have b: "bits \<le> ?n" "exactPrefix r bits" by (auto simp: find_Some_iff simp del: upt_Suc)
    have v: "prefixIsValid ?p" using b(1) assms(1) by (simp add: prefixFrom_valid)
    have w: "withoutZone (arFirst r) = arFirst r" using z by (cases "arFirst r") simp_all
    have "prefixRange ?p = r" using ex [OF b(1)] b(2) by simp
    with prefix_range(2) [OF prefixFrom_wf v] w
    have "\<forall>a. bitLen a = ?n \<and> addrZone a = [] \<longrightarrow> prefixContains ?p a = spans r (addrVal a)" by simp
    moreover have "rangeText r = Some (prefixText ?p)"
      using pre by (simp add: rangeText_def prefixLoop_find del: upt_Suc)
    ultimately show ?thesis using v plan by blast
  next
    case none
    then have "\<nexists>bits. bits \<le> ?n \<and> prefixRange (prefixFrom (arFirst r) (int bits)) = r"
      using ex by (auto simp: find_None_iff simp del: upt_Suc)
    with none plan show ?thesis by (simp add: rangeText_def prefixLoop_find del: upt_Suc)
  qed
qed

lemma range_text_exact_witness:
  "\<exists>t. rangeText \<lparr>arFirst = V4 0x0af41200, arLast = V4 0x0af413ff\<rparr> = Some t \<and> PlanString (Render emptyState) \<noteq> None"
proof -
  let ?r = "\<lparr>arFirst = V4 0x0af41200, arLast = V4 0x0af413ff\<rparr>"
  have "addrIsValid (arFirst ?r)" "rangeOf (bitLen (arFirst ?r)) ?r" by (simp_all add: rangeOf_def)
  from range_text_exact [OF this, of "Render emptyState"] show ?thesis by blast
qed

end
