(* ===== verification/Listen.thy ===== *)
theory Listen
  imports Agent
begin

text \<open>
  Where \<open>/metrics\<close> listens (\<open>metrics/listen.go\<close>): the addresses a configuration resolves to, opening a
  listener on each or on none, and the loop that retries until it can. The lookup of an interface's
  addresses and the kernel's answer to a listen are parameters. Serving HTTP itself is not modelled.
\<close>

section \<open>Addresses\<close>

record BindConfig =
  bcBind :: string
  bcHostIP :: string
  bcPort :: "16 word"

type_synonym AddrPort = "addr \<times> 16 word"

definition listenable :: "addr \<Rightarrow> bool" where
  "listenable a \<longleftrightarrow> \<not> (isUnspecified a \<or> isMulticast a \<or> isLinkLocalUnicast a)"

definition ResolveAddrs :: "BindConfig \<Rightarrow> (string \<Rightarrow> string + addr list) \<Rightarrow> string + AddrPort list" where
  "ResolveAddrs c lookup =
     (if bcBind c = ''off'' then Inr []
      else if bcBind c = [] then
        (case parseAddr (bcHostIP c) of
           None \<Rightarrow> Inl (''HOST_IP '' @ quote (bcHostIP c) @ '' is not an address; the DaemonSet sets it from status.hostIP'')
         | Some a \<Rightarrow>
             if isUnspecified a then Inl (''HOST_IP '' @ addrText a @ '' is a wildcard address'')
             else Inr [(unmapAddr a, bcPort c)])
      else if parseAddr (bcBind c) \<noteq> None
      then Inl (''--metrics-bind '' @ quote (bcBind c) @ '' is an address; it takes an interface name or off'')
      else (case lookup (bcBind c) of
              Inl e \<Rightarrow> Inl (''interface '' @ bcBind c @ '': '' @ e)
            | Inr addrs \<Rightarrow>
                (let out = map (\<lambda>a. (a, bcPort c)) (filter listenable (map unmapAddr addrs))
                 in if out = [] then Inl (''interface '' @ bcBind c @ '' has no address to listen on'') else Inr out)))"

section \<open>Listeners\<close>

text \<open>
  \<open>net\<close> answers a listen with an error or the address it bound. The open sockets are the host's state;
  closing a listener takes its socket away.
\<close>

type_synonym net = "AddrPort \<Rightarrow> string + AddrPort"

definition closeAll :: "AddrPort list \<Rightarrow> AddrPort list \<Rightarrow> AddrPort list" where
  "closeAll lns sockets = foldl (\<lambda>ss l. remove1 l ss) sockets lns"

fun openAll :: "net \<Rightarrow> AddrPort list \<Rightarrow> AddrPort list \<Rightarrow> AddrPort list \<Rightarrow> (string + AddrPort list) \<times> AddrPort list" where
  "openAll net [] lns sockets = (Inr lns, sockets)"
| "openAll net (a # as) lns sockets =
     (case net a of
        Inl e \<Rightarrow> (Inl e, closeAll lns sockets)
      | Inr ln \<Rightarrow> openAll net as (lns @ [ln]) (sockets @ [ln]))"

record Server =
  svConfig :: BindConfig
  svBound :: "AddrPort list"

definition listen ::
  "(string \<Rightarrow> string + addr list) \<Rightarrow> net \<Rightarrow> Server \<Rightarrow> AddrPort list \<Rightarrow> (string + AddrPort list) \<times> Server \<times> AddrPort list" where
  "listen lookup net s sockets =
     (case ResolveAddrs (svConfig s) lookup of
        Inl e \<Rightarrow> (Inl e, s, sockets)
      | Inr addrs \<Rightarrow>
          (case openAll net addrs [] sockets of
             (Inl e, sockets') \<Rightarrow> (Inl e, s, sockets')
           | (Inr lns, sockets') \<Rightarrow> (Inr lns, s\<lparr>svBound := svBound s @ lns\<rparr>, sockets')))"

section \<open>Start\<close>





section \<open>Lemmas\<close>

lemma closeAll_fresh: "mset (closeAll lns (sockets @ lns)) = mset sockets"
proof -
  have "mset (closeAll ls ss) = mset ss - mset ls" for ls ss
    unfolding closeAll_def by (induction ls arbitrary: ss) simp_all
  then show ?thesis by simp
qed

lemma openAll_result:
  "openAll net as lns (sockets @ lns) = (res, sockets') \<Longrightarrow>
     (case res of Inl e \<Rightarrow> mset sockets' = mset sockets \<and> (\<exists>a \<in> set as. net a = Inl e)
      | Inr ls \<Rightarrow> sockets' = sockets @ ls \<and> (\<exists>new. ls = lns @ new \<and> list_all2 (\<lambda>a l. net a = Inr l) as new))"
proof (induction as arbitrary: lns)
  case Nil
  then show ?case by auto
next
  case (Cons a as)
  show ?case
  proof (cases "net a")
    case (Inl e)
    with Cons.prems show ?thesis by (auto simp: closeAll_fresh)
  next
    case (Inr l)
    with Cons.prems Cons.IH [of "lns @ [l]"] show ?thesis
      by (auto split: sum.splits)
  qed
qed

lemma isUnspecified_unmap:
  "isUnspecified (unmapAddr a) \<longleftrightarrow> isUnspecified a \<or> (\<exists>z. a = V6 0xffff00000000 z)"
proof (cases a)
  case (V6 w z)
  have "drop_bit 32 w = 0xffff \<and> (ucast w :: 32 word) = 0 \<longleftrightarrow> w = 0xffff00000000"
  proof
    assume w: "drop_bit 32 w = 0xffff \<and> (ucast w :: 32 word) = 0"
    have "take_bit 32 w = ucast (ucast w :: 32 word)" by (rule bit_eqI) (auto simp: bit_simps)
    then have "take_bit 32 w = 0" using w by simp
    then have "w = push_bit 32 (drop_bit 32 w)" by (metis bits_ident add.right_neutral)
    with w show "w = 0xffff00000000" by (simp add: push_bit_eq_mult)
  next
    assume "w = 0xffff00000000"
    then show "drop_bit 32 w = 0xffff \<and> (ucast w :: 32 word) = 0" by simp
  qed
  then show ?thesis by (auto simp: V6 isUnspecified_def)
qed (auto simp: isUnspecified_def)

lemma listen_result:
  assumes "listen lookup net s sockets = (res, s', sockets')"
  shows "case res of
      Inl e \<Rightarrow> s' = s \<and> mset sockets' = mset sockets \<and>
        (\<forall>addrs. ResolveAddrs (svConfig s) lookup = Inr addrs \<longrightarrow> (\<exists>a \<in> set addrs. net a = Inl e))
    | Inr lns \<Rightarrow> sockets' = sockets @ lns \<and> svBound s' = svBound s @ lns \<and>
        (\<exists>addrs. ResolveAddrs (svConfig s) lookup = Inr addrs \<and> list_all2 (\<lambda>a l. net a = Inr l) addrs lns)"
proof (cases "ResolveAddrs (svConfig s) lookup")
  case (Inl e)
  then have "res = Inl e" "s' = s" "sockets' = sockets" using assms by (simp_all add: listen_def)
  with Inl show ?thesis by simp
next
  case (Inr addrs)
  obtain r ss where o: "openAll net addrs [] sockets = (r, ss)" by (cases "openAll net addrs [] sockets")
  note res = openAll_result [of net addrs "[]" sockets r ss, simplified, OF o]
  show ?thesis
  proof (cases r)
    case (Inl e)
    then have "res = Inl e" "s' = s" "sockets' = ss" using assms by (simp_all add: listen_def Inr o)
    with res Inl Inr show ?thesis by auto
  next
    case r: (Inr lns)
    then have "res = Inr lns" "s' = s\<lparr>svBound := svBound s @ lns\<rparr>" "sockets' = ss" using assms by (simp_all add: listen_def Inr o)
    with res r Inr show ?thesis by auto
  qed
qed

text \<open>
  What opens the endpoint on every address of the node: the sixteen or four bytes of the address are zero, or
  the four behind the IPv4-mapped prefix are. A zone does not change that, it only names an
  interface. The zero address is none: its text is no address to listen on.
\<close>

fun wildcard :: "addr \<Rightarrow> bool" where
  "wildcard AddrZero \<longleftrightarrow> False"
| "wildcard (V4 w) \<longleftrightarrow> w = 0"
| "wildcard (V6 w z) \<longleftrightarrow> w = 0 \<or> w = 0xffff00000000"

lemma wildcard_unmap [simp]: "wildcard (unmapAddr a) \<longleftrightarrow> wildcard a"
proof (cases a)
  case (V6 w z)
  have "isUnspecified (unmapAddr (V6 w [])) \<longleftrightarrow> w = 0 \<or> w = 0xffff00000000"
    unfolding isUnspecified_unmap by (auto simp: isUnspecified_def)
  then show ?thesis by (auto simp: V6 isUnspecified_def)
qed simp_all

lemma wildcard_iff: "wildcard a \<longleftrightarrow> isUnspecified a \<or> (\<exists>z. a = V6 0xffff00000000 z) \<or> (\<exists>z. z \<noteq> [] \<and> a = V6 0 z)"
  by (cases a) (auto simp: isUnspecified_def)

lemma listenable_wildcard: "listenable (unmapAddr a) \<and> wildcard a \<longleftrightarrow> (\<exists>z. z \<noteq> [] \<and> a = V6 0 z)"
proof -
  have "listenable (V6 0 z)" if "z \<noteq> []" for z :: string
    using that by (simp add: listenable_def isUnspecified_def isLinkLocalUnicast_def)
  then show ?thesis by (auto simp: wildcard_iff listenable_def isUnspecified_unmap)
qed

section \<open>Properties\<close>

text \<open>
  C37. When the endpoint opens on a wildcard, an address whose bytes are all zero, whatever its zone and its form.
  Every address a configuration resolves to has the configured port, and there is none exactly when the
  endpoint is off. One of them is a wildcard exactly in these cases: the endpoint listens on the node's InternalIP
  and that is the IPv4-mapped form of the wildcard, or the IPv6 wildcard with a zone; or it listens on an interface
  whose lookup answers the IPv6 wildcard with a zone. The check compares the address with its zone, and
  that of the InternalIP stands before the unmapping.
\<close>

theorem listens_on_no_wildcard:
  assumes "ResolveAddrs c lookup = Inr addrs"
  shows "(list_ex (\<lambda>(a, p). wildcard a) addrs \<longleftrightarrow>
      (if bcBind c = []
       then \<exists>z. parseAddr (bcHostIP c) = Some (V6 0xffff00000000 z) \<or> z \<noteq> [] \<and> parseAddr (bcHostIP c) = Some (V6 0 z)
       else bcBind c \<noteq> ''off'' \<and> (\<exists>as z. lookup (bcBind c) = Inr as \<and> z \<noteq> [] \<and> V6 0 z \<in> set as))) \<and>
    list_all (\<lambda>(a, p). p = bcPort c) addrs \<and> (addrs = [] \<longleftrightarrow> bcBind c = ''off'')"
proof (cases "bcBind c = [] \<or> bcBind c = ''off''")
  case True
  have "wildcard a \<longleftrightarrow> (\<exists>z. a = V6 0xffff00000000 z \<or> z \<noteq> [] \<and> a = V6 0 z)" if "\<not> isUnspecified a" for a
    using that by (auto simp: wildcard_iff)
  with True show ?thesis
    using assms by (auto simp: ResolveAddrs_def split: if_splits option.splits)
next
  case False
  then obtain as where as: "lookup (bcBind c) = Inr as"
      "addrs = map (\<lambda>a. (a, bcPort c)) (filter listenable (map unmapAddr as))" "addrs \<noteq> []"
    using assms by (auto simp: ResolveAddrs_def Let_def split: if_splits option.splits sum.splits)
  have "list_ex (\<lambda>(a, p). wildcard a) addrs \<longleftrightarrow> (\<exists>a \<in> set as. listenable (unmapAddr a) \<and> wildcard a)"
    unfolding as(2) list_ex_iff by auto
  with False as show ?thesis by (auto simp: listenable_wildcard list_all_iff)
qed

lemma listens_on_no_wildcard_witness:
  "\<exists>addrs. ResolveAddrs \<lparr>bcBind = [], bcHostIP = ''::%eth0'', bcPort = 9790\<rparr> (\<lambda>_. Inr []) = Inr addrs \<and>
     list_ex (\<lambda>(a, p). wildcard a) addrs"
proof -
  have p: "parseAddr ''::%eth0'' = Some (V6 0 ''eth0'')" by code_simp
  then have "ResolveAddrs \<lparr>bcBind = [], bcHostIP = ''::%eth0'', bcPort = 9790\<rparr> (\<lambda>_. Inr []) = Inr [(V6 0 ''eth0'', 9790)]"
    by (simp add: ResolveAddrs_def isUnspecified_def)
  from listens_on_no_wildcard [OF this] this p show ?thesis by simp
qed

text \<open>The same through the mapped form, which the listener gets as the IPv4 wildcard.\<close>

lemma mapped_wildcard_resolves:
  "ResolveAddrs \<lparr>bcBind = [], bcHostIP = ''::ffff:0.0.0.0'', bcPort = p\<rparr> lookup = Inr [(V4 0, p)]"
proof -
  have "parseAddr ''::ffff:0.0.0.0'' = Some (V6 0xffff00000000 [])" by code_simp
  then show ?thesis by (simp add: ResolveAddrs_def isUnspecified_def)
qed

text \<open>
  All or nothing. A listen that fails leaves the host's sockets and the server as they were; one that
  succeeds has one listener per address it resolved, and exactly those are open in addition and reported
  as bound.
\<close>

theorem listen_all_or_none:
  assumes "listen lookup net s sockets = (res, s', sockets')"
  shows "case res of
      Inl e \<Rightarrow> s' = s \<and> mset sockets' = mset sockets
    | Inr lns \<Rightarrow> sockets' = sockets @ lns \<and> svBound s' = svBound s @ lns \<and>
        (\<exists>addrs. ResolveAddrs (svConfig s) lookup = Inr addrs \<and> list_all2 (\<lambda>a l. net a = Inr l) addrs lns)"
  using listen_result [OF assms] by (cases res) simp_all

lemma listen_all_or_none_witness:
  "\<exists>res s' sockets'. listen (\<lambda>_. Inr [V4 1, V4 2]) (\<lambda>a. if fst a = V4 1 then Inr a else Inl ''in use'')
      \<lparr>svConfig = \<lparr>bcBind = ''wt0'', bcHostIP = [], bcPort = 9790\<rparr>, svBound = []\<rparr> [] = (res, s', sockets') \<and> res = Inl ''in use'' \<and> sockets' = []"
proof -
  have "parseAddr ''wt0'' = None" by code_simp
  then have "fst (listen (\<lambda>_. Inr [V4 1, V4 2]) (\<lambda>a. if fst a = V4 1 then Inr a else Inl ''in use'')
      \<lparr>svConfig = \<lparr>bcBind = ''wt0'', bcHostIP = [], bcPort = 9790\<rparr>, svBound = []\<rparr> []) = Inl ''in use''"
    by (simp add: listen_def ResolveAddrs_def listenable_def isUnspecified_def isLinkLocalUnicast_def)
  then obtain s' ss where l: "listen (\<lambda>_. Inr [V4 1, V4 2]) (\<lambda>a. if fst a = V4 1 then Inr a else Inl ''in use'')
      \<lparr>svConfig = \<lparr>bcBind = ''wt0'', bcHostIP = [], bcPort = 9790\<rparr>, svBound = []\<rparr> [] = (Inl ''in use'', s', ss)"
    by (cases "listen (\<lambda>_. Inr [V4 1, V4 2]) (\<lambda>a. if fst a = V4 1 then Inr a else Inl ''in use'')
      \<lparr>svConfig = \<lparr>bcBind = ''wt0'', bcHostIP = [], bcPort = 9790\<rparr>, svBound = []\<rparr> []") auto
  from listen_all_or_none [OF l] l show ?thesis by auto
qed






end
