(* ===== verification/AgentMain.thy ===== *)
theory AgentMain
  imports Listen
begin

text \<open>
  The agent's command line (\<open>cmd/kuport-agent/main.go\<close>): flags with their fallbacks in the environment,
  as Go's \<open>flag\<close> and \<open>strconv\<close> parse them. The parser of durations is a parameter. Wiring the manager and
  its runnables is not modelled.
\<close>

section \<open>Numbers\<close>

text \<open>\<open>strconv.ParseUint\<close> in base 10 with a bound on the value.\<close>

definition parseUint10 :: "nat \<Rightarrow> string \<Rightarrow> nat option" where
  "parseUint10 width s =
     (if s = [] then None else case digitsVal 0 s of Some n \<Rightarrow> if n < 2 ^ width then Some n else None | None \<Rightarrow> None)"

text \<open>
  \<open>strconv.ParseUint\<close> in base 0, which \<open>fs.Uint\<close> uses: a prefix chooses the base, and underscores may stand
  between digits. \<open>underscoreOK\<close> remembers what it saw last: nothing, a digit or the base prefix, an
  underscore, or another character.
\<close>

datatype seen = SeenNone | SeenDigit | SeenUnderscore | SeenOther

definition basePrefix :: "string \<Rightarrow> (nat \<times> string) option" where
  "basePrefix s =
     (case s of
        CHR ''0'' # c # rest \<Rightarrow>
          (case toLowerChar c of CHR ''b'' \<Rightarrow> Some (2, rest) | CHR ''o'' \<Rightarrow> Some (8, rest) | CHR ''x'' \<Rightarrow> Some (16, rest) | _ \<Rightarrow> None)
      | _ \<Rightarrow> None)"

definition underscoreStep :: "bool \<Rightarrow> seen option \<Rightarrow> char \<Rightarrow> seen option" where
  "underscoreStep hex i c =
     (case i of
        None \<Rightarrow> None
      | Some j \<Rightarrow>
          if digitVal c \<noteq> None \<or> hex \<and> hexVal c \<noteq> None then Some SeenDigit
          else if c = CHR ''_'' then (if j = SeenDigit then Some SeenUnderscore else None)
          else if j = SeenUnderscore then None else Some SeenOther)"

definition underscoreOK :: "string \<Rightarrow> bool" where
  "underscoreOK s0 =
     (let s = (case s0 of c # rest \<Rightarrow> if c = CHR ''-'' \<or> c = CHR ''+'' then rest else s0 | [] \<Rightarrow> [])
      in case (case basePrefix s of
                 Some (b, rest) \<Rightarrow> foldl (underscoreStep (b = 16)) (Some SeenDigit) rest
               | None \<Rightarrow> foldl (underscoreStep False) (Some SeenNone) s) of
           None \<Rightarrow> False | Some i \<Rightarrow> i \<noteq> SeenUnderscore)"

fun digitsBase :: "nat \<Rightarrow> nat \<Rightarrow> string \<Rightarrow> nat option" where
  "digitsBase base acc [] = Some acc"
| "digitsBase base acc (c # cs) =
     (if c = CHR ''_'' then digitsBase base acc cs
      else (case hexVal c of
              Some d \<Rightarrow> if d < base then digitsBase base (base * acc + d) cs else None
            | None \<Rightarrow> None))"

definition parseUint0 :: "string \<Rightarrow> nat option" where
  "parseUint0 s =
     (if s = [] then None
      else let (base, ds) =
             (case (if 3 \<le> length s then basePrefix s else None) of
                Some (b, rest) \<Rightarrow> (b, rest)
              | None \<Rightarrow> if hd s = CHR ''0'' then (8, tl s) else (10, s))
           in case digitsBase base 0 ds of
                Some n \<Rightarrow> if n < 2 ^ 64 \<and> (CHR ''_'' \<in> set s \<longrightarrow> underscoreOK s) then Some n else None
              | None \<Rightarrow> None)"

definition parseBool :: "string \<Rightarrow> bool option" where
  "parseBool s =
     (if s \<in> set [''1'', ''t'', ''T'', ''TRUE'', ''true'', ''True''] then Some True
      else if s \<in> set [''0'', ''f'', ''F'', ''FALSE'', ''false'', ''False''] then Some False else None)"

section \<open>The configuration\<close>

record agentConfig =
  acNodeName :: string
  acLogLevel :: string
  acResync :: int
  acHealthAddr :: string
  acLinkPort :: "16 word"
  acMetrics :: BindConfig
  acShowVersion :: bool

type_synonym env = "string \<Rightarrow> string"

definition uintOr :: "env \<Rightarrow> string \<Rightarrow> nat \<Rightarrow> nat" where
  "uintOr getenv key def =
     (if getenv key \<noteq> [] then (case parseUint10 16 (getenv key) of Some n \<Rightarrow> if 0 < n then n else def | None \<Rightarrow> def) else def)"

definition envOr :: "env \<Rightarrow> string \<Rightarrow> string \<Rightarrow> string" where
  "envOr getenv key def = (if getenv key \<noteq> [] then getenv key else def)"

definition durOr :: "(string \<Rightarrow> int option) \<Rightarrow> env \<Rightarrow> string \<Rightarrow> int \<Rightarrow> int" where
  "durOr parseDur getenv key def =
     (if getenv key \<noteq> [] then (case parseDur (getenv key) of Some d \<Rightarrow> d | None \<Rightarrow> def) else def)"

text \<open>The values behind the flags, before the ports are cut to 16 bits.\<close>

record flagVals =
  fvNodeName :: string
  fvLogLevel :: string
  fvResync :: int
  fvHealthAddr :: string
  fvLinkPort :: nat
  fvMetricsBind :: string
  fvMetricsPort :: nat
  fvVersion :: bool

definition flagDefaults :: "(string \<Rightarrow> int option) \<Rightarrow> env \<Rightarrow> flagVals" where
  "flagDefaults parseDur getenv =
     \<lparr>fvNodeName = getenv ''NODE_NAME'', fvLogLevel = envOr getenv ''LOG_LEVEL'' ''info'',
      fvResync = durOr parseDur getenv ''RESYNC'' (5 * 60 * 1000000000), fvHealthAddr = envOr getenv ''HEALTH_ADDR'' '':8081'',
      fvLinkPort = uintOr getenv ''LINK_PORT'' 4790, fvMetricsBind = getenv ''METRICS_BIND'',
      fvMetricsPort = uintOr getenv ''METRICS_PORT'' 9790, fvVersion = False\<rparr>"

text \<open>\<open>Set\<close> of one flag; \<^term>\<open>None\<close> is an error, of the value or because no flag has the name.\<close>

definition setFlag :: "(string \<Rightarrow> int option) \<Rightarrow> string \<Rightarrow> string \<Rightarrow> flagVals \<Rightarrow> flagVals option" where
  "setFlag parseDur name val v =
     (if name = ''node-name'' then Some (v\<lparr>fvNodeName := val\<rparr>)
      else if name = ''log-level'' then Some (v\<lparr>fvLogLevel := val\<rparr>)
      else if name = ''resync'' then map_option (\<lambda>d. v\<lparr>fvResync := d\<rparr>) (parseDur val)
      else if name = ''health-addr'' then Some (v\<lparr>fvHealthAddr := val\<rparr>)
      else if name = ''link-port'' then map_option (\<lambda>n. v\<lparr>fvLinkPort := n\<rparr>) (parseUint0 val)
      else if name = ''metrics-bind'' then Some (v\<lparr>fvMetricsBind := val\<rparr>)
      else if name = ''metrics-port'' then map_option (\<lambda>n. v\<lparr>fvMetricsPort := n\<rparr>) (parseUint0 val)
      else if name = ''version'' then map_option (\<lambda>b. v\<lparr>fvVersion := b\<rparr>) (parseBool val)
      else None)"

text \<open>The name of a flag argument without its one or two dashes, and the value after the first equals sign.\<close>

definition splitFlag :: "string \<Rightarrow> string \<times> string option" where
  "splitFlag name =
     (case dropWhile (\<lambda>c. c \<noteq> CHR ''='') (tl name) of
        [] \<Rightarrow> (name, None)
      | _ # val \<Rightarrow> (hd name # takeWhile (\<lambda>c. c \<noteq> CHR ''='') (tl name), Some val))"

text \<open>
  \<open>FlagSet.Parse\<close> with \<open>ExitOnError\<close>: \<^term>\<open>Inl\<close> is the exit code, 0 for a call for help and 2 for an error.
  Parsing stops at the first argument that is no flag and after a double dash.
\<close>

function (sequential) parseArgs :: "(string \<Rightarrow> int option) \<Rightarrow> string list \<Rightarrow> flagVals \<Rightarrow> nat + flagVals" where
  "parseArgs parseDur [] v = Inr v"
| "parseArgs parseDur (s # args) v =
     (if length s < 2 \<or> hd s \<noteq> CHR ''-'' \<or> s = ''--'' then Inr v
      else let name0 = (if s ! 1 = CHR ''-'' then drop 2 s else drop 1 s)
           in if name0 = [] \<or> hd name0 = CHR ''-'' \<or> hd name0 = CHR ''='' then Inl 2
              else (case splitFlag name0 of (name, val) \<Rightarrow>
                if name = ''version'' then
                  (case setFlag parseDur name (case val of Some x \<Rightarrow> x | None \<Rightarrow> ''true'') v of
                     None \<Rightarrow> Inl 2 | Some v' \<Rightarrow> parseArgs parseDur args v')
                else if name \<notin> set [''node-name'', ''log-level'', ''resync'', ''health-addr'', ''link-port'', ''metrics-bind'', ''metrics-port''] then
                  Inl (if name = ''help'' \<or> name = ''h'' then 0 else 2)
                else (case val of
                        Some x \<Rightarrow> (case setFlag parseDur name x v of None \<Rightarrow> Inl 2 | Some v' \<Rightarrow> parseArgs parseDur args v')
                      | None \<Rightarrow>
                          (case args of
                             [] \<Rightarrow> Inl 2
                           | x # args' \<Rightarrow> (case setFlag parseDur name x v of None \<Rightarrow> Inl 2 | Some v' \<Rightarrow> parseArgs parseDur args' v')))))"
  by pat_completeness auto
termination by (relation "measure (\<lambda>(_, args, _). length args)") auto

definition parseFlags :: "(string \<Rightarrow> int option) \<Rightarrow> string list \<Rightarrow> env \<Rightarrow> nat + agentConfig" where
  "parseFlags parseDur args getenv =
     (case parseArgs parseDur args (flagDefaults parseDur getenv) of
        Inl code \<Rightarrow> Inl code
      | Inr v \<Rightarrow>
          Inr \<lparr>acNodeName = fvNodeName v, acLogLevel = fvLogLevel v, acResync = fvResync v, acHealthAddr = fvHealthAddr v,
               acLinkPort = of_nat (fvLinkPort v),
               acMetrics = \<lparr>bcBind = fvMetricsBind v, bcHostIP = getenv ''HOST_IP'', bcPort = of_nat (fvMetricsPort v)\<rparr>,
               acShowVersion = fvVersion v\<rparr>)"

datatype slogLevel = LevelDebug | LevelInfo | LevelWarn | LevelError

definition loggerLevel :: "string \<Rightarrow> slogLevel" where
  "loggerLevel level =
     (if level = ''debug'' then LevelDebug else if level = ''warn'' then LevelWarn
      else if level = ''error'' then LevelError else LevelInfo)"

text \<open>What \<open>main\<close> does with it: the exit code, or the configuration the agent runs with.\<close>

definition mainStart :: "(string \<Rightarrow> int option) \<Rightarrow> string list \<Rightarrow> env \<Rightarrow> nat + agentConfig" where
  "mainStart parseDur args getenv =
     (case parseFlags parseDur args getenv of
        Inl code \<Rightarrow> Inl code
      | Inr cfg \<Rightarrow> if acShowVersion cfg then Inl 0 else if acNodeName cfg = [] then Inl 1 else Inr cfg)"

section \<open>Lemmas\<close>

text \<open>
  What a port in the environment means, apart from how it is parsed: its value when the text is decimal
  digits and nothing else and the value is a port, the default otherwise.
\<close>

definition decimalDigit :: "char \<Rightarrow> bool" where
  "decimalDigit c \<longleftrightarrow> c \<in> set ''0123456789''"

definition decimalValue :: "string \<Rightarrow> nat" where
  "decimalValue s = foldl (\<lambda>n c. 10 * n + (of_char c - 48)) 0 s"

definition portOr :: "nat \<Rightarrow> string \<Rightarrow> nat" where
  "portOr def s =
     (if s \<noteq> [] \<and> list_all decimalDigit s \<and> 1 \<le> decimalValue s \<and> decimalValue s \<le> 65535 then decimalValue s else def)"

lemma decimalDigit_code: "decimalDigit c \<longleftrightarrow> 48 \<le> (of_char c :: nat) \<and> (of_char c :: nat) \<le> 57"
proof
  assume "48 \<le> (of_char c :: nat) \<and> (of_char c :: nat) \<le> 57"
  then have "(of_char c :: nat) \<in> set [48..<58]" unfolding set_upt by simp
  then have "c \<in> set (map char_of [48..<58 :: nat])" unfolding set_map by (metis char_of_char imageI)
  moreover have "map char_of [48..<58 :: nat] = ''0123456789''" by code_simp
  ultimately show "decimalDigit c" by (simp only: decimalDigit_def)
qed (auto simp: decimalDigit_def)

lemma digitsVal_decimal:
  "digitsVal acc s = (if list_all decimalDigit s then Some (foldl (\<lambda>n c. 10 * n + (of_char c - 48)) acc s) else None)"
  by (induction acc s rule: digitsVal.induct) (auto simp: digitVal_def decimalDigit_code Let_def split: option.splits)

lemma uintOr_portOr: "uintOr getenv key def = portOr def (getenv key)"
  by (auto simp: uintOr_def portOr_def parseUint10_def digitsVal_decimal decimalValue_def)

lemma portOr_bounds: "0 < def \<Longrightarrow> def < 65536 \<Longrightarrow> 0 < portOr def s \<and> portOr def s < 65536"
  by (auto simp: portOr_def)

lemma hexVal_digit [simp]: "n < 10 \<Longrightarrow> hexVal (digit n) = Some n"
proof -
  assume "n < 10"
  then have "n \<in> {0, 1, 2, 3, 4, 5, 6, 7, 8, 9}" by auto
  then show ?thesis by (auto simp: hexVal_def digit_def numeral_eq_Suc Let_def)
qed

lemma digit_not_underscore: "d < 10 \<Longrightarrow> digit d \<noteq> CHR ''_''"
  using hexVal_digit [of d] by (auto simp: hexVal_def Let_def)

lemma digitsBase_append:
  "digitsBase b acc (xs @ ys) = (case digitsBase b acc xs of None \<Rightarrow> None | Some a \<Rightarrow> digitsBase b a ys)"
  by (induction b acc xs rule: digitsBase.induct) (auto split: option.splits)

lemma digitsBase_itoa: "digitsBase 10 0 (itoa_nat n) = Some n"
proof (induction n rule: itoa_nat.induct)
  case (1 n)
  show ?case
    using 1 digit_not_underscore [of n] digit_not_underscore [of "n mod 10"]
    by (simp add: itoa_nat.simps [of n] digitsBase_append)
qed

lemma itoa_hd: "0 < n \<Longrightarrow> hd (itoa_nat n) \<noteq> CHR ''0''"
proof (induction n rule: itoa_nat.induct)
  case (1 n)
  show ?case
  proof (cases "n < 10")
    case True
    then have "n \<in> {1, 2, 3, 4, 5, 6, 7, 8, 9}" using 1 by auto
    then show ?thesis using True by (auto simp: itoa_nat.simps [of n] digit_def numeral_eq_Suc)
  next
    case False
    then show ?thesis using 1 by (simp add: itoa_nat.simps [of n])
  qed
qed

lemma parseUint0_itoa: "parseUint0 (itoa_nat n) = (if n < 2 ^ 64 then Some n else None)"
proof (cases "0 < n")
  case n: True
  obtain c cs where s: "itoa_nat n = c # cs" by (meson itoa_nat_not_Nil list.exhaust)
  have "c \<noteq> CHR ''0''" using itoa_hd [OF n] by (simp add: s)
  moreover from this have "basePrefix (c # cs) = None" by (simp add: basePrefix_def split: list.split char.split bool.split)
  moreover have "CHR ''_'' \<notin> set (c # cs)" using set_itoa_nat [of "CHR ''_''" n] digit_not_underscore unfolding s by metis
  moreover have "digitsBase 10 0 (c # cs) = Some n" using digitsBase_itoa [of n] unfolding s .
  ultimately show ?thesis unfolding s using n by (simp add: parseUint0_def del: digitsBase.simps)
next
  case False
  then show ?thesis by (simp add: parseUint0_def itoa_nat.simps [of 0] digit_def)
qed

section \<open>Properties\<close>

text \<open>
  C40. How the two ports are resolved, from any environment. Without flags, LINK_PORT and METRICS_PORT count when
  they are decimal digits and nothing else with a value of 1 to 65535; unset, zero, too large or no number,
  the default stands, 4790 and 9790. A flag with a decimal number of up to 64 bits, zero included, goes before
  the environment and is cut to its low 16 bits, so 65536 gives port 0 and 65616 gives port 80; a larger number ends
  the program with code 2. A flag for one port leaves the other alone.
\<close>

theorem port_settings:
  "(\<exists>cfg. parseFlags parseDur [] getenv = Inr cfg \<and>
      unat (acLinkPort cfg) = portOr 4790 (getenv ''LINK_PORT'') \<and>
      unat (bcPort (acMetrics cfg)) = portOr 9790 (getenv ''METRICS_PORT'')) \<and>
   (if n < 2 ^ 64
    then (\<exists>cfg. parseFlags parseDur [''--link-port'', itoa_nat n] getenv = Inr cfg \<and>
        unat (acLinkPort cfg) = n mod 65536 \<and> unat (bcPort (acMetrics cfg)) = portOr 9790 (getenv ''METRICS_PORT'')) \<and>
      (\<exists>cfg. parseFlags parseDur [''--metrics-port'', itoa_nat n] getenv = Inr cfg \<and>
        unat (acLinkPort cfg) = portOr 4790 (getenv ''LINK_PORT'') \<and> unat (bcPort (acMetrics cfg)) = n mod 65536)
    else parseFlags parseDur [''--link-port'', itoa_nat n] getenv = Inl 2 \<and>
      parseFlags parseDur [''--metrics-port'', itoa_nat n] getenv = Inl 2)"
proof -
  have d: "portOr 4790 s mod 65536 = portOr 4790 s" "portOr 9790 s mod 65536 = portOr 9790 s" for s
    using portOr_bounds [of 4790 s] portOr_bounds [of 9790 s] by simp_all
  have s: "splitFlag ''link-port'' = (''link-port'', None)" "splitFlag ''metrics-port'' = (''metrics-port'', None)" by code_simp+
  have f: "parseArgs parseDur [''--link-port'', itoa_nat n] v = (if n < 2 ^ 64 then Inr (v\<lparr>fvLinkPort := n\<rparr>) else Inl 2)"
    "parseArgs parseDur [''--metrics-port'', itoa_nat n] v = (if n < 2 ^ 64 then Inr (v\<lparr>fvMetricsPort := n\<rparr>) else Inl 2)" for v
    by (simp_all add: parseUint0_itoa setFlag_def s)
  show ?thesis
    by (simp add: parseFlags_def f del: parseArgs.simps(2)) (simp add: flagDefaults_def uintOr_portOr d unat_of_nat)
qed

lemma port_settings_witness:
  "\<exists>cfg. parseFlags (\<lambda>_. None) [''--link-port'', itoa_nat 65536] (\<lambda>key. if key = ''METRICS_PORT'' then ''0'' else []) = Inr cfg \<and>
     unat (acLinkPort cfg) = 0 \<and> unat (bcPort (acMetrics cfg)) = 9790"
proof -
  have "portOr 9790 ''0'' = 9790" by code_simp
  then show ?thesis using port_settings [of "\<lambda>_. None" "\<lambda>key. if key = ''METRICS_PORT'' then ''0'' else []" 65536] by auto
qed

text \<open>The agent runs only with a node name, and prints its version without one.\<close>

lemma mainStart_named: "mainStart parseDur args getenv = Inr cfg \<Longrightarrow> acNodeName cfg \<noteq> [] \<and> \<not> acShowVersion cfg"
  by (auto simp: mainStart_def split: sum.splits if_splits)

end
