(* ===== verification/Spec2Isabelle.thy ===== *)
theory Spec2Isabelle
  imports AgentRun Collector Text AgentMain
begin

text \<open>
  Verification of kuport, an agent that publishes ports of Kubernetes Services on chosen nodes and
  sends chosen pods' traffic out of chosen nodes. One agent runs on each node. Each pass of an agent
  computes, from the objects it watches, the desired state of its own host and its share of the
  statuses, renders the state into a plan, and applies the plan to nftables and netlink. There is no
  leader: agents agree because they compute the same decisions from the same objects.

  Between applies the agent counts traffic in the table and serves it as metrics.

  \<^bold>\<open>Parts and theories\<close> (files under \<open>src/internal\<close>).

  \<^item> \<open>Prelude\<close>: Go's slices, maps, sorting, \<open>strconv\<close>, \<open>strings\<close> and \<open>fmt\<close> as HOL functions. The locale
    \<open>keyed_less\<close> is the contract of every comparison passed to \<open>sort.Slice\<close>, with the lemma that the
    order of the input does not matter; \<open>row_writer\<close> is the contract of the loops that fill a map
    with the rows an agent owns. \<open>Netip\<close>: addresses, prefixes, their text and parsers (\<open>net/netip\<close>).
  \<^item> \<open>Api\<close>: the custom resources (\<open>api/v1alpha1\<close>) and the parts of the Kubernetes objects the program
    reads. \<open>DatapathState\<close>: the desired host state (\<open>datapath/state.go\<close>). \<open>ReconcileTypes\<close>: the inputs
    and a mapping under decision (\<open>reconcile/reconcile.go\<close>). \<open>Example\<close>: a small cluster for witnesses.
  \<^item> \<open>Endpoints\<close> (\<open>reconcile/endpoints.go\<close>): candidate endpoints, the choice, the serving node.
  \<^item> \<open>Conflicts\<close> (\<open>reconcile/conflicts.go\<close>): validation and first-come port conflicts. The locale
    \<open>shared_view\<close> states that a decision depends only on the objects all agents share.
  \<^item> \<open>Links\<close> (\<open>reconcile/links.go\<close>): the pool of link slots, the Link objects an agent creates, marks
    unused and deletes, and the parameters both ends derive from a slot.
  \<^item> \<open>Emit\<close> (\<open>reconcile/reconcile.go\<close>): the rules a mapping puts on each node, Programmed, the sorted
    State. \<open>EgressRules\<close> (\<open>reconcile/egress.go\<close>): which Egress owns a pod, its path, the rules on the
    pod's node and on the egress node, and the state kept when the agent stops.
  \<^item> \<open>Status\<close> (\<open>reconcile/status.go\<close>): class rows and PortMap statuses. \<open>Compute\<close>
    (\<open>reconcile/reconcile.go\<close>, \<open>reconcile/metrics.go\<close>): one pass as a whole and the metrics index.
  \<^item> \<open>Steer\<close> (\<open>datapath/steer.go\<close>): stand-in addresses. \<open>Render\<close> (\<open>datapath/render.go\<close>): from the State to
    the ordered plan. \<open>Packets\<close>: what the rendered chains do to a packet. \<open>Nft\<close> (\<open>datapath/nft.go\<close>):
    netlink expressions, sets, chains and the transaction. \<open>NftMatch\<close>: the expressions run on a kernel
    that meets the laws of the locale \<open>nft_kernel\<close>, stated over the standard header layouts and numbers
    and not over the program's own, and the transaction is closed.
  \<^item> \<open>Netlink\<close> (\<open>datapath/netlink.go\<close>, \<open>datapath/apply.go\<close>): the calls of the handle as a record of
    functions on a host state, the reconcile of links, rules and routes, \<open>Apply\<close> and \<open>Teardown\<close>.
    \<open>NetlinkHost\<close>: the locale \<open>reconciled\<close>, the contract of a list that is brought in step by adding
    and deleting, and the locale \<open>netlink_host\<close>, what the kernel's calls do; the rules of a family and
    the routes of a table are sublocales of the first. \<open>ApplyHost\<close>: devices, the stages and the
    teardown under these laws. \<open>FakeNetlink\<close>: a host kept in lists that meets the laws, the
    properties of \<open>Apply\<close> and \<open>Teardown\<close>, and concrete runs.
  \<^item> \<open>AgentStatus\<close> (\<open>agent/status.go\<close>): the writes of a pass to the API server, under retries, as
    functions on a world that other writers change between the calls; client-go's retry loop is a parameter
    with the law \<open>retriesConflicts\<close>; the locale \<open>versioned_store\<close>
    states optimistic concurrency and shows that such a write is one atomic merge. \<open>AgentServer\<close>: the
    locale \<open>link_store\<close> extends it for the Link pool, a step relation says what a pass may do to the
    pool, and a server that numbers its versions meets both. \<open>Agent\<close> (\<open>agent/hostcheck.go\<close>, \<open>inputs.go\<close>,
    \<open>agent.go\<close>, \<open>metrics.go\<close>, \<open>shutdown.go\<close>): the host checks, the inputs, the pass and the shutdown.
    \<open>AgentRun\<close>: runs of passes with a host that drifts, and the shutdown down to the kernel.
  \<^item> \<open>Counters\<close> (\<open>datapath/counters.go\<close>): the walk from a listed rule's expressions back to the key of its
    series, the totals and the fold before an apply; a step relation of traffic, applies and reads, each of
    which may fail, over a table that counts. \<open>Conntrack\<close> (\<open>datapath/conntrack.go\<close>): the DNAT rule each conntrack entry belongs to.
    \<open>Collector\<close> (\<open>metrics/collector.go\<close>, \<open>agent/metrics.go\<close>): the series of a scrape, their owners, labels
    and values, a value being a whole number rounded as float64 rounds it; the library's constructor of
    metrics is a parameter with the laws \<open>constMetrics\<close> and \<open>acceptsLabels\<close>. \<open>Listen\<close>
    (\<open>metrics/listen.go\<close>): the addresses \<open>/metrics\<close> listens on and the retry loop.
  \<^item> \<open>Text\<close> (\<open>datapath/text.go\<close>): the ruleset as text. \<open>AgentMain\<close> (\<open>src/cmd/kuport-agent/main.go\<close>): flags
    and their fallbacks in the environment.

  \<^bold>\<open>How state and operations correspond.\<close> A Go struct is a record with a prefix on its fields, an
  enumeration a datatype, a slice a list, a map that is only looked up a partial function, a map that
  is ranged over an association list. Ports, marks, tables and VNIs keep their width. A function that
  mutates an object returns it updated; a loop is a recursive function or a fold; an early return is
  a branch; an error is a value. The reconcile is a pure function of its inputs, as in the code. A
  comparison whose ties Go leaves unspecified is resolved stably.

  \<^bold>\<open>What is shown.\<close> Accepted mappings never share a port and each acceptance is explained; agents on
  any node reach the same decisions and no two write a status, one always does but for a mapping nobody
  accepts traffic for; within a class no packet has two rules; a slot belongs to one pair of
  nodes, fresh slots are really free and given in order, and a Link is deleted only when it is a duplicate or long
  unused; a request reaches the pod over the landed link and its reply leads back; a fail-closed pod
  never leaves directly, also after the agent stops; the State forgets the order things were emitted
  in; stand-ins are unique and checksum-neutral; the rendered chains translate exactly the packets
  the State names; each rule's expressions match and act as its fields say; the transaction refers
  only to what it adds; applying a plan leaves exactly the planned devices, rules and routes and keeps
  foreign devices, rules and routes, commits rules only over current links, and changes no rule or route the second
  time; a teardown removes all kuport owns and nothing else. Class rows of other nodes are never overwritten, the Link
  pool is changed only by decisions that are still current, the host holds the State of the last
  successful pass, and a stopped agent leaves its fail-closed pods blocked in the kernel. Reading rules
  back inverts writing them, a scrape reads every packet once over any run of successful applies and what
  failures add and lose is exact, it names its owner, no scrape panics or repeats a series, each conntrack entry counts for one rule, the
  endpoint comes up once it can and the cases in which it opens on a wildcard are exactly known, and the text of a
  range means the range. Some theorems describe faults of the code: an apply that fails over the links counts the
  table twice, a mapped or zoned wildcard is listened on, a port flag is cut to 16 bits, a rejected PortMap keeps its
  Programmed condition, and PortMaps of two classes may claim one port of one interface.

  \<^bold>\<open>Parameters.\<close> Code outside the repository is an argument: the label selector matcher, the netfilter
  connection, the netlink handle, the API client, its retry loop and the setter of conditions, the metrics
  library's constructor, the kernel's evaluation of expressions, the byte order of the host, the listing of rules and of conntrack, the lookup of an
  interface's addresses, the answers to a listen and the parser of durations. What is relied on is stated as hypotheses or as the laws
  of a locale. There is no fuel: every loop of the modelled code is
  structural, bounded by a counter of the code itself, or shown to end; a loop that waits for its
  surroundings runs over the list of what they answer; the theorems on writers hold for every retry loop
  that calls again only after a conflict.

  \<^bold>\<open>Not modelled.\<close> The wiring of watches and of the manager, the log lines and the counters the agent keeps
  of its own applies, the stripping of cached pods, serving HTTP and its shutdown, the Prometheus registry,
  the methods of the netlink handle that only call the library, and generated code (deep copies, scheme
  registration): they hold no decision of the program's own, or call code that is not in the repository.
\<close>

end
